(* ===== verification/Transitions.thy ===== *)
theory Transitions
  imports Main
begin

text \<open>
  The contract the services' state machines share. \<open>step_system\<close> is a step relation with its
  reachable states; \<open>invariant_system\<close> adds a predicate that holds initially and is kept by every
  step from a reachable state. The payment service, the registry, the registry with its sweep in
  parts, a node, a node with overlapping requests and the web server's connection table are interpretations.
\<close>

locale step_system =
  fixes initial :: "'s \<Rightarrow> bool"
    and step :: "'s \<Rightarrow> 's \<Rightarrow> bool"
    and reach :: "'s \<Rightarrow> bool"
  assumes reach_initial: "initial s \<Longrightarrow> reach s"
    and reach_step: "reach s \<Longrightarrow> step s s' \<Longrightarrow> reach s'"
    and reach_least: "reach s \<Longrightarrow> \<exists>s0. initial s0 \<and> step\<^sup>*\<^sup>* s0 s"
begin

lemma reach_steps: "step\<^sup>*\<^sup>* s s' \<Longrightarrow> reach s \<Longrightarrow> reach s'"
  by (induction rule: rtranclp_induct) (auto intro: reach_step)

lemma reach_iff: "reach s \<longleftrightarrow> (\<exists>s0. initial s0 \<and> step\<^sup>*\<^sup>* s0 s)"
  using reach_initial reach_steps reach_least by blast

end

locale invariant_system = step_system +
  fixes inv :: "'s \<Rightarrow> bool"
  assumes inv_initial: "initial s \<Longrightarrow> inv s"
    and inv_step: "step s s' \<Longrightarrow> reach s \<Longrightarrow> inv s \<Longrightarrow> inv s'"
begin

lemma inv_steps: "step\<^sup>*\<^sup>* s s' \<Longrightarrow> reach s \<Longrightarrow> inv s \<Longrightarrow> inv s'"
proof (induction rule: rtranclp_induct)
  case (step t u)
  then have "reach t" by (blast intro: reach_steps)
  with step show ?case by (blast intro: inv_step)
qed

lemma reachable_inv: "reach s \<Longrightarrow> inv s"
  using reach_least inv_initial inv_steps reach_initial by blast

end

end
