(* ===== verification/Prelude.thy ===== *)
theory Prelude
  imports Transitions "HOL-Library.Signed_Division"
begin

text \<open>
  Shared vocabulary of the development: the parts of Go and of its standard library that the
  sources under src/ use, and generic lemmas about them.

  \<^item> Go's 64-bit \<open>int\<close>/\<open>int64\<close>: a HOL integer kept in range by \<open>wrap64\<close>; Go's \<open>/\<close> is the
    truncating \<open>sdiv\<close> of HOL-Library.
  \<^item> \<open>time.Time\<close> is an integer number of nanoseconds, \<open>time.Duration\<close> likewise;
    \<open>timeSub\<close> saturates as \<open>Time.Sub\<close> does.
  \<^item> \<open>sort.Search\<close>, slice deletion, \<open>strconv.ParseInt\<close>/\<open>Itoa\<close>.
  \<^item> the \<open>http.ResponseWriter\<close> (the first status written wins) and panics as values.
\<close>

named_theorems wrap_simps \<open>facts that remove wrap-around from in-range integers\<close>
named_theorems http_simps \<open>facts on response writers\<close>

section \<open>Machine integers\<close>

definition minInt64 :: int where
  "minInt64 = - 9223372036854775808"

definition maxInt64 :: int where
  "maxInt64 = 9223372036854775807"

definition inInt64 :: "int \<Rightarrow> bool" where
  "inInt64 x \<longleftrightarrow> minInt64 \<le> x \<and> x \<le> maxInt64"

text \<open>The value of a 64-bit signed operation whose mathematical result is \<open>x\<close>.\<close>

definition wrap64 :: "int \<Rightarrow> int" where
  "wrap64 x = (x + 9223372036854775808) mod 18446744073709551616 - 9223372036854775808"

section \<open>Time\<close>

type_synonym time = int
type_synonym duration = int

definition nanosecond :: duration where
  "nanosecond = 1"

definition second :: duration where
  "second = 1000000000"

definition minute :: duration where
  "minute = 60 * second"

definition hour :: duration where
  "hour = 60 * minute"

text \<open>The zero \<open>time.Time\<close>, January 1 of year 1.\<close>

definition zeroTime :: time where
  "zeroTime = - 62135596800 * second"

text \<open>\<open>t.Sub(u)\<close> and \<open>time.Since(u)\<close> (with \<open>t\<close> the current time) saturate at the ends of the
  64-bit duration range.\<close>

definition timeSub :: "time \<Rightarrow> time \<Rightarrow> duration" where
  "timeSub t u = max minInt64 (min maxInt64 (t - u))"

text \<open>\<open>t.Unix()\<close>: whole seconds, rounded down.\<close>

definition unixTime :: "time \<Rightarrow> int" where
  "unixTime t = t div second"

section \<open>Results with panics\<close>

text \<open>
  A Go call either returns or panics; in both cases the state it has changed so far stays
  changed (\<open>net/http\<close> recovers a panic of a handler and goes on serving).
\<close>

datatype ('s, 'a) run = Ret 's 'a | Panic 's

fun runState :: "('s, 'a) run \<Rightarrow> 's" where
  "runState (Ret s a) = s"
| "runState (Panic s) = s"

section \<open>Slices\<close>

text \<open>\<open>append(xs[:i], xs[i+1:]...)\<close>, used with \<open>i\<close> in range.\<close>

definition delAt :: "nat \<Rightarrow> 'a list \<Rightarrow> 'a list" where
  "delAt i xs = take i xs @ drop (Suc i) xs"

text \<open>\<open>sort.Search(n, p)\<close>: the binary search of the standard library.\<close>

function sortSearchLoop :: "(nat \<Rightarrow> bool) \<Rightarrow> nat \<Rightarrow> nat \<Rightarrow> nat" where
  "sortSearchLoop p i j =
     (if i < j
      then (let h = (i + j) div 2
            in if \<not> p h then sortSearchLoop p (h + 1) j else sortSearchLoop p i h)
      else i)"
  by pat_completeness auto
termination
  by (relation "measure (\<lambda>(p, i, j). j - i)") auto

declare sortSearchLoop.simps [simp del]

definition sortSearch :: "nat \<Rightarrow> (nat \<Rightarrow> bool) \<Rightarrow> nat" where
  "sortSearch n p = sortSearchLoop p 0 n"

section \<open>strconv\<close>

datatype num_error = ErrSyntax | ErrRange

definition isDigit :: "char \<Rightarrow> bool" where
  "isDigit c \<longleftrightarrow> 48 \<le> (of_char c :: nat) \<and> (of_char c :: nat) \<le> 57"

definition digitVal :: "char \<Rightarrow> nat" where
  "digitVal c = of_char c - 48"

definition digitChar :: "nat \<Rightarrow> char" where
  "digitChar d = char_of (48 + d)"

text \<open>The digit loop of \<open>strconv.ParseUint(s, 10, 64)\<close>; a value out of range ends the loop before
  the rest of the text is looked at.\<close>

fun parseUintLoop :: "string \<Rightarrow> nat \<Rightarrow> num_error + nat" where
  "parseUintLoop [] n = Inr n"
| "parseUintLoop (c # cs) n =
     (if \<not> isDigit c then Inl ErrSyntax
      else if n * 10 + digitVal c > 18446744073709551615 then Inl ErrRange
      else parseUintLoop cs (n * 10 + digitVal c))"

definition parseUint :: "string \<Rightarrow> num_error + nat" where
  "parseUint s = (if s = [] then Inl ErrSyntax else parseUintLoop s 0)"

text \<open>\<open>strconv.ParseInt(s, 10, 64)\<close>: the value and the error. A syntax error comes with the
  value 0, a range error with the nearest 64-bit integer.\<close>

definition parseMagnitude :: "bool \<Rightarrow> string \<Rightarrow> int \<times> num_error option" where
  "parseMagnitude neg s =
     (case parseUint s of
        Inl ErrSyntax \<Rightarrow> (0, Some ErrSyntax)
      | Inl ErrRange \<Rightarrow> (if neg then minInt64 else maxInt64, Some ErrRange)
      | Inr un \<Rightarrow>
          if \<not> neg \<and> int un > maxInt64 then (maxInt64, Some ErrRange)
          else if neg \<and> - int un < minInt64 then (minInt64, Some ErrRange)
          else (if neg then - int un else int un, None))"

definition parseInt :: "string \<Rightarrow> int \<times> num_error option" where
  "parseInt s =
     (case s of
        [] \<Rightarrow> (0, Some ErrSyntax)
      | c # cs \<Rightarrow>
          if c = CHR ''+'' then parseMagnitude False cs
          else if c = CHR ''-'' then parseMagnitude True cs
          else parseMagnitude False s)"

text \<open>\<open>strconv.Itoa\<close> / \<open>%d\<close>.\<close>

fun natDigits :: "nat \<Rightarrow> string" where
  "natDigits n = (if n < 10 then [digitChar n] else natDigits (n div 10) @ [digitChar (n mod 10)])"

declare natDigits.simps [simp del]

definition itoa :: "int \<Rightarrow> string" where
  "itoa n = (if n < 0 then CHR ''-'' # natDigits (nat (- n)) else natDigits (nat n))"

section \<open>HTTP\<close>

type_synonym status = nat

abbreviation StatusOK :: status where "StatusOK \<equiv> 200"
abbreviation StatusBadRequest :: status where "StatusBadRequest \<equiv> 400"
abbreviation StatusUnauthorized :: status where "StatusUnauthorized \<equiv> 401"
abbreviation StatusForbidden :: status where "StatusForbidden \<equiv> 403"
abbreviation StatusNotFound :: status where "StatusNotFound \<equiv> 404"
abbreviation StatusMethodNotAllowed :: status where "StatusMethodNotAllowed \<equiv> 405"
abbreviation StatusInternalServerError :: status where "StatusInternalServerError \<equiv> 500"

datatype http_method = GET | POST | DELETE | OtherMethod string

text \<open>
  A response under construction: the status sent, if any, and the body written so far, in
  order. Its body pieces are of a type that each service chooses (texts and the values it
  serialises).
\<close>

record 'b writer =
  wStatus :: "status option"
  wBody :: "'b list"

definition newWriter :: "'b writer" where
  "newWriter = \<lparr>wStatus = None, wBody = []\<rparr>"

text \<open>\<open>w.WriteHeader(code)\<close>: a second call has no effect on the status sent.\<close>

definition writeHeader :: "status \<Rightarrow> 'b writer \<Rightarrow> 'b writer" where
  "writeHeader c w = (case wStatus w of None \<Rightarrow> w\<lparr>wStatus := Some c\<rparr> | Some _ \<Rightarrow> w)"

text \<open>\<open>w.Write(b)\<close> sends status 200 first when none was sent.\<close>

definition writeBody :: "'b \<Rightarrow> 'b writer \<Rightarrow> 'b writer" where
  "writeBody b w = (writeHeader StatusOK w)\<lparr>wBody := wBody w @ [b]\<rparr>"

text \<open>\<open>http.Error(w, msg, code)\<close>.\<close>

definition httpError :: "'b \<Rightarrow> status \<Rightarrow> 'b writer \<Rightarrow> 'b writer" where
  "httpError b c w = writeBody b (writeHeader c w)"

text \<open>The status the client sees when the handler has returned.\<close>

definition finalStatus :: "'b writer \<Rightarrow> status" where
  "finalStatus w = (case wStatus w of None \<Rightarrow> StatusOK | Some c \<Rightarrow> c)"

section \<open>Lemmas: integers and time\<close>

lemma wrap64_id [wrap_simps]: "inInt64 x \<Longrightarrow> wrap64 x = x"
  by (simp add: wrap64_def inInt64_def minInt64_def maxInt64_def)

lemma wrap64_range [simp]: "inInt64 (wrap64 x)"
proof -
  have "0 \<le> (x + 9223372036854775808) mod 18446744073709551616"
    "(x + 9223372036854775808) mod 18446744073709551616 < 18446744073709551616"
    by simp_all
  then show ?thesis by (simp add: wrap64_def inInt64_def minInt64_def maxInt64_def)
qed

lemma wrap64_congruent: "\<exists>k. wrap64 x = x + k * 18446744073709551616"
proof -
  have "wrap64 x = x + (- ((x + 9223372036854775808) div 18446744073709551616)) * 18446744073709551616"
    unfolding wrap64_def using div_mult_mod_eq [of "x + 9223372036854775808" 18446744073709551616]
    by linarith
  then show ?thesis ..
qed

lemma wrap64_wrap64_add [wrap_simps]: "wrap64 (wrap64 x + y) = wrap64 (x + y)"
proof -
  obtain k where "wrap64 x = x + k * 18446744073709551616" using wrap64_congruent by blast
  then have "wrap64 x + y + 9223372036854775808 = (x + y + 9223372036854775808) + k * 18446744073709551616"
    by simp
  then show ?thesis unfolding wrap64_def [of "wrap64 x + y"] wrap64_def [of "x + y"]
    by (simp only: mod_mult_self1)
qed

lemma maxInt64_succ_wraps: "wrap64 (maxInt64 + 1) = minInt64"
  by (simp add: wrap64_def maxInt64_def minInt64_def)

lemma timeSub_le_iff: "minInt64 \<le> d \<Longrightarrow> d < maxInt64 \<Longrightarrow> timeSub t u \<le> d \<longleftrightarrow> t - u \<le> d"
  by (auto simp: timeSub_def)

lemma timeSub_gt_iff: "minInt64 \<le> d \<Longrightarrow> d < maxInt64 \<Longrightarrow> timeSub t u > d \<longleftrightarrow> t - u > d"
  by (auto simp: timeSub_def)

section \<open>Lemmas: slices and binary search\<close>

lemma in_set_tlD: "x \<in> set (tl xs) \<Longrightarrow> x \<in> set xs"
  by (cases xs) auto

lemma distinct_concat_keyed:
  "distinct (map fst es) \<Longrightarrow> (\<forall>e \<in> set es. distinct (snd e) \<and> (\<forall>r \<in> set (snd e). f r = fst e)) \<Longrightarrow>
   distinct (concat (map snd es))"
proof (induction es)
  case (Cons e es)
  have "r \<notin> set (snd e)" if "e' \<in> set es" "r \<in> set (snd e')" for r e'
    using Cons.prems that by (metis distinct.simps(2) image_eqI list.set_intros list.set_map list.simps(9))
  with Cons show ?case by auto
qed simp

lemma delAt_append [simp]: "delAt (length xs) (xs @ y # ys) = xs @ ys"
  by (simp add: delAt_def)

lemma length_delAt [simp]: "i < length xs \<Longrightarrow> length (delAt i xs) = length xs - 1"
  by (simp add: delAt_def)

lemma set_delAt_subset: "set (delAt i xs) \<subseteq> set xs"
  by (auto simp: delAt_def dest: in_set_takeD in_set_dropD)

lemma in_set_delAtD: "x \<in> set (delAt i xs) \<Longrightarrow> x \<in> set xs"
  using set_delAt_subset by fast

lemma delAt_Cons_0 [simp]: "delAt 0 (x # xs) = xs"
  by (simp add: delAt_def)

lemma delAt_Cons_Suc [simp]: "delAt (Suc i) (x # xs) = x # delAt i xs"
  by (simp add: delAt_def)

lemma delAt_map: "delAt i (map f xs) = map f (delAt i xs)"
  by (simp add: delAt_def take_map drop_map)

lemma distinct_delAt: "distinct xs \<Longrightarrow> distinct (delAt i xs)"
  by (metis delAt_def distinct_append distinct_drop distinct_take set_take_disj_set_drop_if_distinct le_SucI order_refl)

lemma butlast_delAt: "Suc j = length xs \<Longrightarrow> butlast xs = delAt j xs"
  by (metis butlast_conv_take delAt_def diff_Suc_1 drop_all order_refl append_Nil2)

text \<open>The loop finds the boundary of a predicate that is monotone on the searched range.\<close>

lemma sortSearchLoop_spec:
  assumes mono: "\<And>k l. k \<le> l \<Longrightarrow> l < n \<Longrightarrow> p k \<Longrightarrow> p l"
    and "i \<le> j" "j \<le> n" "\<forall>k<i. \<not> p k" "\<forall>k. j \<le> k \<and> k < n \<longrightarrow> p k"
  shows "sortSearchLoop p i j \<le> n \<and> (\<forall>k<sortSearchLoop p i j. \<not> p k) \<and>
    (\<forall>k. sortSearchLoop p i j \<le> k \<and> k < n \<longrightarrow> p k)"
  using assms
proof (induction p i j rule: sortSearchLoop.induct)
  case (1 p i j)
  show ?case
  proof (cases "i < j")
    case False
    then have "sortSearchLoop p i j = i" by (simp add: sortSearchLoop.simps [of p i j])
    with False "1.prems"(2-) show ?thesis by auto
  next
    case True
    define h where "h = (i + j) div 2"
    have h: "i \<le> h" "h < j" using True by (auto simp: h_def)
    show ?thesis
    proof (cases "p h")
      case False
      have "\<forall>k<h + 1. \<not> p k"
        using False h "1.prems"(1,3) by (metis Suc_eq_plus1 less_Suc_eq_le order_less_le_trans)
      with "1.IH"(1) [OF True h_def] False h "1.prems" True show ?thesis
        by (simp add: sortSearchLoop.simps [of p i j] Let_def flip: h_def)
    next
      case p: True
      have "\<forall>k. h \<le> k \<and> k < n \<longrightarrow> p k" using p "1.prems"(1) by blast
      with "1.IH"(2) [OF True h_def] p h "1.prems" True show ?thesis
        by (simp add: sortSearchLoop.simps [of p i j] Let_def flip: h_def)
    qed
  qed
qed

lemma sortSearch_spec:
  assumes "\<forall>k l. k \<le> l \<and> l < n \<and> p k \<longrightarrow> p l"
  shows "sortSearch n p \<le> n \<and> (\<forall>k<sortSearch n p. \<not> p k) \<and>
    (\<forall>k. sortSearch n p \<le> k \<and> k < n \<longrightarrow> p k)"
  unfolding sortSearch_def by (rule sortSearchLoop_spec) (use assms in blast, auto)

text \<open>On a list sorted by a key, searching for the first key above \<open>x\<close> gives the length of the
  prefix of keys up to \<open>x\<close>, so the search splits the list.\<close>

lemma sortSearch_sorted:
  assumes "sorted (map f xs)"
  shows "sortSearch (length xs) (\<lambda>i. f (xs ! i) > x) = length (takeWhile (\<lambda>a. f a \<le> x) xs)"
    (is "?r = ?m")
proof -
  have "\<forall>k l. k \<le> l \<and> l < length xs \<and> f (xs ! k) > x \<longrightarrow> f (xs ! l) > x"
    using sorted_nth_mono [OF assms] by fastforce
  note r = sortSearch_spec [OF this]
  have "\<not> ?r < ?m"
  proof
    assume lt: "?r < ?m"
    then have "f (takeWhile (\<lambda>a. f a \<le> x) xs ! ?r) \<le> x"
      using nth_mem set_takeWhileD by fastforce
    then have "f (xs ! ?r) \<le> x" using lt by (simp add: takeWhile_nth)
    moreover have "?r < length xs" using lt length_takeWhile_le [of "\<lambda>a. f a \<le> x" xs] by linarith
    then have "f (xs ! ?r) > x" using r by blast
    ultimately show False by simp
  qed
  moreover have "\<not> ?m < ?r"
  proof
    assume "?m < ?r"
    with r have "?m < length xs" by linarith
    from nth_length_takeWhile [OF this] have "f (xs ! ?m) > x" by simp
    with \<open>?m < ?r\<close> r show False by blast
  qed
  ultimately show ?thesis by simp
qed

section \<open>Lemmas: strconv\<close>

lemma isDigit_digitChar [simp]: "d < 10 \<Longrightarrow> isDigit (digitChar d)"
  by (simp add: isDigit_def digitChar_def)

lemma digitVal_digitChar [simp]: "d < 10 \<Longrightarrow> digitVal (digitChar d) = d"
  by (simp add: digitVal_def digitChar_def)

lemma isDigit_not_sign: "isDigit c \<Longrightarrow> c \<noteq> CHR ''+'' \<and> c \<noteq> CHR ''-''"
  by (auto simp: isDigit_def)

lemma parseUintLoop_snoc:
  "parseUintLoop cs n = Inr m \<Longrightarrow> isDigit c \<Longrightarrow> m * 10 + digitVal c \<le> 18446744073709551615 \<Longrightarrow>
   parseUintLoop (cs @ [c]) n = Inr (m * 10 + digitVal c)"
  by (induction cs arbitrary: n) (auto split: if_splits)

lemma natDigits_nonempty: "natDigits n \<noteq> []"
  by (subst natDigits.simps) simp

lemma itoa_nonempty: "itoa n \<noteq> []"
  by (simp add: itoa_def natDigits_nonempty)

lemma natDigits_digits: "\<forall>c \<in> set (natDigits n). isDigit c"
proof (induction n rule: natDigits.induct)
  case (1 n)
  then show ?case by (cases "n < 10") (auto simp: natDigits.simps [of n])
qed

lemma parseUintLoop_natDigits:
  "n \<le> 18446744073709551615 \<Longrightarrow> parseUintLoop (natDigits n) 0 = Inr n"
proof (induction n rule: natDigits.induct)
  case (1 n)
  show ?case
  proof (cases "n < 10")
    case True
    then show ?thesis by (simp add: natDigits.simps [of n])
  next
    case False
    with 1 have "parseUintLoop (natDigits (n div 10)) 0 = Inr (n div 10)" by simp
    from parseUintLoop_snoc [OF this, of "digitChar (n mod 10)"] False "1.prems" show ?thesis
      by (simp add: natDigits.simps [of n])
  qed
qed

text \<open>What \<open>Itoa\<close> prints, \<open>ParseInt\<close> (and so \<open>Atoi\<close>) reads back.\<close>

lemma parseInt_itoa: "inInt64 n \<Longrightarrow> parseInt (itoa n) = (n, None)"
proof -
  assume n: "inInt64 n"
  let ?ds = "natDigits (nat \<bar>n\<bar>)"
  have ds: "parseUint ?ds = Inr (nat \<bar>n\<bar>)"
  proof -
    have "nat \<bar>n\<bar> \<le> 18446744073709551615"
      using n by (auto simp: inInt64_def minInt64_def maxInt64_def nat_le_iff abs_if)
    then show ?thesis by (simp add: parseUint_def natDigits_nonempty parseUintLoop_natDigits)
  qed
  obtain c cs where cs: "?ds = c # cs" using natDigits_nonempty by (metis neq_Nil_conv)
  then have "c \<noteq> CHR ''+'' \<and> c \<noteq> CHR ''-''"
    using natDigits_digits [of "nat \<bar>n\<bar>"] isDigit_not_sign by simp
  with n ds cs show ?thesis
    by (cases "n < 0") (auto simp: parseInt_def itoa_def parseMagnitude_def inInt64_def)
qed

lemma parseInt_range: "inInt64 (fst (parseInt s))"
  by (auto simp: parseInt_def parseMagnitude_def inInt64_def minInt64_def maxInt64_def
      split: list.splits sum.splits num_error.splits)

text \<open>For evaluating both on closed texts and numbers.\<close>

lemmas parse_eval = parseInt_def parseMagnitude_def parseUint_def isDigit_def digitVal_def
  minInt64_def maxInt64_def

lemma digitChar_values:
  "digitChar 0 = CHR ''0''" "digitChar (Suc 0) = CHR ''1''" "digitChar 1 = CHR ''1''" "digitChar 2 = CHR ''2''"
  "digitChar 3 = CHR ''3''" "digitChar 4 = CHR ''4''" "digitChar 5 = CHR ''5''" "digitChar 6 = CHR ''6''"
  "digitChar 7 = CHR ''7''" "digitChar 8 = CHR ''8''" "digitChar 9 = CHR ''9''"
  by code_simp+

lemmas itoa_values = itoa_def natDigits.simps digitChar_values

lemmas itoa_eval = itoa_def natDigits.simps digitChar_def

section \<open>Lemmas: response writers\<close>

lemma wStatus_newWriter [simp]: "wStatus newWriter = None"
  by (simp add: newWriter_def)

lemma wBody_newWriter [simp]: "wBody newWriter = []"
  by (simp add: newWriter_def)

lemma wStatus_writeHeader [http_simps]:
  "wStatus (writeHeader c w) = Some (case wStatus w of None \<Rightarrow> c | Some d \<Rightarrow> d)"
  by (simp add: writeHeader_def split: option.split)

lemma wBody_writeHeader [http_simps]: "wBody (writeHeader c w) = wBody w"
  by (simp add: writeHeader_def split: option.split)

lemma wStatus_writeBody [http_simps]:
  "wStatus (writeBody b w) = Some (case wStatus w of None \<Rightarrow> StatusOK | Some d \<Rightarrow> d)"
  by (simp add: writeBody_def http_simps)

lemma wBody_writeBody [http_simps]: "wBody (writeBody b w) = wBody w @ [b]"
  by (simp add: writeBody_def)

lemma wStatus_httpError [http_simps]:
  "wStatus (httpError b c w) = Some (case wStatus w of None \<Rightarrow> c | Some d \<Rightarrow> d)"
  by (simp add: httpError_def http_simps split: option.split)

lemma wBody_httpError [http_simps]: "wBody (httpError b c w) = wBody w @ [b]"
  by (simp add: httpError_def http_simps)

lemmas finalStatus_simps [http_simps] = finalStatus_def

end
