(* ===== verification/Node_Proxy.thy ===== *)
theory Node_Proxy
  imports Prelude
begin

text \<open>
  Model of src/node/proxy.go: the rate-limited TCP proxy that a node opens for a user. The counters
  \<open>*ConnStats\<close> are shared between the table \<open>statsStore\<close> and the goroutines that copy data, so they
  live in an explicit heap: \<open>statsHeap\<close> holds the objects, \<open>statsStore\<close> the addresses.

  The limiter of golang.org/x/time/rate is a parameter: \<open>wait i n\<close> says whether the i-th call of
  \<open>WaitN\<close> for n tokens returns nil. What the network delivers is given as lists of events.
\<close>

section \<open>Addresses\<close>

fun indexByte :: "char \<Rightarrow> string \<Rightarrow> nat option" where
  "indexByte c [] = None"
| "indexByte c (x # xs) = (if x = c then Some 0 else map_option Suc (indexByte c xs))"

fun lastIndexByte :: "char \<Rightarrow> string \<Rightarrow> nat option" where
  "lastIndexByte c [] = None"
| "lastIndexByte c (x # xs) =
     (case lastIndexByte c xs of Some i \<Rightarrow> Some (Suc i) | None \<Rightarrow> if x = c then Some 0 else None)"

text \<open>\<open>net.SplitHostPort\<close>; \<open>None\<close> is an error.\<close>

definition splitHostPort :: "string \<Rightarrow> (string \<times> string) option" where
  "splitHostPort hostport =
     (case lastIndexByte CHR '':'' hostport of
        None \<Rightarrow> None
      | Some i \<Rightarrow>
          if hostport ! 0 = CHR ''['' then
            (case indexByte CHR '']'' hostport of
               None \<Rightarrow> None
             | Some e \<Rightarrow>
                 if e + 1 \<noteq> i then None
                 else if indexByte CHR ''['' (drop 1 hostport) \<noteq> None then None
                 else if indexByte CHR '']'' (drop (e + 1) hostport) \<noteq> None then None
                 else Some (take (e - 1) (drop 1 hostport), drop (i + 1) hostport))
          else if indexByte CHR '':'' (take i hostport) \<noteq> None then None
          else if indexByte CHR ''['' hostport \<noteq> None \<or> indexByte CHR '']'' hostport \<noteq> None then None
          else Some (take i hostport, drop (i + 1) hostport))"

section \<open>Limits and counters\<close>

record limit =
  Rate :: int
  Burst :: int

definition defaultlimit :: limit where
  "defaultlimit = \<lparr>Rate = 10 * 1000 * 1000 div 8, Burst = 16 * 1024\<rparr>"

record ConnStats =
  Uploaded :: int
  Downloaded :: int

definition zeroStats :: ConnStats where
  "zeroStats = \<lparr>Uploaded = 0, Downloaded = 0\<rparr>"

record stats_world =
  statsHeap :: "ConnStats list"
  statsStore :: "int \<rightharpoonup> nat"

definition loadOrStore :: "int \<Rightarrow> stats_world \<Rightarrow> stats_world \<times> nat" where
  "loadOrStore port w =
     (case statsStore w port of
        Some a \<Rightarrow> (w, a)
      | None \<Rightarrow> (w\<lparr>statsHeap := statsHeap w @ [zeroStats],
                  statsStore := (statsStore w)(port \<mapsto> length (statsHeap w))\<rparr>, length (statsHeap w)))"

text \<open>\<open>*cnt += n\<close> for one of the two counters of the object at an address.\<close>

definition countBytes :: "nat \<Rightarrow> bool \<Rightarrow> nat \<Rightarrow> stats_world \<Rightarrow> stats_world" where
  "countBytes a up n w =
     (let c = statsHeap w ! a
      in w\<lparr>statsHeap := (statsHeap w)[a :=
             if up then c\<lparr>Uploaded := wrap64 (Uploaded c + int n)\<rparr>
             else c\<lparr>Downloaded := wrap64 (Downloaded c + int n)\<rparr>]\<rparr>)"

section \<open>The limited reader\<close>

text \<open>
  The goroutine of \<open>limitReader\<close>. A read gives the bytes in the buffer and whether the error is
  non-nil. \<open>pipe i\<close> is \<open>None\<close> when the i-th write to the pipe succeeds, \<open>Some k\<close> when it fails after
  k bytes. The result is what reached the reader of the pipe, and the counter.
\<close>

fun limitReader ::
  "(nat \<Rightarrow> nat \<Rightarrow> bool) \<Rightarrow> (nat \<Rightarrow> nat option) \<Rightarrow> nat \<Rightarrow> (string \<times> bool) list \<Rightarrow> int \<Rightarrow> string \<times> int" where
  "limitReader wait pipe i [] cnt = ([], cnt)"
| "limitReader wait pipe i ((buf, err) # reads) cnt =
     (if buf \<noteq> [] then
        (if \<not> wait i (length buf) then ([], cnt)
         else
           (case pipe i of
              Some k \<Rightarrow> (take k buf, cnt)
            | None \<Rightarrow>
                (let cnt1 = wrap64 (cnt + int (length buf))
                 in if err then (buf, cnt1)
                    else (case limitReader wait pipe (Suc i) reads cnt1 of
                            (out, cnt2) \<Rightarrow> (buf @ out, cnt2)))))
      else if err then ([], cnt)
      else limitReader wait pipe (Suc i) reads cnt)"

section \<open>Connections\<close>

text \<open>\<open>handleConnection\<close> up to the two copies: nothing when the target cannot be dialled, otherwise
  the address of the counters both copies use.\<close>

definition handleConnection :: "bool \<Rightarrow> string \<Rightarrow> stats_world \<Rightarrow> stats_world \<times> nat option" where
  "handleConnection dialled localAddr w =
     (if \<not> dialled then (w, None)
      else
        (let portStr = (case splitHostPort localAddr of None \<Rightarrow> [] | Some (h, p) \<Rightarrow> p);
             port = fst (parseInt portStr);
             (w1, a) = loadOrStore port w
         in (w1, Some a)))"

text \<open>How far \<open>NewProxy\<close> is: it has not called \<open>net.Listen\<close> yet; it accepts connections; it has returned
  because it could not listen; because \<open>Accept\<close> failed, which leaves the listener open until the context
  is cancelled; or because the context was cancelled.\<close>

datatype proxy_phase = Starting | Serving | ListenFailed | AcceptFailed | ShutDown

text \<open>What \<open>listener.Accept\<close> gives: an error, with whether the context is done by then, or a connection with
  its remote and local address and whether the target can then be dialled.\<close>

datatype accept_event = AcceptError bool | Accepted string string bool

fun acceptLoop :: "string \<Rightarrow> accept_event list \<Rightarrow> stats_world \<Rightarrow> stats_world \<times> nat list \<times> proxy_phase" where
  "acceptLoop sourceIP [] w = (w, [], Serving)"
| "acceptLoop sourceIP (AcceptError ctxDone # evs) w = (w, [], if ctxDone then ShutDown else AcceptFailed)"
| "acceptLoop sourceIP (Accepted remote localAddr dialled # evs) w =
     (case splitHostPort remote of
        None \<Rightarrow> acceptLoop sourceIP evs w
      | Some (remoteAddr, p) \<Rightarrow>
          if remoteAddr \<noteq> sourceIP then acceptLoop sourceIP evs w
          else
            (let (w1, link) = handleConnection dialled localAddr w;
                 (w2, links, phase) = acceptLoop sourceIP evs w1
             in (w2, (case link of None \<Rightarrow> links | Some a \<Rightarrow> a # links), phase)))"

definition NewProxy :: "bool \<Rightarrow> string \<Rightarrow> accept_event list \<Rightarrow> stats_world \<Rightarrow> stats_world \<times> nat list \<times> proxy_phase" where
  "NewProxy listening sourceIP evs w = (if \<not> listening then (w, [], ListenFailed) else acceptLoop sourceIP evs w)"

section \<open>What happens to the counters while others read them\<close>

text \<open>Bytes counted by a copying goroutine, and the counters of a port fetched for a new connection.\<close>

datatype stats_event = Counted nat bool nat | Linked int

fun runEvents :: "stats_event list \<Rightarrow> stats_world \<Rightarrow> stats_world" where
  "runEvents [] w = w"
| "runEvents (Counted a up n # evs) w = runEvents evs (countBytes a up n w)"
| "runEvents (Linked port # evs) w = runEvents evs (fst (loadOrStore port w))"

section \<open>Lemmas\<close>

lemma length_countBytes [simp]: "length (statsHeap (countBytes a up n w)) = length (statsHeap w)"
  by (simp add: countBytes_def Let_def)

lemma statsStore_countBytes [simp]: "statsStore (countBytes a up n w) = statsStore w"
  by (simp add: countBytes_def Let_def)

lemma countBytes_nth:
  "b < length (statsHeap w) \<Longrightarrow> statsHeap (countBytes a up n w) ! b =
   (if b = a then (if up then (statsHeap w ! a)\<lparr>Uploaded := wrap64 (Uploaded (statsHeap w ! a) + int n)\<rparr>
                   else (statsHeap w ! a)\<lparr>Downloaded := wrap64 (Downloaded (statsHeap w ! a) + int n)\<rparr>)
    else statsHeap w ! b)"
  by (simp add: countBytes_def Let_def)

text \<open>The reads up to and including the first one with an error.\<close>

fun readAll :: "(string \<times> bool) list \<Rightarrow> string" where
  "readAll [] = []"
| "readAll ((buf, err) # reads) = (if err then buf else buf @ readAll reads)"

lemma limitReader_prefix: "\<exists>rest. readAll reads = fst (limitReader wait pipe i reads cnt) @ rest"
proof (induction wait pipe i reads cnt rule: limitReader.induct)
  case (2 wait pipe i buf err reads cnt)
  have "\<exists>rest. buf @ xs = take k buf @ rest" for k xs
    by (metis append.assoc append_take_drop_id)
  moreover have "\<exists>rest. buf = take k buf @ rest" for k by (metis append_take_drop_id)
  ultimately show ?case
    using 2 by (auto simp: Let_def split: option.split prod.split)
qed simp

lemma wrap64_add_assoc: "wrap64 (wrap64 (a + b) + c) = wrap64 (a + (b + c))"
  by (simp add: wrap_simps add.assoc)

lemma limitReader_count:
  assumes "\<forall>j. pipe j = None" "inInt64 cnt"
  shows "snd (limitReader wait pipe i reads cnt) = wrap64 (cnt + int (length (fst (limitReader wait pipe i reads cnt))))"
  using assms(2)
proof (induction reads arbitrary: i cnt)
  case Nil
  then show ?case by (simp add: wrap_simps)
next
  case (Cons r reads)
  obtain buf err where r: "r = (buf, err)" by fastforce
  have "snd (limitReader wait pipe (Suc i) reads (wrap64 (cnt + int (length buf)))) =
      wrap64 (wrap64 (cnt + int (length buf)) + int (length (fst (limitReader wait pipe (Suc i) reads (wrap64 (cnt + int (length buf)))))))"
    by (rule Cons.IH) simp
  moreover have "pipe i = None" using assms(1) by blast
  ultimately show ?case using Cons.IH [of cnt "Suc i"] Cons.prems
    by (auto simp: r Let_def wrap_simps algebra_simps wrap64_add_assoc case_prod_beta)
qed

lemma limitReader_complete:
  assumes "\<forall>j. pipe j = None" "\<forall>j n. n \<le> burst \<longrightarrow> wait j n" "\<forall>(buf, err) \<in> set reads. length buf \<le> burst"
  shows "fst (limitReader wait pipe i reads cnt) = readAll reads"
  using assms(3)
proof (induction reads arbitrary: i cnt)
  case (Cons r reads)
  then show ?case using assms(1,2) by (cases r) (auto simp: Let_def case_prod_beta)
qed simp

section \<open>Properties\<close>

text \<open>
  C37: what the limited reader passes on is a prefix of what it read. When the pipe is not closed it
  counts every byte it passed on; when besides no read exceeds the burst, which \<open>WaitN\<close> then grants,
  it passes everything on.
\<close>

theorem limitReader_faithful:
  assumes "inInt64 cnt" "limitReader wait pipe 0 reads cnt = (out, cnt')"
  shows "(\<exists>rest. readAll reads = out @ rest) \<and>
    ((\<forall>j. pipe j = None) \<longrightarrow> cnt' = wrap64 (cnt + int (length out))) \<and>
    ((\<forall>j. pipe j = None) \<and> (\<forall>j n. n \<le> burst \<longrightarrow> wait j n) \<and> (\<forall>(buf, err) \<in> set reads. length buf \<le> burst) \<longrightarrow>
       out = readAll reads)"
  using limitReader_prefix [of reads wait pipe 0 cnt] limitReader_count [OF _ assms(1), of pipe wait 0 reads]
    limitReader_complete [of pipe burst wait reads 0 cnt] assms(2) by simp

theorem limitReader_faithful_witness:
  "\<exists>out cnt'. limitReader (\<lambda>_ n. n \<le> 4) (\<lambda>_. None) 0 [(''abc'', False), ([], False), (''de'', True), (''f'', False)] 10 = (out, cnt') \<and>
     out = ''abcde'' \<and> cnt' = wrap64 15"
  using limitReader_faithful [where cnt = 10 and wait = "\<lambda>_ n. n \<le> 4" and pipe = "\<lambda>_. None" and burst = 4 and
      reads = "[(''abc'', False), ([], False), (''de'', True), (''f'', False)]"]
  by (simp add: inInt64_def minInt64_def maxInt64_def split: prod.splits)

text \<open>
  A proxy serves only the client it was opened for: connections from any other address, or
  from an address that does not parse, leave no trace.
\<close>

theorem proxy_serves_only_source:
  "NewProxy listening sourceIP evs w =
   NewProxy listening sourceIP
     (filter (\<lambda>ev. case ev of AcceptError _ \<Rightarrow> True
        | Accepted remote l d \<Rightarrow> map_option fst (splitHostPort remote) = Some sourceIP) evs) w"
proof -
  have "acceptLoop sourceIP evs w = acceptLoop sourceIP
     (filter (\<lambda>ev. case ev of AcceptError _ \<Rightarrow> True
        | Accepted remote l d \<Rightarrow> map_option fst (splitHostPort remote) = Some sourceIP) evs) w"
  proof (induction evs arbitrary: w)
    case (Cons ev evs)
    then show ?case by (cases ev) (simp_all add: case_prod_beta Let_def split: option.split)
  qed simp
  then show ?thesis unfolding NewProxy_def by (rule if_cong [OF refl refl])
qed

end
