(* ===== verification/Json.thy ===== *)
theory Json
  imports Prelude
begin

text \<open>
  JSON as the services exchange it, at the level of value trees: the text syntax of
  \<open>encoding/json\<close> is left out, its mapping between Go values and values is kept. An object is an
  ordered list of members, so duplicate keys and Go's rules for them (later members win, keys
  match without regard to ASCII case, unknown keys are skipped, \<open>null\<close> leaves a field alone) can
  be written down. A decoder returns \<open>None\<close> where \<open>Decode\<close>/\<open>Unmarshal\<close> returns an error.
\<close>

datatype json =
    JNull
  | JBool bool
  | JInt int
  | JFrac string
  | JStr string
  | JArr "json list"
  | JObj "(string \<times> json) list"

section \<open>Decoding into Go fields\<close>

text \<open>Case folding of a key, as the field matching of \<open>encoding/json\<close> does it on ASCII.\<close>

definition foldChar :: "char \<Rightarrow> char" where
  "foldChar c = (if 65 \<le> (of_char c :: nat) \<and> (of_char c :: nat) \<le> 90
     then char_of ((of_char c :: nat) + 32) else c)"

definition keyMatches :: "string \<Rightarrow> string \<Rightarrow> bool" where
  "keyMatches field key \<longleftrightarrow> map foldChar field = map foldChar key"

text \<open>Each decoder takes the value the target holds and returns the new one.\<close>

fun decodeString :: "json \<Rightarrow> string \<Rightarrow> string option" where
  "decodeString (JStr s) old = Some s"
| "decodeString JNull old = Some old"
| "decodeString _ old = None"

fun decodeInt :: "json \<Rightarrow> int \<Rightarrow> int option" where
  "decodeInt (JInt n) old = (if inInt64 n then Some n else None)"
| "decodeInt JNull old = Some old"
| "decodeInt _ old = None"

text \<open>A slice: every element is decoded into a fresh zero value; \<open>null\<close> gives the nil slice.\<close>

fun decodeElems :: "(json \<Rightarrow> 'a \<Rightarrow> 'a option) \<Rightarrow> 'a \<Rightarrow> json list \<Rightarrow> 'a list option" where
  "decodeElems d z [] = Some []"
| "decodeElems d z (j # js) =
     (case d j z of None \<Rightarrow> None
      | Some x \<Rightarrow> (case decodeElems d z js of None \<Rightarrow> None | Some xs \<Rightarrow> Some (x # xs)))"

fun decodeSlice :: "(json \<Rightarrow> 'a \<Rightarrow> 'a option) \<Rightarrow> 'a \<Rightarrow> json \<Rightarrow> 'a list \<Rightarrow> 'a list option" where
  "decodeSlice d z (JArr js) old = decodeElems d z js"
| "decodeSlice d z JNull old = Some []"
| "decodeSlice d z _ old = None"

text \<open>A struct: the members are visited in order and each one that matches a field is decoded
  into it. A field is given by its key and its decoder on the whole struct.\<close>

type_synonym 's field = "string \<times> (json \<Rightarrow> 's \<Rightarrow> 's option)"

fun setMember :: "'s field list \<Rightarrow> string \<Rightarrow> json \<Rightarrow> 's \<Rightarrow> 's option" where
  "setMember [] k v s = Some s"
| "setMember ((f, d) # fs) k v s = (if keyMatches f k then d v s else setMember fs k v s)"

fun decodeMembers :: "'s field list \<Rightarrow> (string \<times> json) list \<Rightarrow> 's \<Rightarrow> 's option" where
  "decodeMembers fs [] s = Some s"
| "decodeMembers fs ((k, v) # ms) s =
     (case setMember fs k v s of None \<Rightarrow> None | Some s' \<Rightarrow> decodeMembers fs ms s')"

fun decodeStruct :: "'s field list \<Rightarrow> json \<Rightarrow> 's \<Rightarrow> 's option" where
  "decodeStruct fs (JObj ms) s = decodeMembers fs ms s"
| "decodeStruct fs JNull s = Some s"
| "decodeStruct fs _ s = None"

text \<open>The field decoder made of a value decoder, a selector and an update.\<close>

definition onField ::
  "(json \<Rightarrow> 'a \<Rightarrow> 'a option) \<Rightarrow> ('s \<Rightarrow> 'a) \<Rightarrow> ('a \<Rightarrow> 's \<Rightarrow> 's) \<Rightarrow> json \<Rightarrow> 's \<Rightarrow> 's option" where
  "onField d get put j s = (case d j (get s) of None \<Rightarrow> None | Some x \<Rightarrow> Some (put x s))"

section \<open>Encoding\<close>

definition encodeStrings :: "string list \<Rightarrow> json" where
  "encodeStrings xs = JArr (map JStr xs)"

section \<open>Requests\<close>

text \<open>
  A request as a handler sees it. \<open>rQuery k\<close> is \<open>r.URL.Query().Get(k)\<close> and \<open>rHeader k\<close> is
  \<open>r.Header.Get(k)\<close> (empty when absent). The body is given in both readings the handlers use: the
  bytes read by \<open>io.ReadAll\<close> (\<open>None\<close> for a read error) and the value a JSON decoder finds in it
  (\<open>None\<close> when there is none).
\<close>

record request =
  rMethod :: http_method
  rPath :: string
  rQuery :: "string \<Rightarrow> string"
  rHeader :: "string \<Rightarrow> string"
  rRemoteAddr :: string
  rBody :: "string option"
  rJson :: "json option"

section \<open>Lemmas\<close>

lemma decodeElems_map:
  "(\<And>x. x \<in> set xs \<Longrightarrow> d (e x) z = Some x) \<Longrightarrow> decodeElems d z (map e xs) = Some xs"
  by (induction xs) simp_all

lemma decode_encodeStrings [simp]: "decodeSlice decodeString z (encodeStrings xs) old = Some xs"
  by (simp add: encodeStrings_def decodeElems_map)

lemma decodeElems_length: "decodeElems d z js = Some xs \<Longrightarrow> length xs = length js"
  by (induction js arbitrary: xs) (auto split: option.splits)

end
