(* ===== verification/Registration.thy ===== *)
theory Registration
  imports Json
begin

text \<open>
  The data shared by the registry and its clients, src/registry/registration.go, and its JSON
  form: a registration and a patch (registrations added and removed) survive the trip over the
  wire.
\<close>

section \<open>Model\<close>

record Registration =
  ServiceName :: string
  ServiceURL :: string
  ServiceID :: string
  PublicIP :: string
  PublicIPv6 :: string
  Description :: string
  RequiredServices :: "string list"
  ServiceUpdateURL :: string

definition LogService :: string where "LogService = ''LogService''"
definition ShellService :: string where "ShellService = ''ShellService''"
definition NodeService :: string where "NodeService = ''NodeService''"
definition WebService :: string where "WebService = ''WebService''"
definition PaymentService :: string where "PaymentService = ''PaymentService''"

record patch =
  Added :: "Registration list"
  Removed :: "Registration list"

definition emptyRegistration :: Registration where
  "emptyRegistration = \<lparr>ServiceName = [], ServiceURL = [], ServiceID = [], PublicIP = [],
     PublicIPv6 = [], Description = [], RequiredServices = [], ServiceUpdateURL = []\<rparr>"

definition emptyPatch :: patch where
  "emptyPatch = \<lparr>Added = [], Removed = []\<rparr>"

text \<open>The addresses the package's \<open>init\<close> computes from the environment variables.\<close>

definition registryPort :: "(string \<Rightarrow> string) \<Rightarrow> string" where
  "registryPort getenv = (if getenv ''Registry_Port'' = [] then ''80'' else getenv ''Registry_Port'')"

definition registryServerURL :: "(string \<Rightarrow> string) \<Rightarrow> string" where
  "registryServerURL getenv = ''http://'' @ getenv ''Registry_IP'' @ '':'' @ registryPort getenv @ ''/services''"

text \<open>Encoding: struct fields without tags keep their names, the patch uses its tags.\<close>

definition encodeRegistration :: "Registration \<Rightarrow> json" where
  "encodeRegistration r = JObj
     [(''ServiceName'', JStr (ServiceName r)), (''ServiceURL'', JStr (ServiceURL r)),
      (''ServiceID'', JStr (ServiceID r)), (''PublicIP'', JStr (PublicIP r)),
      (''PublicIPv6'', JStr (PublicIPv6 r)), (''Description'', JStr (Description r)),
      (''RequiredServices'', encodeStrings (RequiredServices r)),
      (''ServiceUpdateURL'', JStr (ServiceUpdateURL r))]"

definition encodePatch :: "patch \<Rightarrow> json" where
  "encodePatch p = JObj [(''added'', JArr (map encodeRegistration (Added p))),
     (''removed'', JArr (map encodeRegistration (Removed p)))]"

definition registrationFields :: "Registration field list" where
  "registrationFields =
     [(''ServiceName'', onField decodeString ServiceName (\<lambda>v. ServiceName_update (\<lambda>_. v))),
      (''ServiceURL'', onField decodeString ServiceURL (\<lambda>v. ServiceURL_update (\<lambda>_. v))),
      (''ServiceID'', onField decodeString ServiceID (\<lambda>v. ServiceID_update (\<lambda>_. v))),
      (''PublicIP'', onField decodeString PublicIP (\<lambda>v. PublicIP_update (\<lambda>_. v))),
      (''PublicIPv6'', onField decodeString PublicIPv6 (\<lambda>v. PublicIPv6_update (\<lambda>_. v))),
      (''Description'', onField decodeString Description (\<lambda>v. Description_update (\<lambda>_. v))),
      (''RequiredServices'', onField (decodeSlice decodeString []) RequiredServices
         (\<lambda>v. RequiredServices_update (\<lambda>_. v))),
      (''ServiceUpdateURL'', onField decodeString ServiceUpdateURL (\<lambda>v. ServiceUpdateURL_update (\<lambda>_. v)))]"

definition decodeRegistration :: "json \<Rightarrow> Registration \<Rightarrow> Registration option" where
  "decodeRegistration = decodeStruct registrationFields"

definition patchFields :: "patch field list" where
  "patchFields =
     [(''added'', onField (decodeSlice decodeRegistration emptyRegistration) Added (\<lambda>v. Added_update (\<lambda>_. v))),
      (''removed'', onField (decodeSlice decodeRegistration emptyRegistration) Removed (\<lambda>v. Removed_update (\<lambda>_. v)))]"

definition decodePatch :: "json \<Rightarrow> patch option" where
  "decodePatch j = decodeStruct patchFields j emptyPatch"

section \<open>Lemmas\<close>

lemma decode_encodeRegistration [simp]: "decodeRegistration (encodeRegistration r) r0 = Some r"
  by (simp add: decodeRegistration_def encodeRegistration_def registrationFields_def onField_def
      keyMatches_def foldChar_def)

lemma decode_encodePatch [simp]: "decodePatch (encodePatch p) = Some p"
  by (simp add: decodePatch_def encodePatch_def patchFields_def onField_def keyMatches_def foldChar_def
      emptyPatch_def decodeElems_map)

section \<open>Properties\<close>

text \<open>
  A patch the registry encodes is the patch a client decodes: no registration, and no field of
  one, is lost or changed on the wire.
\<close>

theorem patch_roundtrip: "decodePatch (encodePatch p) = Some p"
  by simp

end
