(* ===== verification/Url.thy ===== *)
theory Url
  imports Json
begin

text \<open>
  The parts of \<open>net/url\<close> and \<open>net/http\<close> by which a URL string that one service builds becomes the
  path and the query another service sees: \<open>url.Parse\<close> on an absolute http URL and
  \<open>url.ParseQuery\<close> with \<open>Values.Get\<close>.
\<close>

section \<open>Model\<close>

text \<open>\<open>strings.Cut\<close> at one character, without the flag.\<close>

definition cut :: "char \<Rightarrow> string \<Rightarrow> string \<times> string" where
  "cut c s = (takeWhile (\<lambda>x. x \<noteq> c) s, drop 1 (dropWhile (\<lambda>x. x \<noteq> c) s))"

definition hexVal :: "char \<Rightarrow> nat option" where
  "hexVal c = (let n = of_char c :: nat in
     if 48 \<le> n \<and> n \<le> 57 then Some (n - 48)
     else if 97 \<le> n \<and> n \<le> 102 then Some (n - 87)
     else if 65 \<le> n \<and> n \<le> 70 then Some (n - 55) else None)"

text \<open>\<open>url.QueryUnescape\<close>; \<open>None\<close> for an invalid escape.\<close>

fun queryUnescape :: "string \<Rightarrow> string option" where
  "queryUnescape [] = Some []"
| "queryUnescape (c # cs) =
     (if c = CHR ''%'' then
        (case cs of
           a # b # rest \<Rightarrow>
             (case (hexVal a, hexVal b) of
                (Some x, Some y) \<Rightarrow> map_option (\<lambda>t. char_of (16 * x + y) # t) (queryUnescape rest)
              | _ \<Rightarrow> None)
         | _ \<Rightarrow> None)
      else if c = CHR ''+'' then map_option (\<lambda>t. CHR '' '' # t) (queryUnescape cs)
      else map_option (\<lambda>t. c # t) (queryUnescape cs))"

lemma cut_rest_shorter: "s \<noteq> [] \<Longrightarrow> length (snd (cut c s)) < length s"
proof -
  assume "s \<noteq> []"
  then have "0 < length s" by simp
  moreover have "length (dropWhile (\<lambda>x. x \<noteq> c) s) \<le> length s" by (rule length_dropWhile_le)
  ultimately show ?thesis by (simp add: cut_def, linarith)
qed

text \<open>\<open>url.ParseQuery\<close>: pairs that do not parse are skipped.\<close>

function parseQuery :: "string \<Rightarrow> (string \<times> string) list" where
  "parseQuery query =
     (if query = [] then []
      else
        (let (key, rest) = cut CHR ''&'' query;
             (k, v) = cut CHR ''='' key
         in if CHR '';'' \<in> set key \<or> key = [] then parseQuery rest
            else (case (queryUnescape k, queryUnescape v) of
                    (Some k', Some v') \<Rightarrow> (k', v') # parseQuery rest
                  | _ \<Rightarrow> parseQuery rest)))"
  by pat_completeness auto
termination
  by (relation "measure length") (auto simp: cut_rest_shorter dest!: arg_cong [where f = snd])

declare parseQuery.simps [simp del]

text \<open>\<open>r.URL.Query().Get(k)\<close>: the first value, or the empty string.\<close>

definition queryGet :: "string \<Rightarrow> string \<Rightarrow> string" where
  "queryGet raw k = (case map_of (parseQuery raw) k of None \<Rightarrow> [] | Some v \<Rightarrow> v)"

text \<open>The path and the raw query a server sees for an absolute \<open>http://\<close> URL: the fragment is not
  sent, and an empty path is requested as \<open>/\<close>.\<close>

definition urlTarget :: "string \<Rightarrow> string \<times> string" where
  "urlTarget url =
     (let noFragment = takeWhile (\<lambda>c. c \<noteq> CHR ''#'') (drop (length ''http://'') url);
          (hostPath, query) = cut CHR ''?'' noFragment;
          path = dropWhile (\<lambda>c. c \<noteq> CHR ''/'') hostPath
      in (if path = [] then ''/'' else path, query))"

section \<open>Lemmas\<close>

text \<open>Text that is sent and read unchanged in a query value: no control character, no space and none
  of the characters with a meaning there.\<close>

definition plain :: "string \<Rightarrow> bool" where
  "plain s \<longleftrightarrow> (\<forall>c \<in> set s. 32 < (of_char c :: nat) \<and> (of_char c :: nat) \<noteq> 127 \<and> c \<notin> {CHR ''&'', CHR ''%'', CHR ''+'', CHR '';'', CHR ''#''})"

text \<open>A host name or an IPv4 address, or a port number.\<close>

definition plainHost :: "string \<Rightarrow> bool" where
  "plainHost s \<longleftrightarrow> (\<forall>c \<in> set s. isDigit c \<or> c \<in> {CHR ''.'', CHR ''-''} \<or>
     97 \<le> (of_char c :: nat) \<and> (of_char c :: nat) \<le> 122 \<or> 65 \<le> (of_char c :: nat) \<and> (of_char c :: nat) \<le> 90)"

lemma plainHost_chars:
  "plainHost s \<Longrightarrow> CHR ''#'' \<notin> set s \<and> CHR ''?'' \<notin> set s \<and> CHR ''/'' \<notin> set s"
  by (auto simp: plainHost_def isDigit_def)

lemma plain_append [simp]: "plain (a @ b) \<longleftrightarrow> plain a \<and> plain b"
  by (auto simp: plain_def)

lemma queryUnescape_plain: "plain s \<Longrightarrow> queryUnescape s = Some s"
  by (induction s) (auto simp: plain_def)

lemma cut_at: "c \<notin> set a \<Longrightarrow> cut c (a @ c # b) = (a, b)"
  by (induction a) (auto simp: cut_def)

lemma cut_none: "c \<notin> set a \<Longrightarrow> cut c a = (a, [])"
  by (induction a) (auto simp: cut_def)

lemma parseQuery_pair:
  assumes "k \<noteq> []" "plain k" "CHR ''='' \<notin> set k" "plain v"
  shows "parseQuery (k @ CHR ''='' # v @ CHR ''&'' # rest) = (k, v) # parseQuery rest"
    and "parseQuery (k @ CHR ''='' # v) = [(k, v)]"
proof -
  have "CHR ''&'' \<notin> set (k @ CHR ''='' # v)" "CHR '';'' \<notin> set (k @ CHR ''='' # v)" using assms(2,4) by (auto simp: plain_def)
  note amp = cut_at [OF this(1), of rest] cut_none [OF this(1)] this(2)
  have eq: "cut CHR ''='' (k @ CHR ''='' # v) = (k, v)" by (rule cut_at [OF assms(3)])
  have un: "queryUnescape k = Some k" "queryUnescape v = Some v" using assms(2,4) by (simp_all add: queryUnescape_plain)
  show "parseQuery (k @ CHR ''='' # v @ CHR ''&'' # rest) = (k, v) # parseQuery rest"
    using amp eq un assms(1) by (subst parseQuery.simps) simp
  show "parseQuery (k @ CHR ''='' # v) = [(k, v)]"
    using amp eq un assms(1) by (subst parseQuery.simps) (simp add: parseQuery.simps [of "[]"])
qed

lemma urlTarget_parts:
  assumes "CHR ''#'' \<notin> set rest" "cut CHR ''?'' rest = (hostPath, query)"
    and "dropWhile (\<lambda>c. c \<noteq> CHR ''/'') hostPath = path"
  shows "urlTarget (''http://'' @ rest) = (if path = [] then ''/'' else path, query)"
proof -
  have "takeWhile (\<lambda>c. c \<noteq> CHR ''#'') rest = rest" using assms(1) by (auto simp: takeWhile_eq_all_conv)
  with assms(2,3) show ?thesis by (simp add: urlTarget_def Let_def del: dropWhile_eq_Nil_conv takeWhile_eq_all_conv)
qed

lemma urlTarget_simple:
  assumes "CHR ''#'' \<notin> set (host @ path @ query)" "CHR ''?'' \<notin> set (host @ path)" "CHR ''/'' \<notin> set host"
  shows "urlTarget (''http://'' @ host @ CHR ''/'' # path @ CHR ''?'' # query) = (CHR ''/'' # path, query)"
    and "urlTarget (''http://'' @ host @ CHR ''/'' # path) = (CHR ''/'' # path, [])"
    and "urlTarget (''http://'' @ host) = (''/'', [])"
proof -
  have host: "dropWhile (\<lambda>c. c \<noteq> CHR ''/'') (host @ CHR ''/'' # path) = CHR ''/'' # path" "dropWhile (\<lambda>c. c \<noteq> CHR ''/'') host = []"
    using assms(3) by (induction host) auto
  have cuts: "cut CHR ''?'' (host @ CHR ''/'' # path @ CHR ''?'' # query) = (host @ CHR ''/'' # path, query)"
    "cut CHR ''?'' (host @ CHR ''/'' # path) = (host @ CHR ''/'' # path, [])" "cut CHR ''?'' host = (host, [])"
    using assms(2) cut_at [of "CHR ''?''" "host @ CHR ''/'' # path" query] by (auto intro!: cut_none)
  show "urlTarget (''http://'' @ host @ CHR ''/'' # path @ CHR ''?'' # query) = (CHR ''/'' # path, query)"
    using urlTarget_parts [OF _ cuts(1) host(1)] assms(1) by simp
  show "urlTarget (''http://'' @ host @ CHR ''/'' # path) = (CHR ''/'' # path, [])"
    using urlTarget_parts [OF _ cuts(2) host(1)] assms(1) by simp
  show "urlTarget (''http://'' @ host) = (''/'', [])"
    using urlTarget_parts [OF _ cuts(3) host(2)] assms(1) by simp
qed

end
