(* ===== verification/Heartbeat.thy ===== *)
theory Heartbeat
  imports Url
begin

text \<open>
  Model of src/registry/heartbeat: the server that records when each service was last heard of
  (server.go) and the client that reports (client.go, heartbeat.go). The Go interface
  \<open>ServiceValidator\<close> is the locale \<open>service_validator\<close>; the registry provides it.
\<close>

section \<open>Model\<close>

text \<open>The only implementation of the interface \<open>HeartBeatHandler\<close>.\<close>

datatype heartbeat_handler = BasicHeartbeatHandler

record HeartBeatServer =
  HeartBeatTypeMap :: "string \<rightharpoonup> heartbeat_handler"
  LastHeartBeat :: "string \<rightharpoonup> time"

definition NewHeartBeatServer :: HeartBeatServer where
  "NewHeartBeatServer =
     \<lparr>HeartBeatTypeMap = [''/heartbeat/basic'' \<mapsto> BasicHeartbeatHandler], LastHeartBeat = Map.empty\<rparr>"

text \<open>\<open>validator\<close> is the server's field \<open>Validator\<close>, \<open>None\<close> for nil.\<close>

definition HandleCommonLogic ::
  "(string \<Rightarrow> bool) option \<Rightarrow> time \<Rightarrow> request \<Rightarrow> HeartBeatServer \<Rightarrow> string writer \<Rightarrow>
   HeartBeatServer \<times> string writer" where
  "HandleCommonLogic validator now r h w =
     (case rBody r of
        None \<Rightarrow> (h, httpError ''Invalid ServiceID'' StatusBadRequest w)
      | Some serviceID \<Rightarrow>
          if serviceID = [] then (h, httpError ''Invalid ServiceID'' StatusBadRequest w)
          else
            (case validator of
               None \<Rightarrow>
                 (h, httpError ''No validator set for the heartbeat server'' StatusInternalServerError w)
             | Some isRegistered \<Rightarrow>
                 if \<not> isRegistered serviceID
                 then (h, httpError ''Service not authorized'' StatusUnauthorized w)
                 else (h\<lparr>LastHeartBeat := (LastHeartBeat h)(serviceID \<mapsto> now)\<rparr>, writeHeader StatusOK w)))"

fun HandleHeartbeat ::
  "heartbeat_handler \<Rightarrow> (string \<Rightarrow> bool) option \<Rightarrow> time \<Rightarrow> request \<Rightarrow> HeartBeatServer \<Rightarrow> string writer \<Rightarrow>
   HeartBeatServer \<times> string writer" where
  "HandleHeartbeat BasicHeartbeatHandler validator now r h w = HandleCommonLogic validator now r h w"

definition heartbeatServeHTTP ::
  "(string \<Rightarrow> bool) option \<Rightarrow> time \<Rightarrow> request \<Rightarrow> HeartBeatServer \<Rightarrow> string writer \<Rightarrow>
   HeartBeatServer \<times> string writer" where
  "heartbeatServeHTTP validator now r h w =
     (case HeartBeatTypeMap h (rPath r) of
        None \<Rightarrow> (h, writeHeader StatusNotFound w)
      | Some handler \<Rightarrow> HandleHeartbeat handler validator now r h w)"

text \<open>The client: the outcome of the POST is \<open>None\<close> for a transport error, else the status.\<close>

record BasicHeartbeat =
  hbServiceID :: string
  hbURL :: string

definition NewBasicHeartbeat :: "string \<Rightarrow> BasicHeartbeat" where
  "NewBasicHeartbeat url = \<lparr>hbServiceID = [], hbURL = url\<rparr>"

datatype heartbeat_error = HbTransport | NotAuthorized | HbFailed status

definition heartbeatRequest :: "BasicHeartbeat \<Rightarrow> request" where
  "heartbeatRequest b = \<lparr>rMethod = POST, rPath = fst (urlTarget (hbURL b @ ''basic'')),
     rQuery = queryGet (snd (urlTarget (hbURL b @ ''basic''))),
     rHeader = (\<lambda>k. if k = ''Content-Type'' then ''application/json'' else []),
     rRemoteAddr = [], rBody = Some (hbServiceID b), rJson = None\<rparr>"

definition SendHeartbeat :: "status option \<Rightarrow> heartbeat_error option" where
  "SendHeartbeat response =
     (case response of
        None \<Rightarrow> Some HbTransport
      | Some code \<Rightarrow>
          if code \<noteq> StatusOK
          then (if code = StatusUnauthorized then Some NotAuthorized else Some (HbFailed code))
          else None)"

text \<open>\<open>Heartbeat.Send\<close>: the strategy's error becomes a log line.\<close>

definition Send :: "(unit \<Rightarrow> heartbeat_error option) \<Rightarrow> heartbeat_error list" where
  "Send strategy = (case strategy () of None \<Rightarrow> [] | Some err \<Rightarrow> [err])"

section \<open>The validator interface\<close>

text \<open>What the heartbeat server relies on: a test whether an id is one of the ids the provider
  currently knows.\<close>

locale service_validator =
  fixes isRegistered :: "'s \<Rightarrow> string \<Rightarrow> bool"
    and ids :: "'s \<Rightarrow> string set"
  assumes isRegistered_iff: "isRegistered s i \<longleftrightarrow> i \<in> ids s"
begin

lemma heartbeat_accepted:
  assumes "i \<in> ids s" "i \<noteq> []" "rBody r = Some i"
  shows "HandleCommonLogic (Some (isRegistered s)) now r h w =
    (h\<lparr>LastHeartBeat := (LastHeartBeat h)(i \<mapsto> now)\<rparr>, writeHeader StatusOK w)"
  using assms by (simp add: HandleCommonLogic_def isRegistered_iff)

lemma heartbeat_changes_registered:
  assumes "HandleCommonLogic (Some (isRegistered s)) now r h w = (h', w')" "h' \<noteq> h"
  shows "\<exists>i \<in> ids s. i \<noteq> [] \<and> rBody r = Some i \<and> h' = h\<lparr>LastHeartBeat := (LastHeartBeat h)(i \<mapsto> now)\<rparr>"
  using assms by (auto simp: HandleCommonLogic_def isRegistered_iff split: option.splits if_splits)

lemma heartbeat_unknown:
  assumes "i \<notin> ids s" "i \<noteq> []" "rBody r = Some i" "wStatus w = None"
  shows "fst (HandleCommonLogic (Some (isRegistered s)) now r h w) = h \<and>
    SendHeartbeat (Some (finalStatus (snd (HandleCommonLogic (Some (isRegistered s)) now r h w)))) = Some NotAuthorized"
  using assms by (simp add: HandleCommonLogic_def isRegistered_iff http_simps SendHeartbeat_def)

end

text \<open>
  A heartbeat made by \<open>NewBasicHeartbeat\<close> has no service id: whatever the validator says, the server
  answers 400 and \<open>Send\<close> logs the failure.
\<close>

theorem NewBasicHeartbeat_refused:
  "\<exists>w. HandleCommonLogic v now (heartbeatRequest (NewBasicHeartbeat url)) h newWriter = (h, w) \<and>
     Send (\<lambda>_. SendHeartbeat (Some (finalStatus w))) = [HbFailed StatusBadRequest]"
  by (simp add: HandleCommonLogic_def heartbeatRequest_def NewBasicHeartbeat_def Send_def SendHeartbeat_def http_simps)

section \<open>Lemmas\<close>

lemma heartbeatServeHTTP_frame:
  "HeartBeatTypeMap (fst (heartbeatServeHTTP v now r h w)) = HeartBeatTypeMap h"
proof -
  have "HeartBeatTypeMap (fst (HandleHeartbeat x v now r h w)) = HeartBeatTypeMap h" for x
    by (cases x) (auto simp: HandleCommonLogic_def split: option.splits if_splits)
  then show ?thesis by (auto simp: heartbeatServeHTTP_def split: option.splits)
qed

end
