(* ===== verification/Node_Service.thy ===== *)
theory Node_Service
  imports Node_Proxy Registration Heartbeat "HOL-Library.Word"
begin

text \<open>
  Model of src/node/server.go and of the requests src/node/xray_api.go makes: the HTTP interface of
  a node, by which the web server opens and closes a user's proxy, and the periodic traffic report.

  The xray core is a parameter: its state has the type variable \<open>'x\<close> and \<open>alterInbound\<close> is the only
  call that changes it. The random ports that \<open>rand.Intn\<close> draws and the ports that can be listened
  on are arguments. Each handler is one atomic step; the goroutine of a proxy and the counting
  goroutines take steps of their own, the latter also between the reads of a traffic report. A context
  of a proxy is an index into \<open>proxies\<close>; cancelling it sets \<open>pxCancelled\<close>.
\<close>

section \<open>The xray interface\<close>

record UserInfo =
  uiUuid :: string
  Level :: "32 word"
  InTag :: string
  uiEmail :: string
  CipherType :: string
  Password :: string

record BaseConfig =
  APIAddress :: string
  APIPort :: "16 word"

definition cfg :: BaseConfig where
  "cfg = \<lparr>APIAddress = ''127.0.0.1'', APIPort = 8080\<rparr>"

text \<open>\<open>newClient\<close> is \<open>grpc.NewClient\<close> for a target; \<open>False\<close> is an error, after which the clients stay nil.\<close>

definition xrayInit :: "(string \<Rightarrow> bool) \<Rightarrow> BaseConfig \<Rightarrow> bool" where
  "xrayInit newClient c = newClient (APIAddress c @ '':'' @ itoa (uint (APIPort c)))"

text \<open>\<open>queryStats\<close> gives the values of the statistics that match a pattern; \<open>None\<close> is an error.\<close>

definition queryTraffic :: "(string \<Rightarrow> bool \<Rightarrow> int list option) \<Rightarrow> string \<Rightarrow> bool \<Rightarrow> int \<times> bool" where
  "queryTraffic queryStats ptn reset =
     (case queryStats ptn reset of
        None \<Rightarrow> (-1, False)
      | Some stat \<Rightarrow> (if length stat \<noteq> 0 then stat ! 0 else -1, True))"

record vless_account =
  vaId :: string
  vaFlow :: string
  vaEncryption :: string

datatype inbound_operation =
    AddUserOperation "32 word" string vless_account
  | RemoveUserOperation string

record AlterInboundRequest =
  Tag :: string
  Operation :: inbound_operation

type_synonym 'x alter = "AlterInboundRequest \<Rightarrow> 'x \<Rightarrow> 'x \<times> bool"

definition addVlessUser :: "'x alter \<Rightarrow> UserInfo \<Rightarrow> 'x \<Rightarrow> 'x \<times> bool" where
  "addVlessUser alterInbound user x =
     alterInbound \<lparr>Tag = InTag user, Operation = AddUserOperation (Level user) (uiEmail user)
       \<lparr>vaId = uiUuid user, vaFlow = ''xtls-rprx-vision'', vaEncryption = ''none''\<rparr>\<rparr> x"

definition removeVlessUser :: "'x alter \<Rightarrow> UserInfo \<Rightarrow> 'x \<Rightarrow> 'x \<times> bool" where
  "removeVlessUser alterInbound user x =
     alterInbound \<lparr>Tag = InTag user, Operation = RemoveUserOperation (uiEmail user)\<rparr> x"

section \<open>State\<close>

record proxy =
  pxPort :: int
  pxSourceIP :: string
  pxRate :: int
  pxBurst :: int
  pxCancelled :: bool
  pxPhase :: proxy_phase

text \<open>A proxy that was not cancelled and holds the listener of its port, and one that also serves.\<close>

definition listenerOpen :: "proxy \<Rightarrow> bool" where
  "listenerOpen p \<longleftrightarrow> \<not> pxCancelled p \<and> (pxPhase p = Serving \<or> pxPhase p = AcceptFailed)"

definition running :: "proxy \<Rightarrow> bool" where
  "running p \<longleftrightarrow> \<not> pxCancelled p \<and> pxPhase p = Serving"

record 'x node_state =
  connections :: "string \<rightharpoonup> int"
  proxyServices :: "string \<rightharpoonup> nat"
  proxies :: "proxy list"
  nStats :: stats_world
  statsCache :: "int \<rightharpoonup> ConnStats"
  xray :: 'x

definition initNode :: "'x \<Rightarrow> 'x node_state" where
  "initNode x = \<lparr>connections = Map.empty, proxyServices = Map.empty, proxies = [],
     nStats = \<lparr>statsHeap = [], statsStore = Map.empty\<rparr>, statsCache = Map.empty, xray = x\<rparr>"

section \<open>Handlers\<close>

text \<open>What a connect request finds outside the handler: the providers of the web service
  (\<open>None\<close>: \<open>GetProviders\<close> fails), whether the gRPC client can be made, the xray core, the values of
  \<open>rand.Intn(50000)\<close> and the ports \<open>net.Listen\<close> can open.\<close>

record 'x connect_env =
  ceProviders :: "Registration list option"
  ceDial :: "string \<Rightarrow> bool"
  ceAlter :: "'x alter"
  ceDraws :: "nat list"
  ceFree :: "int \<Rightarrow> bool"

text \<open>The loop that looks for a free port; \<open>None\<close> while it has found none.\<close>

fun pickPort :: "(int \<Rightarrow> bool) \<Rightarrow> nat list \<Rightarrow> int option" where
  "pickPort free [] = None"
| "pickPort free (d # ds) = (let port = 10000 + int d in if free port then Some port else pickPort free ds)"

definition parseLimit :: "string \<Rightarrow> int \<Rightarrow> int" where
  "parseLimit s fallback =
     (if s \<noteq> [] then (case parseInt s of (n, err) \<Rightarrow> if err \<noteq> None then fallback else n) else fallback)"

definition portResponse :: "int \<Rightarrow> json writer \<Rightarrow> json writer" where
  "portResponse port w = writeBody (JObj [(''port'', JStr (itoa port))]) w"

text \<open>The part of \<open>handleConnect\<close> after the checks: \<open>None\<close> while it looks for a port. The goroutine of the
  proxy has not run when the handler returns; its error is ignored.\<close>

definition openProxy ::
  "'x connect_env \<Rightarrow> request \<Rightarrow> 'x node_state \<Rightarrow> json writer \<Rightarrow> ('x node_state, json writer) run option" where
  "openProxy e r s w =
     (let uuid = rQuery r ''uuid'';
          userInfo = \<lparr>uiUuid = uuid, Level = 0, InTag = ''test'', uiEmail = rQuery r ''email'',
                      CipherType = [], Password = []\<rparr>;
          (x1, ok1) = addVlessUser (ceAlter e) userInfo (xray s);
          (x2, ok2) = (if ok1 then (x1, True)
                       else addVlessUser (ceAlter e) userInfo (fst (removeVlessUser (ceAlter e) userInfo x1)))
      in if \<not> ok2 then Some (Ret (s\<lparr>xray := x2\<rparr>) (writeHeader StatusInternalServerError w))
         else
           (case pickPort (ceFree e) (ceDraws e) of
              None \<Rightarrow> None
            | Some port \<Rightarrow>
                (let p = \<lparr>pxPort = port, pxSourceIP = rQuery r ''clientip'',
                          pxRate = parseLimit (rQuery r ''rate'') (Rate defaultlimit),
                          pxBurst = parseLimit (rQuery r ''burst'') (Burst defaultlimit), pxCancelled = False, pxPhase = Starting\<rparr>
                 in Some (Ret
                   (s\<lparr>xray := x2, proxies := proxies s @ [p],
                      connections := (connections s)(uuid \<mapsto> port),
                      proxyServices := (proxyServices s)(uuid \<mapsto> length (proxies s))\<rparr>)
                   (portResponse port w)))))"

text \<open>When the gRPC client cannot be made the handler goes on with nil clients and panics.\<close>

definition handleConnect ::
  "'x connect_env \<Rightarrow> request \<Rightarrow> 'x node_state \<Rightarrow> json writer \<Rightarrow> ('x node_state, json writer) run option" where
  "handleConnect e r s w =
     (case ceProviders e of
        None \<Rightarrow> Some (Ret s (writeHeader StatusInternalServerError w))
      | Some providers \<Rightarrow>
          (case splitHostPort (rRemoteAddr r) of
             None \<Rightarrow> Some (Ret s (writeHeader StatusInternalServerError w))
           | Some (srcIP, p) \<Rightarrow>
               if \<not> (\<exists>prov \<in> set providers. PublicIP prov = srcIP)
               then Some (Ret s (writeHeader StatusUnauthorized w))
               else if rQuery r ''uuid'' = [] \<or> rQuery r ''email'' = [] \<or> rQuery r ''clientip'' = []
               then Some (Ret s (writeHeader StatusBadRequest w))
               else
                 (case connections s (rQuery r ''uuid'') of
                    Some port \<Rightarrow> Some (Ret s (portResponse port w))
                  | None \<Rightarrow> if \<not> xrayInit (ceDial e) cfg then Some (Panic s) else openProxy e r s w)))"

fun disconnectLoop :: "string list \<Rightarrow> 'x node_state \<Rightarrow> 'x node_state" where
  "disconnectLoop [] s = s"
| "disconnectLoop (uuid # uuids) s =
     (let port = (case connections s uuid of None \<Rightarrow> 0 | Some p \<Rightarrow> p);
          s1 = s\<lparr>nStats := (nStats s)\<lparr>statsStore := (statsStore (nStats s))(port := None)\<rparr>,
                 connections := (connections s)(uuid := None)\<rparr>;
          s2 = (case proxyServices s1 uuid of
                  None \<Rightarrow> s1
                | Some i \<Rightarrow> s1\<lparr>proxies := (proxies s1)[i := (proxies s1 ! i)\<lparr>pxCancelled := True\<rparr>],
                              proxyServices := (proxyServices s1)(uuid := None)\<rparr>)
      in disconnectLoop uuids s2)"

definition handleDisconnect :: "request \<Rightarrow> 'x node_state \<Rightarrow> json writer \<Rightarrow> 'x node_state \<times> json writer" where
  "handleDisconnect r s w =
     (if rBody r = None then (s, writeHeader StatusInternalServerError w)
      else
        (case (case rJson r of None \<Rightarrow> None | Some j \<Rightarrow> decodeSlice decodeString [] j []) of
           None \<Rightarrow> (s, writeHeader StatusBadRequest w)
         | Some uuids \<Rightarrow>
             if length uuids = 0 then (s, writeHeader StatusBadRequest w)
             else (disconnectLoop uuids s, writeHeader StatusOK w)))"

text \<open>What gopsutil reports: the CPU percentages and the memory figures, as JSON numbers.\<close>

record host_info =
  cpuPercent :: "json list option"
  memInfo :: "(json \<times> json \<times> json) option"

definition handleInfo :: "host_info \<Rightarrow> request \<Rightarrow> json writer \<Rightarrow> (unit, json writer) run" where
  "handleInfo h r w =
     (if rBody r = None \<or> rBody r = Some [] then Ret () (writeHeader StatusBadRequest w)
      else
        (case cpuPercent h of
           None \<Rightarrow> Ret () (writeHeader StatusInternalServerError w)
         | Some cpu \<Rightarrow>
             (case memInfo h of
                None \<Rightarrow> Ret () (writeHeader StatusInternalServerError w)
              | Some (memTotal, used, percent) \<Rightarrow>
                  if cpu = [] then Panic ()
                  else Ret () (writeBody (JObj [(''cpu_usage'', cpu ! 0), (''memory_total'', memTotal),
                         (''memory_used'', used), (''memory_used_percent'', percent)]) w))))"

definition nodeServeHTTP ::
  "'x connect_env \<Rightarrow> host_info \<Rightarrow> request \<Rightarrow> 'x node_state \<Rightarrow> json writer \<Rightarrow> ('x node_state, json writer) run option" where
  "nodeServeHTTP e h r s w =
     (case rMethod r of
        GET \<Rightarrow>
          if rPath r = ''/info'' then
            Some (case handleInfo h r w of Panic _ \<Rightarrow> Panic s | Ret _ w1 \<Rightarrow> Ret s w1)
          else if rPath r = ''/connect'' then handleConnect e r s w
          else Some (Ret s (writeHeader StatusNotFound w))
      | POST \<Rightarrow>
          if rPath r = ''/disconnect'' then (case handleDisconnect r s w of (s1, w1) \<Rightarrow> Some (Ret s1 w1))
          else Some (Ret s w)
      | _ \<Rightarrow> Some (Ret s (writeHeader StatusMethodNotAllowed w)))"

text \<open>The routes of \<open>RegisterHandlers\<close>; the multiplexer answers 404 on any other path.\<close>

definition nodeRoutes :: "string list" where
  "nodeRoutes = [''/info'', ''/limit'', ''/connect'', ''/disconnect'']"

definition nodeMux ::
  "'x connect_env \<Rightarrow> host_info \<Rightarrow> request \<Rightarrow> 'x node_state \<Rightarrow> json writer \<Rightarrow> ('x node_state, json writer) run option" where
  "nodeMux e h r s w =
     (if rPath r \<in> set nodeRoutes then nodeServeHTTP e h r s w
      else Some (Ret s (writeHeader StatusNotFound w)))"

section \<open>The goroutine of a proxy\<close>

text \<open>\<open>NewProxy\<close> as \<open>handleConnect\<close> starts it: the call of \<open>net.Listen\<close>, which succeeds or not, and then any
  stretch of its accept loop.\<close>

definition startProxy :: "nat \<Rightarrow> bool \<Rightarrow> 'x node_state \<Rightarrow> 'x node_state" where
  "startProxy i listening s =
     (case NewProxy listening (pxSourceIP (proxies s ! i)) [] (nStats s) of
        (w, links, phase) \<Rightarrow> s\<lparr>nStats := w, proxies := (proxies s)[i := (proxies s ! i)\<lparr>pxPhase := phase\<rparr>]\<rparr>)"

definition serveProxy :: "nat \<Rightarrow> accept_event list \<Rightarrow> 'x node_state \<Rightarrow> 'x node_state" where
  "serveProxy i evs s =
     (case acceptLoop (pxSourceIP (proxies s ! i)) evs (nStats s) of
        (w, links, phase) \<Rightarrow> s\<lparr>nStats := w, proxies := (proxies s)[i := (proxies s ! i)\<lparr>pxPhase := phase\<rparr>]\<rparr>)"

section \<open>The traffic report\<close>

definition totalBytes :: "ConnStats \<Rightarrow> int" where
  "totalBytes c = wrap64 (Downloaded c + Uploaded c)"

text \<open>The turn of one user in the range over the snapshot, with what the other goroutines do to the
  counters before the entry is loaded, between the reads of \<open>Downloaded\<close> and \<open>Uploaded\<close> for the difference,
  between the difference and the copy, and between the reads of the two fields for the copy.\<close>

record report_turn =
  rtUser :: string
  rtBefore :: "stats_event list"
  rtSum :: "stats_event list"
  rtGap :: "stats_event list"
  rtCopy :: "stats_event list"

text \<open>One round over the snapshot of the connections, in the order of the range: the report, the new cache
  and the counters.\<close>

fun reportLoop ::
  "(string \<rightharpoonup> int) \<Rightarrow> report_turn list \<Rightarrow> stats_world \<Rightarrow> (int \<rightharpoonup> ConnStats) \<Rightarrow>
   (string \<times> int) list \<times> (int \<rightharpoonup> ConnStats) \<times> stats_world" where
  "reportLoop snapshot [] w cache = ([], cache, w)"
| "reportLoop snapshot (t # ts) w cache =
     (let w0 = runEvents (rtBefore t) w; w1 = runEvents (rtSum t) w0;
          w2 = runEvents (rtGap t) w1; w3 = runEvents (rtCopy t) w2
      in case snapshot (rtUser t) of
           None \<Rightarrow> reportLoop snapshot ts w3 cache
         | Some port \<Rightarrow>
             (case statsStore w0 port of
                None \<Rightarrow> reportLoop snapshot ts w3 cache
              | Some a \<Rightarrow>
                  (let oldStats = (case cache port of None \<Rightarrow> zeroStats | Some c \<Rightarrow> c);
                       diff = wrap64 (wrap64 (Downloaded (statsHeap w0 ! a) + Uploaded (statsHeap w1 ! a)) - totalBytes oldStats);
                       statsCopy = \<lparr>Uploaded = Uploaded (statsHeap w2 ! a), Downloaded = Downloaded (statsHeap w3 ! a)\<rparr>;
                       (report, cache', w') = reportLoop snapshot ts w3 (cache(port \<mapsto> statsCopy))
                   in ((rtUser t, diff) # report, cache', w'))))"

definition encodeReport :: "(string \<times> int) list \<Rightarrow> json" where
  "encodeReport report = JArr (map (\<lambda>(uuid, diff). JObj [(''traffic'', JInt diff), (''uuid'', JStr uuid)]) report)"

text \<open>The round: the new state, the report and the request that is sent, if any.\<close>

definition trafficRound ::
  "Registration list option \<Rightarrow> string \<Rightarrow> report_turn list \<Rightarrow> 'x node_state \<Rightarrow>
   'x node_state \<times> (string \<times> int) list \<times> (string \<times> json) option" where
  "trafficRound providers ginPort turns s =
     (let (report, cache, w) = reportLoop (connections s) turns (nStats s) (statsCache s)
      in (s\<lparr>statsCache := cache, nStats := w\<rparr>, report,
          if report = [] then None
          else
            (case providers of
               None \<Rightarrow> None
             | Some [] \<Rightarrow> None
             | Some (provider # _) \<Rightarrow>
                 Some (''http://'' @ PublicIP provider @ '':'' @ ginPort @ ''/traffic'', encodeReport report))))"

section \<open>Steps and invariant\<close>

text \<open>
  \<open>drawsOk\<close> is the range of \<open>rand.Intn(50000)\<close>. The operating system does not let \<open>net.Listen\<close> succeed on a
  port whose listener is open (\<open>portTaken\<close>); it may let it fail on any other. The context is done when an
  accept fails exactly if the proxy was cancelled.
\<close>

definition drawsOk :: "'x connect_env \<Rightarrow> bool" where
  "drawsOk e \<longleftrightarrow> (\<forall>d \<in> set (ceDraws e). d < 50000)"

definition portTaken :: "'x node_state \<Rightarrow> int \<Rightarrow> bool" where
  "portTaken s port \<longleftrightarrow> (\<exists>p \<in> set (proxies s). listenerOpen p \<and> pxPort p = port)"

inductive node_step :: "'x node_state \<Rightarrow> 'x node_state \<Rightarrow> bool" where
  http: "drawsOk e \<Longrightarrow> nodeMux e h r s newWriter = Some res \<Longrightarrow> node_step s (runState res)"
| listen: "i < length (proxies s) \<Longrightarrow> pxPhase (proxies s ! i) = Starting \<Longrightarrow>
    (listening \<longrightarrow> \<not> portTaken s (pxPort (proxies s ! i))) \<Longrightarrow> node_step s (startProxy i listening s)"
| accept: "i < length (proxies s) \<Longrightarrow> pxPhase (proxies s ! i) = Serving \<Longrightarrow>
    (\<forall>d. AcceptError d \<in> set evs \<longrightarrow> d = pxCancelled (proxies s ! i)) \<Longrightarrow> node_step s (serveProxy i evs s)"
| count: "node_step s (s\<lparr>nStats := countBytes a up n (nStats s)\<rparr>)"
| report: "node_step s (fst (trafficRound providers ginPort turns s))"

inductive node_reach :: "'x node_state \<Rightarrow> bool" where
  init: "node_reach (initNode x)"
| step: "node_reach s \<Longrightarrow> node_step s s' \<Longrightarrow> node_reach s'"

text \<open>No two proxies hold the listener of one port.\<close>

definition listenersApart :: "proxy list \<Rightarrow> bool" where
  "listenersApart ps \<longleftrightarrow> (\<forall>i < length ps. \<forall>j < length ps. listenerOpen (ps ! i) \<longrightarrow> listenerOpen (ps ! j) \<longrightarrow>
     pxPort (ps ! i) = pxPort (ps ! j) \<longrightarrow> i = j)"

definition node_inv :: "'x node_state \<Rightarrow> bool" where
  "node_inv s \<longleftrightarrow> dom (connections s) = dom (proxyServices s) \<and>
     (\<forall>u i. proxyServices s u = Some i \<longrightarrow> i < length (proxies s) \<and> \<not> pxCancelled (proxies s ! i) \<and>
        connections s u = Some (pxPort (proxies s ! i))) \<and>
     (\<forall>u v i. proxyServices s u = Some i \<longrightarrow> proxyServices s v = Some i \<longrightarrow> u = v) \<and>
     (\<forall>i < length (proxies s). \<not> pxCancelled (proxies s ! i) \<longrightarrow> (\<exists>u. proxyServices s u = Some i)) \<and>
     listenersApart (proxies s) \<and>
     (\<forall>p \<in> set (proxies s). 10000 \<le> pxPort p \<and> pxPort p < 60000)"

lemma xrayInit_const [simp]: "xrayInit (\<lambda>_. b) c = b"
  by (simp add: xrayInit_def)

lemma node_invD:
  assumes "node_inv s"
  shows "dom (connections s) = dom (proxyServices s)"
    "proxyServices s u = Some i \<Longrightarrow> i < length (proxies s)"
    "proxyServices s u = Some i \<Longrightarrow> \<not> pxCancelled (proxies s ! i)"
    "proxyServices s u = Some i \<Longrightarrow> connections s u = Some (pxPort (proxies s ! i))"
    "proxyServices s u = Some i \<Longrightarrow> proxyServices s v = Some i \<Longrightarrow> u = v"
    "i < length (proxies s) \<Longrightarrow> \<not> pxCancelled (proxies s ! i) \<Longrightarrow> \<exists>u. proxyServices s u = Some i"
    "listenersApart (proxies s)"
    "p \<in> set (proxies s) \<Longrightarrow> 10000 \<le> pxPort p \<and> pxPort p < 60000"
  using assms unfolding node_inv_def by blast+

section \<open>Lemmas: listeners\<close>

lemma listenersApartD:
  "listenersApart ps \<Longrightarrow> i < length ps \<Longrightarrow> j < length ps \<Longrightarrow> listenerOpen (ps ! i) \<Longrightarrow> listenerOpen (ps ! j) \<Longrightarrow>
   pxPort (ps ! i) = pxPort (ps ! j) \<Longrightarrow> i = j"
  by (simp add: listenersApart_def)

lemma apart_append: "listenersApart ps \<Longrightarrow> \<not> listenerOpen p \<Longrightarrow> listenersApart (ps @ [p])"
  by (auto simp: listenersApart_def nth_append less_Suc_eq)

text \<open>A proxy may change when it gains a listener only on a port that has none.\<close>

lemma apart_update:
  assumes "listenersApart ps" "i < length ps" "pxPort q = pxPort (ps ! i)"
    and "listenerOpen q \<Longrightarrow> listenerOpen (ps ! i) \<or> (\<forall>p \<in> set ps. listenerOpen p \<longrightarrow> pxPort p \<noteq> pxPort q)"
  shows "listenersApart (ps[i := q])"
proof -
  have other: "j = i" if "listenerOpen q" "j < length ps" "listenerOpen (ps ! j)" "pxPort (ps ! j) = pxPort q" for j
    using assms(4) [OF that(1)]
  proof
    assume "listenerOpen (ps ! i)"
    with that(2-4) assms(3) show "j = i" using listenersApartD [OF assms(1) that(2) assms(2)] by simp
  qed (use that nth_mem in blast)
  show ?thesis unfolding listenersApart_def
  proof (intro allI impI)
    fix j k assume jk: "j < length (ps[i := q])" "k < length (ps[i := q])" "listenerOpen (ps[i := q] ! j)"
      "listenerOpen (ps[i := q] ! k)" "pxPort (ps[i := q] ! j) = pxPort (ps[i := q] ! k)"
    consider "j = i" "k = i" | "j = i" "k \<noteq> i" | "j \<noteq> i" "k = i" | "j \<noteq> i" "k \<noteq> i" by blast
    then show "j = k"
    proof cases
      case 2
      then show ?thesis using other [of k] jk assms(2) by simp
    next
      case 3
      then show ?thesis using other [of j] jk assms(2) by simp
    next
      case 4
      with jk show ?thesis by (intro listenersApartD [OF assms(1)]) simp_all
    qed simp
  qed
qed

lemma listenerOpen_cancelled [simp]: "\<not> listenerOpen (p\<lparr>pxCancelled := True\<rparr>)"
  by (simp add: listenerOpen_def)

text \<open>What a proxy's own steps leave alone.\<close>

definition proxyKey :: "proxy \<Rightarrow> bool \<times> int" where
  "proxyKey p = (pxCancelled p, pxPort p)"

lemma same_keys:
  assumes "map proxyKey ps = map proxyKey qs"
  shows "length ps = length qs" "i < length qs \<Longrightarrow> pxCancelled (ps ! i) = pxCancelled (qs ! i)"
    "i < length qs \<Longrightarrow> pxPort (ps ! i) = pxPort (qs ! i)"
proof -
  show len: "length ps = length qs" using assms by (rule map_eq_imp_length_eq)
  have "proxyKey (ps ! i) = proxyKey (qs ! i)" if "i < length qs" using assms len that by (metis nth_map)
  then show "i < length qs \<Longrightarrow> pxCancelled (ps ! i) = pxCancelled (qs ! i)"
    "i < length qs \<Longrightarrow> pxPort (ps ! i) = pxPort (qs ! i)" by (simp_all add: proxyKey_def)
qed

lemma phase_keys: "i < length ps \<Longrightarrow> map proxyKey (ps[i := (ps ! i)\<lparr>pxPhase := ph\<rparr>]) = map proxyKey ps"
  by (simp add: map_update list_update_same_conv) (simp add: proxyKey_def)

lemma startProxy_simps [simp]:
  "proxies (startProxy i l s) = (proxies s)[i := (proxies s ! i)\<lparr>pxPhase := if l then Serving else ListenFailed\<rparr>]"
  "nStats (startProxy i l s) = nStats s"
  "connections (startProxy i l s) = connections s" "proxyServices (startProxy i l s) = proxyServices s"
  by (simp_all add: startProxy_def NewProxy_def)

lemma serveProxy_simps [simp]:
  "proxies (serveProxy i evs s) =
     (proxies s)[i := (proxies s ! i)\<lparr>pxPhase := snd (snd (acceptLoop (pxSourceIP (proxies s ! i)) evs (nStats s)))\<rparr>]"
  "connections (serveProxy i evs s) = connections s" "proxyServices (serveProxy i evs s) = proxyServices s"
  by (simp_all add: serveProxy_def case_prod_beta)

lemma startProxy_apart:
  assumes "listenersApart (proxies s)" "i < length (proxies s)" "l \<longrightarrow> \<not> portTaken s (pxPort (proxies s ! i))"
  shows "listenersApart (proxies (startProxy i l s))"
  unfolding startProxy_simps using assms(3)
  by (intro apart_update [OF assms(1,2)]) (auto simp: listenerOpen_def portTaken_def)

lemma serveProxy_apart:
  assumes "listenersApart (proxies s)" "i < length (proxies s)" "pxPhase (proxies s ! i) = Serving"
  shows "listenersApart (proxies (serveProxy i evs s))"
  unfolding serveProxy_simps using assms(3)
  by (intro apart_update [OF assms(1,2)]) (auto simp: listenerOpen_def)

text \<open>The listen step and the accept steps together are \<open>NewProxy\<close>.\<close>

lemma proxy_steps_NewProxy:
  assumes "i < length (proxies s)"
  shows "(if listening then serveProxy i evs (startProxy i True s) else startProxy i False s) =
    (case NewProxy listening (pxSourceIP (proxies s ! i)) evs (nStats s) of
       (w, links, phase) \<Rightarrow> s\<lparr>nStats := w, proxies := (proxies s)[i := (proxies s ! i)\<lparr>pxPhase := phase\<rparr>]\<rparr>)"
  using assms by (simp add: serveProxy_def startProxy_def NewProxy_def case_prod_beta)

section \<open>Lemmas\<close>

lemma pickPort_free: "pickPort free ds = Some port \<Longrightarrow> free port \<and> (\<exists>d \<in> set ds. port = 10000 + int d)"
  by (induction ds) (auto simp: Let_def split: if_splits)

text \<open>The outcome of the part after the checks.\<close>

lemma openProxy_cases:
  assumes "openProxy e r s w = Some res"
  obtains (failed) x where "res = Ret (s\<lparr>xray := x\<rparr>) (writeHeader StatusInternalServerError w)"
  | (opened) x port p where "pickPort (ceFree e) (ceDraws e) = Some port" "pxPort p = port" "\<not> pxCancelled p" "pxPhase p = Starting"
      "pxSourceIP p = rQuery r ''clientip''" "pxRate p = parseLimit (rQuery r ''rate'') (Rate defaultlimit)"
      "pxBurst p = parseLimit (rQuery r ''burst'') (Burst defaultlimit)"
      "res = Ret (s\<lparr>xray := x, proxies := proxies s @ [p], connections := (connections s)(rQuery r ''uuid'' \<mapsto> port),
         proxyServices := (proxyServices s)(rQuery r ''uuid'' \<mapsto> length (proxies s))\<rparr>) (portResponse port w)"
proof -
  let ?ui = "\<lparr>uiUuid = rQuery r ''uuid'', Level = 0, InTag = ''test'', uiEmail = rQuery r ''email'',
      CipherType = [], Password = []\<rparr>"
  obtain x1 ok1 where a1: "addVlessUser (ceAlter e) ?ui (xray s) = (x1, ok1)" by fastforce
  obtain x2 ok2 where a2: "(if ok1 then (x1, True)
      else addVlessUser (ceAlter e) ?ui (fst (removeVlessUser (ceAlter e) ?ui x1))) = (x2, ok2)" by fastforce
  note step = assms [unfolded openProxy_def Let_def a1 prod.case a2]
  show thesis
  proof (cases "ok2")
    case False
    with step failed show thesis by auto
  next
    case True
    with step obtain port where port: "pickPort (ceFree e) (ceDraws e) = Some port" by (auto split: option.splits)
    show thesis by (rule opened [OF port]) (use step True port in \<open>auto\<close>)
  qed
qed

lemma node_inv_open:
  assumes inv: "node_inv s" and new: "connections s uuid = None"
    and p: "\<not> pxCancelled p" "pxPhase p = Starting" "10000 \<le> pxPort p" "pxPort p < 60000"
  shows "node_inv (s\<lparr>xray := x, proxies := proxies s @ [p], connections := (connections s)(uuid \<mapsto> pxPort p),
      proxyServices := (proxyServices s)(uuid \<mapsto> length (proxies s))\<rparr>)" (is "node_inv ?s")
proof -
  note D = node_invD [OF inv]
  have free: "proxyServices s uuid = None" using D(1) new by (metis domIff)
  have lt: "proxyServices s u \<noteq> Some (length (proxies s))" for u using D(2) [of u "length (proxies s)"] by auto
  show ?thesis unfolding node_inv_def
  proof (intro conjI)
    show "\<forall>u i. proxyServices ?s u = Some i \<longrightarrow> i < length (proxies ?s) \<and> \<not> pxCancelled (proxies ?s ! i) \<and>
        connections ?s u = Some (pxPort (proxies ?s ! i))"
      using D(2-4) p(1) by (auto simp: nth_append less_Suc_eq)
  next
    show "\<forall>i < length (proxies ?s). \<not> pxCancelled (proxies ?s ! i) \<longrightarrow> (\<exists>u. proxyServices ?s u = Some i)"
    proof (intro allI impI)
      fix i assume i: "i < length (proxies ?s)" "\<not> pxCancelled (proxies ?s ! i)"
      show "\<exists>u. proxyServices ?s u = Some i"
      proof (cases "i = length (proxies s)")
        case False
        with i obtain u where "proxyServices s u = Some i" using D(6) [of i] by (auto simp: nth_append)
        with free show ?thesis by (intro exI [of _ u]) auto
      qed auto
    qed
  next
    show "listenersApart (proxies ?s)" using apart_append [OF D(7)] p(2) by (simp add: listenerOpen_def)
  qed (use D(1,5,8) free lt p in \<open>auto simp: nth_append less_Suc_eq split: if_splits\<close>)
qed

text \<open>One turn of the loop in \<open>handleDisconnect\<close>.\<close>

lemma disconnect_unknown:
  assumes "node_inv s" "proxyServices s uuid = None"
  shows "connections (disconnectLoop [uuid] s) = connections s" "proxyServices (disconnectLoop [uuid] s) = proxyServices s"
    "proxies (disconnectLoop [uuid] s) = proxies s"
proof -
  have "connections s uuid = None" using node_invD(1) [OF assms(1)] assms(2) by (metis domIff)
  with assms(2) show "connections (disconnectLoop [uuid] s) = connections s" "proxyServices (disconnectLoop [uuid] s) = proxyServices s"
    "proxies (disconnectLoop [uuid] s) = proxies s" by (auto simp: Let_def)
qed

text \<open>Cancelling the proxy of a user and forgetting the user keeps the invariant.\<close>

lemma node_inv_cancel:
  assumes inv: "node_inv s" and user: "proxyServices s uuid = Some i"
    and new: "connections t = (connections s)(uuid := None)" "proxyServices t = (proxyServices s)(uuid := None)"
      "proxies t = (proxies s)[i := (proxies s ! i)\<lparr>pxCancelled := True\<rparr>]"
  shows "node_inv t"
  unfolding node_inv_def
proof (intro conjI)
  note D = node_invD [OF inv]
  have i: "i < length (proxies s)" using D(2) user by blast
  show "dom (connections t) = dom (proxyServices t)" using D(1) by (simp add: new)
  show "\<forall>u j. proxyServices t u = Some j \<longrightarrow> j < length (proxies t) \<and> \<not> pxCancelled (proxies t ! j) \<and>
      connections t u = Some (pxPort (proxies t ! j))"
  proof (intro allI impI)
    fix u j assume "proxyServices t u = Some j"
    then have u: "u \<noteq> uuid" "proxyServices s u = Some j" by (auto simp: new split: if_splits)
    with D(5) [OF _ user] have "j \<noteq> i" by blast
    with D(2-4) [OF u(2)] u(1) show "j < length (proxies t) \<and> \<not> pxCancelled (proxies t ! j) \<and>
        connections t u = Some (pxPort (proxies t ! j))" by (simp add: new)
  qed
  show "\<forall>u v j. proxyServices t u = Some j \<longrightarrow> proxyServices t v = Some j \<longrightarrow> u = v"
    using D(5) by (auto simp: new split: if_splits)
  show "\<forall>j < length (proxies t). \<not> pxCancelled (proxies t ! j) \<longrightarrow> (\<exists>u. proxyServices t u = Some j)"
  proof (intro allI impI)
    fix j assume j: "j < length (proxies t)" "\<not> pxCancelled (proxies t ! j)"
    then have "j \<noteq> i" using i by (auto simp: new)
    with j obtain u where "proxyServices s u = Some j" using D(6) [of j] by (auto simp: new)
    with user \<open>j \<noteq> i\<close> show "\<exists>u. proxyServices t u = Some j" by (intro exI [of _ u]) (auto simp: new)
  qed
  show "listenersApart (proxies t)" unfolding new(3) by (rule apart_update [OF D(7) i]) simp_all
  show "\<forall>p \<in> set (proxies t). 10000 \<le> pxPort p \<and> pxPort p < 60000"
    using D(8) i by (auto simp: new dest: set_update_subset_insert [THEN subsetD])
qed

lemma node_inv_disconnect:
  assumes inv: "node_inv s"
  shows "node_inv (disconnectLoop [uuid] s)"
proof (cases "proxyServices s uuid")
  case None
  with disconnect_unknown [OF inv] inv show ?thesis by (simp add: node_inv_def)
next
  case (Some i)
  then show ?thesis by (intro node_inv_cancel [OF inv Some]) (auto simp: Let_def)
qed

lemma disconnectLoop_Cons: "disconnectLoop (u # us) s = disconnectLoop us (disconnectLoop [u] s)"
  by (simp add: Let_def)

lemma node_inv_disconnects: "node_inv s \<Longrightarrow> node_inv (disconnectLoop us s)"
proof (induction us arbitrary: s)
  case (Cons u us)
  then show ?case using node_inv_disconnect [of s u] disconnectLoop_Cons [of u us s] by (metis (no_types))
qed simp

lemma node_inv_frame:
  assumes inv: "node_inv s" and same: "connections t = connections s" "proxyServices t = proxyServices s"
    "map proxyKey (proxies t) = map proxyKey (proxies s)" and apart: "listenersApart (proxies t)"
  shows "node_inv t"
proof -
  note D = node_invD [OF inv] and K = same_keys [OF same(3)]
  show ?thesis unfolding node_inv_def same(1,2)
  proof (intro conjI)
    show "\<forall>u i. proxyServices s u = Some i \<longrightarrow> i < length (proxies t) \<and> \<not> pxCancelled (proxies t ! i) \<and>
        connections s u = Some (pxPort (proxies t ! i))"
      using D(2-4) K by auto
    show "\<forall>i < length (proxies t). \<not> pxCancelled (proxies t ! i) \<longrightarrow> (\<exists>u. proxyServices s u = Some i)"
      using D(6) K by auto
    show "\<forall>p \<in> set (proxies t). 10000 \<le> pxPort p \<and> pxPort p < 60000"
      using D(8) K by (metis in_set_conv_nth)
  qed (use D(1,5) apart in auto)
qed

lemma handleConnect_inv:
  assumes inv: "node_inv s" and env: "drawsOk e" and step: "handleConnect e r s w = Some res"
  shows "node_inv (runState res)"
proof (cases "openProxy e r s w = Some res \<and> connections s (rQuery r ''uuid'') = None")
  case True
  then have "openProxy e r s w = Some res" ..
  then show ?thesis
  proof (cases rule: openProxy_cases)
    case (failed x)
    then show ?thesis by (simp add: node_inv_frame [OF inv] node_invD(7) [OF inv])
  next
    case (opened x port p)
    obtain d where d: "d \<in> set (ceDraws e)" "port = 10000 + int d"
      using pickPort_free [OF opened(1)] by blast
    have range: "10000 \<le> pxPort p" "pxPort p < 60000" using d opened(2) env by (auto simp: drawsOk_def)
    with node_inv_open [OF inv _ opened(3,4) range] True opened(2,8) show ?thesis by simp
  qed
next
  case False
  then have "runState res = s" using step
    by (auto simp: handleConnect_def split: option.splits prod.splits if_splits)
  with inv show ?thesis by simp
qed

lemma trafficRound_frame:
  "connections (fst (trafficRound provs gin turns s)) = connections s"
  "proxyServices (fst (trafficRound provs gin turns s)) = proxyServices s"
  "proxies (fst (trafficRound provs gin turns s)) = proxies s"
  by (simp_all add: trafficRound_def case_prod_beta)

lemma node_step_inv: "node_step s s' \<Longrightarrow> node_inv s \<Longrightarrow> node_inv s'"
proof (induction rule: node_step.induct)
  case (http e h r s res)
  show ?case
  proof (cases "rMethod r = GET \<and> rPath r = ''/connect''")
    case True
    with http handleConnect_inv [OF http(3,1), of r newWriter res] show ?thesis
      by (simp add: nodeMux_def nodeServeHTTP_def nodeRoutes_def)
  next
    case False
    then have "runState res = s \<or> (\<exists>us. runState res = disconnectLoop us s)"
      using http(2)
      by (auto simp: nodeMux_def nodeServeHTTP_def handleDisconnect_def handleInfo_def
          split: if_splits http_method.splits run.splits option.splits)
    with http(3) node_inv_disconnects show ?thesis by metis
  qed
next
  case (listen i s l)
  show ?case
    by (rule node_inv_frame [OF listen(4) _ _ _ startProxy_apart [OF node_invD(7) [OF listen(4)] listen(1,3)]])
      (simp_all add: phase_keys listen(1))
next
  case (accept i s evs)
  show ?case
    by (rule node_inv_frame [OF accept(4) _ _ _ serveProxy_apart [OF node_invD(7) [OF accept(4)] accept(1,2)]])
      (simp_all add: phase_keys accept(1))
qed (simp_all add: node_inv_frame trafficRound_frame node_invD(7))

interpretation node_system: invariant_system "\<lambda>s. \<exists>x. s = initNode x" node_step node_reach node_inv
proof
  show "node_reach s \<Longrightarrow> \<exists>s0. (\<exists>x. s0 = initNode x) \<and> node_step\<^sup>*\<^sup>* s0 s" for s :: "'x node_state"
    by (induction rule: node_reach.induct) (auto intro: rtranclp.rtrancl_into_rtrancl)
  show "\<exists>x. s = initNode x \<Longrightarrow> node_inv s" for s :: "'x node_state"
    by (auto simp: node_inv_def listenersApart_def initNode_def)
qed (auto intro: node_reach.intros node_step_inv)

lemmas node_reach_inv = node_system.reachable_inv

section \<open>Lemmas: disconnecting\<close>

lemma disconnectLoop_maps:
  "connections (disconnectLoop us s) u = (if u \<in> set us then None else connections s u) \<and>
   proxyServices (disconnectLoop us s) u = (if u \<in> set us then None else proxyServices s u) \<and>
   statsHeap (nStats (disconnectLoop us s)) = statsHeap (nStats s) \<and>
   statsCache (disconnectLoop us s) = statsCache s \<and> xray (disconnectLoop us s) = xray s"
  by (induction us s rule: disconnectLoop.induct) (auto simp: Let_def split: option.split)

lemma disconnectLoop_phase:
  "length (proxies (disconnectLoop us s)) = length (proxies s) \<and> pxPhase (proxies (disconnectLoop us s) ! i) = pxPhase (proxies s ! i)"
proof (induction us arbitrary: s)
  case (Cons u us)
  have "pxPhase (ps[k := (ps ! k)\<lparr>pxCancelled := True\<rparr>] ! i) = pxPhase (ps ! i)" for ps k
    by (cases "k = i"; cases "k < length ps") (simp_all add: list_update_beyond)
  then have "length (proxies (disconnectLoop [u] s)) = length (proxies s)" "pxPhase (proxies (disconnectLoop [u] s) ! i) = pxPhase (proxies s ! i)"
    by (auto simp: Let_def split: option.split)
  with Cons [of "disconnectLoop [u] s"] disconnectLoop_Cons [of u us s] show ?case by metis
qed simp

section \<open>Properties\<close>

text \<open>
  C11: in every reachable state of a node the tables and the proxies agree. A connected user's port is
  between 10000 and 59999 and is that of a proxy of the user's own which has not been cancelled. Every
  proxy that has not been cancelled, so every proxy that runs, belongs to exactly one user, who is
  connected on its port; and of all proxies on a port at most one holds the listener, so clients of
  that port reach at most one proxy. (A connected user need not have a running proxy: \<open>net.Listen\<close> or
  \<open>Accept\<close> may have failed.)
\<close>

theorem node_proxies_match_users:
  assumes "node_reach s"
  shows "(\<forall>u port. connections s u = Some port \<longrightarrow> 10000 \<le> port \<and> port < 60000 \<and>
      (\<exists>i < length (proxies s). proxyServices s u = Some i \<and> pxPort (proxies s ! i) = port \<and> \<not> pxCancelled (proxies s ! i))) \<and>
    (\<forall>i < length (proxies s). \<not> pxCancelled (proxies s ! i) \<longrightarrow>
      (\<exists>!u. proxyServices s u = Some i) \<and> (\<forall>u. proxyServices s u = Some i \<longrightarrow> connections s u = Some (pxPort (proxies s ! i)))) \<and>
    (\<forall>i < length (proxies s). \<forall>j < length (proxies s). listenerOpen (proxies s ! i) \<longrightarrow> listenerOpen (proxies s ! j) \<longrightarrow>
      pxPort (proxies s ! i) = pxPort (proxies s ! j) \<longrightarrow> i = j)"
proof -
  note D = node_invD [OF node_reach_inv [OF assms]]
  have served: "\<exists>i < length (proxies s). proxyServices s u = Some i \<and> pxPort (proxies s ! i) = port \<and> \<not> pxCancelled (proxies s ! i)"
    if "connections s u = Some port" for u port
  proof -
    have "u \<in> dom (proxyServices s)" using that D(1) by blast
    then obtain i where "proxyServices s u = Some i" by blast
    with D(2-4) [OF this] that show ?thesis by auto
  qed
  moreover have "10000 \<le> port \<and> port < 60000" if "connections s u = Some port" for u port
    using served [OF that] D(8) nth_mem by blast
  moreover have "\<exists>!u. proxyServices s u = Some i" if "i < length (proxies s)" "\<not> pxCancelled (proxies s ! i)" for i
    using D(6) [OF that] D(5) by blast
  ultimately show ?thesis using D(4) listenersApartD [OF D(7)] by blast
qed

text \<open>
  A user whose proxy has ended without a disconnect, because it could not listen or its accept failed,
  stays connected: as long as no disconnect request names the user, no step of the node takes the
  user's port away or gives the user another proxy, and a connect request is answered with the dead
  port.
\<close>

theorem dead_proxy_kept:
  assumes "proxyServices s u = Some i" "i < length (proxies s)" "pxPhase (proxies s ! i) = ListenFailed \<or> pxPhase (proxies s ! i) = AcceptFailed"
    and "connections s u = Some port" "node_step s s'"
    and "proxyServices s' u \<noteq> None"
  shows "connections s' u = Some port \<and> proxyServices s' u = Some i \<and> \<not> running (proxies s' ! i)"
  using assms(5)
proof cases
  case (http e h r res)
  show ?thesis
  proof (cases "rMethod r = GET \<and> rPath r = ''/connect''")
    case True
    then have step: "handleConnect e r s newWriter = Some res" using http(3) by (simp add: nodeMux_def nodeServeHTTP_def nodeRoutes_def)
    show ?thesis
    proof (cases "openProxy e r s newWriter = Some res \<and> connections s (rQuery r ''uuid'') = None")
      case True
      then have "openProxy e r s newWriter = Some res" "rQuery r ''uuid'' \<noteq> u" using assms(4) by auto
      from this(1) show ?thesis
        by (cases rule: openProxy_cases) (use assms \<open>rQuery r ''uuid'' \<noteq> u\<close> http(1) in \<open>auto simp: running_def nth_append\<close>)
    next
      case False
      then have "s' = s" using step http(1)
        by (auto simp: handleConnect_def split: option.splits prod.splits if_splits)
      with assms show ?thesis by (auto simp: running_def)
    qed
  next
    case False
    then have "s' = s \<or> (\<exists>us. s' = disconnectLoop us s)"
      using http(1,3)
      by (auto simp: nodeMux_def nodeServeHTTP_def handleDisconnect_def handleInfo_def
          split: if_splits http_method.splits run.splits option.splits)
    then show ?thesis
    proof
      assume "\<exists>us. s' = disconnectLoop us s"
      then obtain us where us: "s' = disconnectLoop us s" ..
      with assms(6) have "u \<notin> set us" using disconnectLoop_maps [of us s u] by auto
      with us assms show ?thesis using disconnectLoop_maps [of us s u] disconnectLoop_phase [of us s i] by (auto simp: running_def)
    qed (use assms in \<open>auto simp: running_def\<close>)
  qed
next
  case (listen j l)
  with assms show ?thesis by (cases "j = i") (auto simp: running_def)
next
  case (accept j evs)
  with assms show ?thesis by (cases "j = i") (auto simp: running_def)
qed (use assms in \<open>auto simp: running_def trafficRound_frame\<close>)

text \<open>
  A node opens a proxy, or tells a port, only to a caller whose address is the public IP of a
  registered web server and who names a user, an email and a client address. Any other caller gets
  an error status and changes nothing.
\<close>

theorem connect_only_for_web:
  assumes "handleConnect e r s newWriter = Some (Ret s' w')" "s' \<noteq> s \<or> finalStatus w' = StatusOK"
  shows "\<exists>providers srcIP p prov. ceProviders e = Some providers \<and> splitHostPort (rRemoteAddr r) = Some (srcIP, p) \<and>
    prov \<in> set providers \<and> PublicIP prov = srcIP \<and>
    rQuery r ''uuid'' \<noteq> [] \<and> rQuery r ''email'' \<noteq> [] \<and> rQuery r ''clientip'' \<noteq> []"
  using assms by (auto simp: handleConnect_def http_simps split: option.splits prod.splits if_splits)

text \<open>
  A connect that answers 200 leaves the user connected and reports the user's port; repeating the
  request gives the same answer and changes nothing, whatever the xray core and the port search
  would do.
\<close>

theorem connect_twice_same_port:
  assumes "handleConnect e r s newWriter = Some (Ret s' w')" "finalStatus w' = StatusOK"
    and "ceProviders e' = ceProviders e"
  shows "\<exists>port. connections s' (rQuery r ''uuid'') = Some port \<and>
    wBody w' = [JObj [(''port'', JStr (itoa port))]] \<and> handleConnect e' r s' newWriter = Some (Ret s' w')"
proof (cases "connections s (rQuery r ''uuid'')")
  case (Some port)
  with assms show ?thesis
    by (auto simp: handleConnect_def http_simps portResponse_def split: option.splits prod.splits if_splits)
next
  case None
  then have op: "openProxy e r s newWriter = Some (Ret s' w')"
    using assms(1,2) by (auto simp: handleConnect_def http_simps split: option.splits prod.splits if_splits)
  then show ?thesis
  proof (cases rule: openProxy_cases)
    case (failed x)
    with assms(2) show ?thesis by (simp add: http_simps)
  next
    case (opened x port p)
    then have "connections s' (rQuery r ''uuid'') = Some port" "w' = portResponse port newWriter" by auto
    with assms None show ?thesis
      by (auto simp: handleConnect_def http_simps portResponse_def split: option.splits prod.splits if_splits)
  qed
qed

text \<open>
  When the xray client cannot be made, a connect for a new user panics instead of answering 500:
  the handler goes on after the error with nil clients. Nothing is opened.
\<close>

theorem connect_dial_failure_panics:
  assumes "ceProviders e = Some providers" "splitHostPort (rRemoteAddr r) = Some (srcIP, p)"
    and "prov \<in> set providers" "PublicIP prov = srcIP"
    and "rQuery r ''uuid'' \<noteq> []" "rQuery r ''email'' \<noteq> []" "rQuery r ''clientip'' \<noteq> []"
    and "connections s (rQuery r ''uuid'') = None" "\<not> xrayInit (ceDial e) cfg"
  shows "handleConnect e r s w = Some (Panic s)"
  using assms by (auto simp: handleConnect_def)

text \<open>
  A disconnect request that carries the list of users in the encoding the web server uses answers
  200, disconnects exactly those users and cancels their proxies. The counters of connections that
  are already established stay as they are, and so does the report's cache.
\<close>

theorem disconnect_closes_exactly:
  assumes "node_reach s" "rMethod r = POST" "rPath r = ''/disconnect''" "rBody r \<noteq> None"
    and "rJson r = Some (encodeStrings uuids)" "uuids \<noteq> []"
  shows "\<exists>s'. nodeMux e h r s newWriter = Some (Ret s' (writeHeader StatusOK newWriter)) \<and>
    connections s' = (connections s) |` (- set uuids) \<and>
    (\<forall>u \<in> set uuids. \<forall>i. proxyServices s u = Some i \<longrightarrow> pxCancelled (proxies s' ! i)) \<and>
    (\<forall>u i. u \<notin> set uuids \<longrightarrow> proxyServices s u = Some i \<longrightarrow> \<not> pxCancelled (proxies s' ! i)) \<and>
    statsHeap (nStats s') = statsHeap (nStats s) \<and> statsCache s' = statsCache s"
proof -
  let ?s' = "disconnectLoop uuids s"
  have inv: "node_inv s" by (rule node_reach_inv [OF assms(1)])
  have inv': "node_inv ?s'" by (rule node_inv_disconnects [OF inv])
  have "pxCancelled (proxies ?s' ! i)" if u: "u \<in> set uuids" "proxyServices s u = Some i" for u i
  proof (rule ccontr)
    assume "\<not> pxCancelled (proxies ?s' ! i)"
    moreover have "i < length (proxies ?s')" using node_invD(2) [OF inv u(2)] disconnectLoop_phase [of uuids s] by simp
    ultimately obtain v where v: "proxyServices ?s' v = Some i" using node_invD(6) [OF inv'] by blast
    then have "v \<notin> set uuids" "proxyServices s v = Some i" using disconnectLoop_maps [of uuids s v] by (auto split: if_splits)
    with node_invD(5) [OF inv u(2)] u(1) show False by blast
  qed
  moreover have "\<not> pxCancelled (proxies ?s' ! i)" if "u \<notin> set uuids" "proxyServices s u = Some i" for u i
    using node_invD(3) [OF inv', of u i] disconnectLoop_maps [of uuids s u] that by simp
  moreover have "nodeMux e h r s newWriter = Some (Ret ?s' (writeHeader StatusOK newWriter))"
    using assms(2-6) by (auto simp: nodeMux_def nodeRoutes_def nodeServeHTTP_def handleDisconnect_def)
  moreover have "connections ?s' = (connections s) |` (- set uuids)"
    using disconnectLoop_maps [of uuids s] by (auto simp: restrict_map_def)
  ultimately show ?thesis using disconnectLoop_maps [of uuids s] by blast
qed

section \<open>Concrete runs\<close>

definition demoEnv :: "nat list \<Rightarrow> bool \<Rightarrow> unit connect_env" where
  "demoEnv draws dial = \<lparr>ceProviders = Some [emptyRegistration\<lparr>PublicIP := ''9.9.9.9''\<rparr>], ceDial = (\<lambda>_. dial),
     ceAlter = (\<lambda>q x. (x, True)), ceDraws = draws, ceFree = (\<lambda>_. True)\<rparr>"

definition demoHost :: host_info where
  "demoHost = \<lparr>cpuPercent = None, memInfo = None\<rparr>"

definition connectRequest :: "string \<Rightarrow> request" where
  "connectRequest uuid = \<lparr>rMethod = GET, rPath = ''/connect'',
     rQuery = (\<lambda>k. if k = ''uuid'' then uuid else if k = ''email'' then ''a@b'' else if k = ''clientip'' then ''5.5.5.5'' else []),
     rHeader = (\<lambda>_. []), rRemoteAddr = ''9.9.9.9:4000'', rBody = Some [], rJson = None\<rparr>"

definition disconnectRequest :: "string list \<Rightarrow> request" where
  "disconnectRequest uuids = \<lparr>rMethod = POST, rPath = ''/disconnect'', rQuery = (\<lambda>_. []), rHeader = (\<lambda>_. []),
     rRemoteAddr = ''9.9.9.9:4000'', rBody = Some [], rJson = Some (encodeStrings uuids)\<rparr>"

definition serve :: "nat list \<Rightarrow> request \<Rightarrow> unit node_state \<Rightarrow> unit node_state" where
  "serve draws r s = runState (the (nodeMux (demoEnv draws True) demoHost r s newWriter))"

definition oneUser :: "unit node_state" where
  "oneUser = serve [0] (connectRequest ''u1'') (initNode ())"

lemmas node_eval = serve_def nodeMux_def nodeRoutes_def nodeServeHTTP_def handleConnect_def openProxy_def
  connectRequest_def disconnectRequest_def demoEnv_def splitHostPort_def addVlessUser_def handleDisconnect_def Let_def

lemma oneUser_eq:
  "oneUser = \<lparr>connections = [''u1'' \<mapsto> 10000], proxyServices = [''u1'' \<mapsto> 0],
     proxies = [\<lparr>pxPort = 10000, pxSourceIP = ''5.5.5.5'', pxRate = 1250000, pxBurst = 16384, pxCancelled = False, pxPhase = Starting\<rparr>],
     nStats = \<lparr>statsHeap = [], statsStore = Map.empty\<rparr>, statsCache = Map.empty, xray = ()\<rparr>"
  by (simp add: oneUser_def node_eval initNode_def parseLimit_def defaultlimit_def)

lemma node_reach_serve:
  assumes "node_reach s" "\<forall>d \<in> set draws. d < 50000" "nodeMux (demoEnv draws True) demoHost r s newWriter \<noteq> None"
  shows "node_reach (serve draws r s)"
proof -
  obtain res where res: "nodeMux (demoEnv draws True) demoHost r s newWriter = Some res" using assms(3) by blast
  have "drawsOk (demoEnv draws True)" using assms(2) by (simp add: drawsOk_def demoEnv_def)
  from node_reach.step [OF assms(1) node_step.http [OF this res]] show ?thesis by (simp add: serve_def res)
qed

lemma oneUser_reach: "node_reach oneUser"
  unfolding oneUser_def by (rule node_reach_serve [OF node_reach.init]) (simp_all add: node_eval initNode_def)

lemma itoa_10000: "itoa 10000 = ''10000''"
  by (simp add: itoa_values)

text \<open>The proxy of the user listens.\<close>

lemma oneUser_serving: "node_reach (startProxy 0 True oneUser)"
  by (rule node_reach.step [OF oneUser_reach node_step.listen]) (simp_all add: oneUser_eq portTaken_def listenerOpen_def)

theorem node_proxies_match_users_witness:
  "node_reach (startProxy 0 True oneUser) \<and> running (proxies (startProxy 0 True oneUser) ! 0) \<and>
   (\<exists>!u. proxyServices (startProxy 0 True oneUser) u = Some 0) \<and> connections (startProxy 0 True oneUser) ''u1'' = Some 10000"
proof -
  have "0 < length (proxies (startProxy 0 True oneUser))" "\<not> pxCancelled (proxies (startProxy 0 True oneUser) ! 0)"
      "proxyServices (startProxy 0 True oneUser) ''u1'' = Some 0" "running (proxies (startProxy 0 True oneUser) ! 0)"
      "pxPort (proxies (startProxy 0 True oneUser) ! 0) = 10000"
    by (simp_all add: oneUser_eq running_def)
  with node_proxies_match_users [OF oneUser_serving] oneUser_serving show ?thesis by metis
qed

text \<open>The port was taken by another process after it was probed: \<open>net.Listen\<close> fails, no proxy runs, and the
  user is connected all the same; asking again gives the same port.\<close>

theorem failed_listen_unnoticed:
  "node_reach (startProxy 0 False oneUser) \<and> connections (startProxy 0 False oneUser) ''u1'' = Some 10000 \<and>
   (\<forall>p \<in> set (proxies (startProxy 0 False oneUser)). \<not> running p) \<and>
   handleConnect (demoEnv [7] True) (connectRequest ''u1'') (startProxy 0 False oneUser) newWriter =
     Some (Ret (startProxy 0 False oneUser) (portResponse 10000 newWriter))"
proof -
  have "node_reach (startProxy 0 False oneUser)"
    by (rule node_reach.step [OF oneUser_reach node_step.listen]) (simp_all add: oneUser_eq)
  then show ?thesis by (simp add: oneUser_eq running_def handleConnect_def demoEnv_def connectRequest_def splitHostPort_def)
qed

theorem dead_proxy_kept_witness:
  "connections (startProxy 0 False oneUser) ''u1'' = Some 10000 \<and>
   \<not> running (proxies (serve [7] (connectRequest ''u1'') (startProxy 0 False oneUser)) ! 0)"
proof -
  have "node_step (startProxy 0 False oneUser) (serve [7] (connectRequest ''u1'') (startProxy 0 False oneUser))"
    using node_step.http [of "demoEnv [7] True" demoHost "connectRequest ''u1''" "startProxy 0 False oneUser"]
    by (simp add: node_eval drawsOk_def oneUser_eq)
  from dead_proxy_kept [OF _ _ _ _ this, of "''u1''" 0 10000] show ?thesis by (simp add: oneUser_eq node_eval)
qed

theorem connect_only_for_web_witness:
  "\<exists>s' w'. handleConnect (demoEnv [0] True) (connectRequest ''u1'') (initNode ()) newWriter = Some (Ret s' w') \<and>
     finalStatus w' = StatusOK \<and> rQuery (connectRequest ''u1'') ''email'' \<noteq> []"
proof -
  obtain s' w' where run: "handleConnect (demoEnv [0] True) (connectRequest ''u1'') (initNode ()) newWriter = Some (Ret s' w')"
      "finalStatus w' = StatusOK"
    by (simp add: node_eval initNode_def portResponse_def http_simps)
  with connect_only_for_web [OF run(1)] show ?thesis by blast
qed

theorem connect_twice_same_port_witness:
  "\<exists>w'. handleConnect (demoEnv [0] True) (connectRequest ''u1'') (initNode ()) newWriter = Some (Ret oneUser w') \<and>
     handleConnect (demoEnv [7] True) (connectRequest ''u1'') oneUser newWriter = Some (Ret oneUser w')"
proof -
  have run: "handleConnect (demoEnv [0] True) (connectRequest ''u1'') (initNode ()) newWriter =
      Some (Ret oneUser (portResponse 10000 newWriter))"
    by (simp add: oneUser_def node_eval initNode_def)
  have ok: "finalStatus (portResponse 10000 newWriter) = StatusOK" "ceProviders (demoEnv [7] True) = ceProviders (demoEnv [0] True)"
    by (simp_all add: portResponse_def http_simps demoEnv_def)
  from connect_twice_same_port [OF run ok] run show ?thesis by blast
qed

theorem connect_dial_failure_panics_witness:
  "handleConnect (demoEnv [0] False) (connectRequest ''u1'') (initNode ()) newWriter = Some (Panic (initNode ()))"
  by (rule connect_dial_failure_panics [where providers = "[emptyRegistration\<lparr>PublicIP := ''9.9.9.9''\<rparr>]" and
        prov = "emptyRegistration\<lparr>PublicIP := ''9.9.9.9''\<rparr>" and srcIP = "''9.9.9.9''" and p = "''4000''"])
    (simp_all add: demoEnv_def connectRequest_def splitHostPort_def initNode_def)

theorem disconnect_closes_exactly_witness:
  "\<exists>s'. nodeMux (demoEnv [] True) demoHost (disconnectRequest [''u1'', ''u2'']) oneUser newWriter =
       Some (Ret s' (writeHeader StatusOK newWriter)) \<and> connections s' = Map.empty \<and> pxCancelled (proxies s' ! 0)"
proof -
  note disconnect_closes_exactly [OF oneUser_reach, where r = "disconnectRequest [''u1'', ''u2'']" and
      uuids = "[''u1'', ''u2'']" and e = "demoEnv [] True" and h = demoHost]
  then obtain s' where s': "nodeMux (demoEnv [] True) demoHost (disconnectRequest [''u1'', ''u2'']) oneUser newWriter =
       Some (Ret s' (writeHeader StatusOK newWriter))" "connections s' = (connections oneUser) |` (- {''u1'', ''u2''})"
      "\<forall>u \<in> {''u1'', ''u2''}. \<forall>i. proxyServices oneUser u = Some i \<longrightarrow> pxCancelled (proxies s' ! i)"
    by (auto simp: disconnectRequest_def)
  then have "connections s' = Map.empty" "pxCancelled (proxies s' ! 0)" by (auto simp: oneUser_eq restrict_map_def)
  with s'(1) show ?thesis by blast
qed

end
