(* ===== verification/Web_Users.thy ===== *)
theory Web_Users
  imports Registration
begin

text \<open>
  Model of the account side of the web server: the user table (src/web/db/models.go), sign-up, login
  and the other handlers of src/web/controllers/controllers.go that need no connection table, the
  plan administration (src/web/controllers/admin.go) and the authentication middleware
  (src/web/middleware/middleware.go).

  gorm, bcrypt and jwt are parameters. A database has a state of type \<open>'d\<close> and the operations the
  code calls, in the record \<open>db_ops\<close>; \<open>db_laws\<close> states what the theorems use of them, relative to
  the rows \<open>rows d\<close>. \<open>c.JSON\<close> writes a status and appends a body: the first status is the one
  sent. A handler that goes on after an error therefore appends a second body.
\<close>

section \<open>The user table\<close>

record User =
  userID :: nat
  Email :: string
  UUID :: string
  userPassword :: string
  Plan :: string
  PlanStart :: time
  PlanEnd :: time
  RenewCycle :: duration
  NextRenew :: time
  TrafficUsed :: int
  TrafficLimit :: int

definition zeroUser :: User where
  "zeroUser = \<lparr>userID = 0, Email = [], UUID = [], userPassword = [], Plan = [], PlanStart = zeroTime,
     PlanEnd = zeroTime, RenewCycle = 0, NextRenew = zeroTime, TrafficUsed = 0, TrafficLimit = 0\<rparr>"

text \<open>\<open>First\<close> is \<open>None\<close> when it returns an error (no row, or a failing database); the errors of
  \<open>Create\<close> carry their text.\<close>

record 'd db_ops =
  dbCreate :: "User \<Rightarrow> 'd \<Rightarrow> 'd \<times> string option"
  dbFirstEmail :: "string \<Rightarrow> 'd \<Rightarrow> User option"
  dbFirstUUID :: "string \<Rightarrow> 'd \<Rightarrow> User option"
  dbFirstID :: "nat \<Rightarrow> 'd \<Rightarrow> User option"
  dbUpdateTraffic :: "nat \<Rightarrow> int \<Rightarrow> 'd \<Rightarrow> 'd"
  dbSave :: "User \<Rightarrow> 'd \<Rightarrow> 'd \<times> bool"
  dbDue :: "time \<Rightarrow> 'd \<Rightarrow> User list option"
  dbOver :: "time \<Rightarrow> 'd \<Rightarrow> User list option"

text \<open>\<open>c.JSON(status, body)\<close>.\<close>

definition ginJSON :: "status \<Rightarrow> json \<Rightarrow> json writer \<Rightarrow> json writer" where
  "ginJSON code body w = writeBody body (writeHeader code w)"

definition jsonError :: "string \<Rightarrow> json" where
  "jsonError msg = JObj [(''error'', JStr msg)]"

section \<open>Sign-up and login\<close>

record credentials =
  crEmail :: string
  crPassword :: string

text \<open>\<open>c.Bind(&body)\<close> for a JSON body.\<close>

definition bindCredentials :: "request \<Rightarrow> credentials option" where
  "bindCredentials r =
     (case rJson r of
        None \<Rightarrow> None
      | Some j \<Rightarrow> decodeStruct
          [(''Email'', onField decodeString crEmail (\<lambda>v. crEmail_update (\<lambda>_. v))),
           (''Password'', onField decodeString crPassword (\<lambda>v. crPassword_update (\<lambda>_. v)))]
          j \<lparr>crEmail = [], crPassword = []\<rparr>)"

definition newUser :: "time \<Rightarrow> string \<Rightarrow> string \<Rightarrow> string \<Rightarrow> User" where
  "newUser now email hash uuid =
     \<lparr>userID = 0, Email = email, UUID = uuid, userPassword = hash, Plan = ''Premium plan'', PlanStart = now,
      PlanEnd = now + 100 * 12 * 31 * 24 * hour, RenewCycle = 31 * 24 * hour, NextRenew = now + 31 * 24 * hour,
      TrafficUsed = 0, TrafficLimit = 50 * 1000 * 1000 * 1000\<rparr>"

text \<open>\<open>hashPassword\<close> is \<open>bcrypt.GenerateFromPassword\<close>, \<open>uuid\<close> the value of \<open>uuid.New()\<close>.\<close>

definition Signup ::
  "'d db_ops \<Rightarrow> (string \<Rightarrow> string option) \<Rightarrow> string \<Rightarrow> time \<Rightarrow> request \<Rightarrow> 'd \<Rightarrow> json writer \<Rightarrow> 'd \<times> json writer" where
  "Signup ops hashPassword uuid now r d w =
     (case bindCredentials r of
        None \<Rightarrow> (d, ginJSON StatusBadRequest (jsonError ''Failed to read body'') w)
      | Some body \<Rightarrow>
          (case hashPassword (crPassword body) of
             None \<Rightarrow> (d, ginJSON StatusBadRequest (jsonError ''Failed to hash password.'') w)
           | Some hash \<Rightarrow>
               (let (d1, err) = dbCreate ops (newUser now (crEmail body) hash uuid) d;
                    w1 = (case err of
                            None \<Rightarrow> w
                          | Some msg \<Rightarrow> ginJSON StatusBadRequest (jsonError (''Failed to create user.'' @ msg)) w)
                in (d1, ginJSON StatusOK (JObj []) w1))))"

record jwt_claims =
  claimSub :: nat
  claimExp :: "int option"

type_synonym token_map = "string \<rightharpoonup> time"

text \<open>\<open>sign\<close> is \<open>SignedString\<close> with the server's secret; on an error the token is the empty string.\<close>

definition Login ::
  "'d db_ops \<Rightarrow> (string \<Rightarrow> string \<Rightarrow> bool) \<Rightarrow> (jwt_claims \<Rightarrow> string option) \<Rightarrow> time \<Rightarrow> request \<Rightarrow> 'd \<Rightarrow> token_map \<Rightarrow>
   json writer \<Rightarrow> token_map \<times> json writer" where
  "Login ops compareHash sign now r d expireMap w =
     (case bindCredentials r of
        None \<Rightarrow> (expireMap, ginJSON StatusBadRequest (jsonError ''Failed to read body'') w)
      | Some body \<Rightarrow>
          (let user = (case dbFirstEmail ops (crEmail body) d of None \<Rightarrow> zeroUser | Some u \<Rightarrow> u)
           in if userID user = 0
              then (expireMap, ginJSON StatusBadRequest (jsonError ''Invalid email or password'') w)
              else if \<not> compareHash (userPassword user) (crPassword body)
              then (expireMap, ginJSON StatusBadRequest (jsonError ''Invalid email or password'') w)
              else
                (let claims = \<lparr>claimSub = userID user, claimExp = Some (unixTime (now + hour * 24 * 30))\<rparr>;
                     tokenString = (case sign claims of None \<Rightarrow> [] | Some t \<Rightarrow> t);
                     expireMap1 = expireMap(tokenString \<mapsto> now + hour * 24 * 30)
                 in if sign claims = None
                    then (expireMap1, ginJSON StatusBadRequest (jsonError ''Failed to create token'') w)
                    else (expireMap1, ginJSON StatusOK (JObj [(''token'', JStr tokenString)]) w))))"

section \<open>Authentication\<close>

text \<open>What \<open>jwt.Parse\<close> returns beside its error: nil, or a token with its \<open>Valid\<close> flag and claims.\<close>

datatype jwt_token = NilToken | Token bool jwt_claims

text \<open>
  \<open>RequireAuth\<close>: the user the following handlers find in the context, \<open>None\<close> when they do not run.
  \<open>AbortWithStatus\<close> sends its status and keeps \<open>c.Next\<close> from running anything. A nil token and a
  missing \<open>exp\<close> claim panic.
\<close>

definition RequireAuth ::
  "'d db_ops \<Rightarrow> (string \<Rightarrow> jwt_token) \<Rightarrow> time \<Rightarrow> string \<Rightarrow> 'd \<Rightarrow> json writer \<Rightarrow> (json writer, User option) run" where
  "RequireAuth ops parse now tokenString d w =
     (let aborted1 = (tokenString = []);
          w1 = (if aborted1 then writeHeader StatusUnauthorized w else w)
      in case parse tokenString of
           NilToken \<Rightarrow> Panic w1
         | Token valid claims \<Rightarrow>
             if valid then
               (case claimExp claims of
                  None \<Rightarrow> Panic w1
                | Some e \<Rightarrow>
                    (let aborted2 = (aborted1 \<or> unixTime now > e);
                         w2 = (if unixTime now > e then writeHeader StatusUnauthorized w1 else w1);
                         user = (case dbFirstID ops (claimSub claims) d of None \<Rightarrow> zeroUser | Some u \<Rightarrow> u);
                         aborted3 = (aborted2 \<or> userID user = 0);
                         w3 = (if userID user = 0 then writeHeader StatusUnauthorized w2 else w2)
                     in if aborted3 then Ret w3 None else Ret w3 (Some user)))
             else Ret (writeHeader StatusUnauthorized w1) None)"

section \<open>Reading handlers\<close>

text \<open>The formatting of times and durations is given by arguments.\<close>

definition userHandler :: "(time \<Rightarrow> string) \<Rightarrow> (duration \<Rightarrow> string) \<Rightarrow> User \<Rightarrow> json writer \<Rightarrow> json writer" where
  "userHandler rfc3339 durationString u w =
     ginJSON StatusOK (JObj
       [(''email'', JStr (Email u)), (''next_renew'', JStr (rfc3339 (NextRenew u))), (''plan'', JStr (Plan u)),
        (''plan_end'', JStr (rfc3339 (PlanEnd u))), (''plan_start'', JStr (rfc3339 (PlanStart u))),
        (''renew_cycle'', JStr (durationString (RenewCycle u))), (''traffic_limit'', JInt (TrafficLimit u)),
        (''traffic_used'', JInt (TrafficUsed u)), (''uuid'', JStr (UUID u))]) w"

definition Realitykey :: "(string \<Rightarrow> string) \<Rightarrow> json writer \<Rightarrow> json writer" where
  "Realitykey env w = ginJSON StatusOK (JObj [(''pubkey'', JStr (env ''REALITY_PUBKEY''))]) w"

record Server =
  svIP :: string
  svIPV6 :: string
  svServiceID :: string
  svDescription :: string
  svTags :: "string list"

definition serverOf :: "Registration \<Rightarrow> Server" where
  "serverOf reg = \<lparr>svIP = PublicIP reg, svIPV6 = PublicIPv6 reg, svServiceID = ServiceID reg,
     svDescription = Description reg, svTags = []\<rparr>"

definition encodeServer :: "Server \<Rightarrow> json" where
  "encodeServer s = JObj [(''ip'', JStr (svIP s)), (''ipv6'', JStr (svIPV6 s)), (''serviceid'', JStr (svServiceID s)),
     (''description'', JStr (svDescription s)), (''tags'', encodeStrings (svTags s))]"

definition Servers :: "Registration list option \<Rightarrow> json writer \<Rightarrow> json writer" where
  "Servers providers w =
     (case providers of
        None \<Rightarrow> ginJSON StatusInternalServerError (jsonError ''Failed to fetch servers'') w
      | Some regs \<Rightarrow> ginJSON StatusOK (JObj [(''servers'', JArr (map (\<lambda>reg. encodeServer (serverOf reg)) regs))]) w)"

definition Version :: "request \<Rightarrow> json writer \<Rightarrow> json writer" where
  "Version r w =
     (let version = rQuery r ''client-version''
      in if version = [] then ginJSON StatusBadRequest (jsonError ''Missing client-version parameter'') w
         else if version \<notin> {''0.1.0''} then ginJSON StatusBadRequest (jsonError ''Unsupported version'') w
         else ginJSON StatusOK (JObj []) w)"

section \<open>Traffic and plans\<close>

record traffic_entry =
  trUUID :: string
  trTraffic :: int

definition trafficFields :: "traffic_entry field list" where
  "trafficFields = [(''uuid'', onField decodeString trUUID (\<lambda>v. trUUID_update (\<lambda>_. v))),
     (''traffic'', onField decodeInt trTraffic (\<lambda>v. trTraffic_update (\<lambda>_. v)))]"

definition decodeReports :: "json \<Rightarrow> traffic_entry list option" where
  "decodeReports j = decodeSlice (decodeStruct trafficFields) \<lparr>trUUID = [], trTraffic = 0\<rparr> j []"

fun addTrafficLoop :: "'d db_ops \<Rightarrow> traffic_entry list \<Rightarrow> 'd \<Rightarrow> 'd" where
  "addTrafficLoop ops [] d = d"
| "addTrafficLoop ops (report # rest) d =
     addTrafficLoop ops rest
       (case dbFirstUUID ops (trUUID report) d of
          None \<Rightarrow> d
        | Some user \<Rightarrow> dbUpdateTraffic ops (userID user) (wrap64 (TrafficUsed user + trTraffic report)) d)"

definition AddTraffic :: "'d db_ops \<Rightarrow> request \<Rightarrow> 'd \<Rightarrow> json writer \<Rightarrow> 'd \<times> json writer" where
  "AddTraffic ops r d w =
     (case (case rJson r of None \<Rightarrow> None | Some j \<Rightarrow> decodeReports j) of
        None \<Rightarrow> (d, ginJSON StatusBadRequest (jsonError ''Invalid traffic report format'') w)
      | Some reports \<Rightarrow> (addTrafficLoop ops reports d, ginJSON StatusOK (JObj [(''status'', JStr ''success'')]) w))"

text \<open>\<open>param\<close> is \<open>c.Param\<close> and \<open>encodeUser\<close> the JSON form of a row. No error of \<open>SetPlan\<close> returns.\<close>

definition SetPlan ::
  "'d db_ops \<Rightarrow> (User \<Rightarrow> json) \<Rightarrow> string \<Rightarrow> (string \<Rightarrow> string) \<Rightarrow> time \<Rightarrow> 'd \<Rightarrow> json writer \<Rightarrow> 'd \<times> json writer" where
  "SetPlan ops encodeUser regkey param now d w =
     (let uuid = param ''uuid''; plan = param ''plan'';
          w1 = (if param ''regkey'' \<noteq> regkey then ginJSON 403 (jsonError ''Invalid registration key'') w else w);
          found = dbFirstUUID ops uuid d;
          w2 = (if found = None then ginJSON 404 (jsonError ''User not found'') w1 else w1);
          user = (case found of None \<Rightarrow> zeroUser | Some u \<Rightarrow> u);
          w3 = (if UUID user = [] then ginJSON 404 (jsonError ''User not found'') w2 else w2);
          (user1, w4) =
            (if plan = ''Free plan'' then
               (user\<lparr>Plan := ''Free plan'', TrafficUsed := 0, TrafficLimit := 50 * 1000 * 1000 * 1000,
                     NextRenew := now + 31 * 24 * hour, PlanEnd := now + 100 * 12 * 31 * 24 * hour\<rparr>, w3)
             else if plan = ''Premium plan'' then
               (user\<lparr>Plan := ''Premium plan'', TrafficUsed := 0, TrafficLimit := 200 * 1000 * 1000 * 1000,
                     NextRenew := now + 31 * 24 * hour\<rparr>, w3)
             else (user, ginJSON 400 (jsonError ''Invalid plan'') w3));
          (d1, ok) = dbSave ops user1 d;
          w5 = (if \<not> ok then ginJSON 500 (jsonError ''Failed to update user plan'') w4 else w4)
      in (d1, ginJSON 200 (JObj [(''message'', JStr ''Plan updated successfully''), (''user'', encodeUser user1)]) w5))"

section \<open>What the database promises\<close>

text \<open>
  \<open>rows d\<close> are the rows in the order of the primary key. \<open>coll\<close> is the equality of the database's
  collation, by which texts are compared. The laws speak of a
  database that is up: a lookup and the update of a row succeed, while creating, saving and the
  monitors' queries may fail.
\<close>

definition db_create_law :: "(string \<Rightarrow> string \<Rightarrow> bool) \<Rightarrow> 'd db_ops \<Rightarrow> ('d \<Rightarrow> User list) \<Rightarrow> bool" where
  "db_create_law coll ops rows \<longleftrightarrow> (\<forall>u d d' err. dbCreate ops u d = (d', err) \<longrightarrow>
     (if err = None
      then (\<forall>v \<in> set (rows d). \<not> coll (Email v) (Email u)) \<and>
        (\<exists>i. i \<noteq> 0 \<and> i \<notin> userID ` set (rows d) \<and> rows d' = rows d @ [u\<lparr>userID := i\<rparr>])
      else rows d' = rows d))"

definition db_first_law :: "(string \<Rightarrow> string \<Rightarrow> bool) \<Rightarrow> 'd db_ops \<Rightarrow> ('d \<Rightarrow> User list) \<Rightarrow> bool" where
  "db_first_law coll ops rows \<longleftrightarrow> (\<forall>x d. dbFirstEmail ops x d = find (\<lambda>u. coll (Email u) x) (rows d)) \<and>
     (\<forall>x d. dbFirstUUID ops x d = find (\<lambda>u. coll (UUID u) x) (rows d)) \<and>
     (\<forall>i d. dbFirstID ops i d = find (\<lambda>u. userID u = i) (rows d))"

definition db_update_law :: "'d db_ops \<Rightarrow> ('d \<Rightarrow> User list) \<Rightarrow> bool" where
  "db_update_law ops rows \<longleftrightarrow> (\<forall>i n d. rows (dbUpdateTraffic ops i n d) =
     map (\<lambda>u. if userID u = i then u\<lparr>TrafficUsed := n\<rparr> else u) (rows d))"

definition db_save_law :: "'d db_ops \<Rightarrow> ('d \<Rightarrow> User list) \<Rightarrow> bool" where
  "db_save_law ops rows \<longleftrightarrow> (\<forall>u d d' ok. dbSave ops u d = (d', ok) \<longrightarrow>
     (if \<not> ok then rows d' = rows d
      else if userID u = 0 then (\<exists>i. i \<noteq> 0 \<and> i \<notin> userID ` set (rows d) \<and> rows d' = rows d @ [u\<lparr>userID := i\<rparr>])
      else userID u \<in> userID ` set (rows d) \<longrightarrow> rows d' = map (\<lambda>v. if userID v = userID u then u else v) (rows d)))"

definition db_query_law :: "'d db_ops \<Rightarrow> ('d \<Rightarrow> User list) \<Rightarrow> bool" where
  "db_query_law ops rows \<longleftrightarrow>
     (\<forall>now d us. dbDue ops now d = Some us \<longrightarrow> us = filter (\<lambda>u. NextRenew u < now \<and> now \<le> PlanEnd u) (rows d)) \<and>
     (\<forall>now d us. dbOver ops now d = Some us \<longrightarrow> us = filter (\<lambda>u. PlanEnd u < now \<or> TrafficLimit u \<le> TrafficUsed u) (rows d))"

definition db_laws :: "(string \<Rightarrow> string \<Rightarrow> bool) \<Rightarrow> 'd db_ops \<Rightarrow> ('d \<Rightarrow> User list) \<Rightarrow> bool" where
  "db_laws coll ops rows \<longleftrightarrow> equivp coll \<and> db_create_law coll ops rows \<and> db_first_law coll ops rows \<and>
     db_update_law ops rows \<and> db_save_law ops rows \<and> db_query_law ops rows"

text \<open>A table kept as a list, which keeps the promises.\<close>

definition freeID :: "User list \<Rightarrow> nat" where
  "freeID us = Suc (Max (insert 0 (set (map userID us))))"

definition listDB :: "User list db_ops" where
  "listDB = \<lparr>
     dbCreate = (\<lambda>u d. if (\<exists>v \<in> set d. Email v = Email u) then (d, Some ''duplicate'') else (d @ [u\<lparr>userID := freeID d\<rparr>], None)),
     dbFirstEmail = (\<lambda>x d. find (\<lambda>u. Email u = x) d),
     dbFirstUUID = (\<lambda>x d. find (\<lambda>u. UUID u = x) d),
     dbFirstID = (\<lambda>i d. find (\<lambda>u. userID u = i) d),
     dbUpdateTraffic = (\<lambda>i n d. map (\<lambda>u. if userID u = i then u\<lparr>TrafficUsed := n\<rparr> else u) d),
     dbSave = (\<lambda>u d. if userID u = 0 then (d @ [u\<lparr>userID := freeID d\<rparr>], True)
                     else (map (\<lambda>v. if userID v = userID u then u else v) d, True)),
     dbDue = (\<lambda>now d. Some (filter (\<lambda>u. NextRenew u < now \<and> now \<le> PlanEnd u) d)),
     dbOver = (\<lambda>now d. Some (filter (\<lambda>u. PlanEnd u < now \<or> TrafficLimit u \<le> TrafficUsed u) d))\<rparr>"

section \<open>Lemmas\<close>

lemma freeID_fresh: "freeID us \<noteq> 0 \<and> freeID us \<notin> userID ` set us"
proof -
  have "i \<le> Max (insert 0 (set (map userID us)))" if "i \<in> userID ` set us" for i
    using that by (intro Max_ge) auto
  from this [of "freeID us"] show ?thesis unfolding freeID_def by linarith
qed

lemma listDB_laws: "db_laws (=) listDB (\<lambda>d. d)"
  using freeID_fresh
  by (auto simp: db_laws_def listDB_def db_create_law_def db_first_law_def db_update_law_def db_save_law_def
      db_query_law_def identity_equivp split: if_splits)

lemma find_append_none: "find P xs = None \<Longrightarrow> find P (xs @ ys) = find P ys"
  by (induction xs) auto

lemma find_distinct: "distinct (map f xs) \<Longrightarrow> x \<in> set xs \<Longrightarrow> find (\<lambda>y. f y = f x) xs = Some x"
  by (induction xs) (auto simp: image_iff)

lemma finalStatus_ginJSON [http_simps]: "finalStatus (ginJSON c b w) = (case wStatus w of None \<Rightarrow> c | Some x \<Rightarrow> x)"
  by (auto simp: ginJSON_def http_simps split: option.split)

lemma wStatus_ginJSON [http_simps]: "wStatus (ginJSON c b w) = (case wStatus w of None \<Rightarrow> Some c | Some x \<Rightarrow> Some x)"
  by (auto simp: ginJSON_def http_simps split: option.split)

lemma wBody_ginJSON [http_simps]: "wBody (ginJSON c b w) = wBody w @ [b]"
  by (simp add: ginJSON_def http_simps)

lemma db_lawsD:
  assumes "db_laws coll ops rows"
  shows "dbCreate ops u d = (d', None) \<Longrightarrow> (\<forall>v \<in> set (rows d). \<not> coll (Email v) (Email u)) \<and>
      (\<exists>i. i \<noteq> 0 \<and> i \<notin> userID ` set (rows d) \<and> rows d' = rows d @ [u\<lparr>userID := i\<rparr>])"
    and "dbFirstEmail ops x d = find (\<lambda>u. coll (Email u) x) (rows d)"
    and "dbFirstUUID ops x d = find (\<lambda>u. coll (UUID u) x) (rows d)"
    and "dbFirstID ops i d = find (\<lambda>u. userID u = i) (rows d)"
    and "rows (dbUpdateTraffic ops i n d) = map (\<lambda>u. if userID u = i then u\<lparr>TrafficUsed := n\<rparr> else u) (rows d)"
    and "coll x x" "coll x y \<Longrightarrow> coll y x" "coll x y \<Longrightarrow> coll y z \<Longrightarrow> coll x z"
proof -
  have law: "db_create_law coll ops rows" "db_first_law coll ops rows" "db_update_law ops rows" "equivp coll"
    using assms by (auto simp: db_laws_def)
  show "dbCreate ops u d = (d', None) \<Longrightarrow> (\<forall>v \<in> set (rows d). \<not> coll (Email v) (Email u)) \<and>
      (\<exists>i. i \<noteq> 0 \<and> i \<notin> userID ` set (rows d) \<and> rows d' = rows d @ [u\<lparr>userID := i\<rparr>])"
    using law(1) unfolding db_create_law_def by presburger
  show "coll x x" "coll x y \<Longrightarrow> coll y x" "coll x y \<Longrightarrow> coll y z \<Longrightarrow> coll x z"
    using law(4) by (blast dest: equivp_reflp equivp_symp equivp_transp)+
qed (use assms in \<open>auto simp: db_laws_def db_first_law_def db_update_law_def\<close>)

lemma db_save_lawD:
  assumes "db_laws coll ops rows" "dbSave ops u d = (d', True)"
  shows "userID u = 0 \<Longrightarrow> \<exists>i. i \<noteq> 0 \<and> i \<notin> userID ` set (rows d) \<and> rows d' = rows d @ [u\<lparr>userID := i\<rparr>]"
    and "userID u \<noteq> 0 \<Longrightarrow> userID u \<in> userID ` set (rows d) \<Longrightarrow>
      rows d' = map (\<lambda>v. if userID v = userID u then u else v) (rows d)"
proof -
  have "if userID u = 0 then (\<exists>i. i \<noteq> 0 \<and> i \<notin> userID ` set (rows d) \<and> rows d' = rows d @ [u\<lparr>userID := i\<rparr>])
      else userID u \<in> userID ` set (rows d) \<longrightarrow> rows d' = map (\<lambda>v. if userID v = userID u then u else v) (rows d)"
    using assms unfolding db_laws_def db_save_law_def by fastforce
  then show "userID u = 0 \<Longrightarrow> \<exists>i. i \<noteq> 0 \<and> i \<notin> userID ` set (rows d) \<and> rows d' = rows d @ [u\<lparr>userID := i\<rparr>]"
    "userID u \<noteq> 0 \<Longrightarrow> userID u \<in> userID ` set (rows d) \<Longrightarrow>
      rows d' = map (\<lambda>v. if userID v = userID u then u else v) (rows d)"
    by (auto split: if_splits)
qed

section \<open>Properties\<close>

text \<open>When the middleware lets a request through.\<close>

lemma RequireAuth_iff:
  "RequireAuth ops parse now tok d newWriter = Ret w' (Some u) \<longleftrightarrow> w' = newWriter \<and>
    tok \<noteq> [] \<and> (\<exists>claims e. parse tok = Token True claims \<and> claimExp claims = Some e \<and> unixTime now \<le> e \<and>
      dbFirstID ops (claimSub claims) d = Some u \<and> userID u \<noteq> 0)"
  by (auto simp: RequireAuth_def Let_def zeroUser_def not_less split: jwt_token.splits option.splits if_splits)

lemma RequireAuth_refused: "RequireAuth ops parse now tok d newWriter = Ret w' None \<Longrightarrow> finalStatus w' = StatusUnauthorized"
  by (auto simp: RequireAuth_def Let_def http_simps split: jwt_token.splits option.splits if_splits)

text \<open>The row a successful signup creates, and the answer of a login that finds its user.\<close>

lemma created_row:
  assumes "db_laws coll ops rows" "dbCreate ops (newUser now email hash uuid) d = (d', None)"
  shows "\<exists>i. i \<noteq> 0 \<and> i \<notin> userID ` set (rows d) \<and> rows d' = rows d @ [(newUser now email hash uuid)\<lparr>userID := i\<rparr>] \<and>
    dbFirstEmail ops email d' = Some ((newUser now email hash uuid)\<lparr>userID := i\<rparr>) \<and>
    dbFirstID ops i d' = Some ((newUser now email hash uuid)\<lparr>userID := i\<rparr>)"
proof -
  note laws = db_lawsD [OF assms(1)]
  obtain i where i: "i \<noteq> 0" "i \<notin> userID ` set (rows d)" "rows d' = rows d @ [(newUser now email hash uuid)\<lparr>userID := i\<rparr>]"
      "\<forall>v \<in> set (rows d). \<not> coll (Email v) email"
    using laws(1) [OF assms(2)] by (auto simp: newUser_def)
  have "find (\<lambda>u. coll (Email u) email) (rows d) = None" "find (\<lambda>u. userID u = i) (rows d) = None"
    using i(2,4) by (auto simp: find_None_iff)
  then show ?thesis using i laws(6) [of email] by (auto simp: laws(2,4) find_append_none newUser_def)
qed

lemma Login_ok:
  assumes "bindCredentials r = Some body" "dbFirstEmail ops (crEmail body) d = Some u" "userID u \<noteq> 0"
    and "compareHash (userPassword u) (crPassword body)"
    and "sign \<lparr>claimSub = userID u, claimExp = Some (unixTime (now + hour * 24 * 30))\<rparr> = Some t"
  shows "Login ops compareHash sign now r d tokens w =
    (tokens(t \<mapsto> now + hour * 24 * 30), ginJSON StatusOK (JObj [(''token'', JStr t)]) w)"
  using assms by (simp add: Login_def Let_def)

text \<open>
  C26: the handlers behind \<open>RequireAuth\<close> run exactly when the request carries a token that verifies,
  is not expired and names an existing user, and then they see that user; otherwise the middleware
  has sent 401 or panicked. The missing returns after its aborts do no harm.
\<close>

theorem require_auth_sound:
  "((\<exists>w'. RequireAuth ops parse now tok d newWriter = Ret w' (Some u)) \<longleftrightarrow>
    tok \<noteq> [] \<and> (\<exists>claims e. parse tok = Token True claims \<and> claimExp claims = Some e \<and> unixTime now \<le> e \<and>
      dbFirstID ops (claimSub claims) d = Some u \<and> userID u \<noteq> 0)) \<and>
   (\<forall>w'. RequireAuth ops parse now tok d newWriter = Ret w' None \<longrightarrow> finalStatus w' = StatusUnauthorized)"
  by (simp add: RequireAuth_iff) (auto dest: RequireAuth_refused)

text \<open>
  A user who signs up, under an email the table does not have, can log in with the same
  credentials: the login finds the new row, with the Premium plan, and answers 200 with the token
  signed for its id.
\<close>

theorem signup_then_login:
  assumes "db_laws coll ops rows" "bindCredentials r = Some body" "bindCredentials r' = Some body"
    and "hashPassword (crPassword body) = Some hash" "compareHash hash (crPassword body)"
    and "dbCreate ops (newUser now (crEmail body) hash uuid) d = (d', None)"
    and "\<forall>claims. sign claims \<noteq> None"
  shows "\<exists>i t m. Signup ops hashPassword uuid now r d newWriter = (d', ginJSON StatusOK (JObj []) newWriter) \<and>
    dbFirstEmail ops (crEmail body) d' = Some ((newUser now (crEmail body) hash uuid)\<lparr>userID := i\<rparr>) \<and>
    sign \<lparr>claimSub = i, claimExp = Some (unixTime (now' + hour * 24 * 30))\<rparr> = Some t \<and>
    Login ops compareHash sign now' r' d' tokens newWriter = (m, ginJSON StatusOK (JObj [(''token'', JStr t)]) newWriter)"
proof -
  let ?u = "newUser now (crEmail body) hash uuid"
  obtain i where i: "i \<noteq> 0" "dbFirstEmail ops (crEmail body) d' = Some (?u\<lparr>userID := i\<rparr>)"
    using created_row [OF assms(1,6)] by blast
  obtain t where t: "sign \<lparr>claimSub = i, claimExp = Some (unixTime (now' + hour * 24 * 30))\<rparr> = Some t"
    using assms(7) by blast
  have "Signup ops hashPassword uuid now r d newWriter = (d', ginJSON StatusOK (JObj []) newWriter)"
    using assms(2,4,6) by (simp add: Signup_def)
  moreover have "Login ops compareHash sign now' r' d' tokens newWriter =
      (tokens(t \<mapsto> now' + hour * 24 * 30), ginJSON StatusOK (JObj [(''token'', JStr t)]) newWriter)"
    using Login_ok [OF assms(3) i(2)] i(1) t assms(5) by (simp add: newUser_def)
  ultimately show ?thesis using i t by blast
qed

text \<open>
  The token of a successful login authenticates the same user, as long as the row exists, until
  30 days after the login. The token library is assumed to verify an unexpired token it signed.
\<close>

theorem login_token_authenticates:
  assumes "db_laws coll ops rows"
    and "\<forall>claims t e. sign claims = Some t \<longrightarrow> claimExp claims = Some e \<longrightarrow> unixTime now' < e \<longrightarrow> t \<noteq> [] \<and> parse t = Token True claims"
    and "distinct (map userID (rows d))" "bindCredentials r = Some body"
    and "Login ops compareHash sign now r d m newWriter = (m', ginJSON StatusOK (JObj [(''token'', JStr tok)]) newWriter)"
    and "unixTime now' < unixTime (now + hour * 24 * 30)"
  shows "\<exists>u. dbFirstEmail ops (crEmail body) d = Some u \<and> compareHash (userPassword u) (crPassword body) \<and>
    RequireAuth ops parse now' tok d newWriter = Ret newWriter (Some u)"
proof -
  note laws = db_lawsD [OF assms(1)]
  let ?user = "case dbFirstEmail ops (crEmail body) d of None \<Rightarrow> zeroUser | Some u \<Rightarrow> u"
  let ?claims = "\<lparr>claimSub = userID ?user, claimExp = Some (unixTime (now + hour * 24 * 30))\<rparr>"
  have ok: "userID ?user \<noteq> 0" "compareHash (userPassword ?user) (crPassword body)" "sign ?claims = Some tok"
    using assms(4,5) by (auto simp: Login_def Let_def ginJSON_def writeBody_def writeHeader_def newWriter_def jsonError_def split: if_splits option.splits)
  then obtain u where u: "dbFirstEmail ops (crEmail body) d = Some u" by (cases "dbFirstEmail ops (crEmail body) d") (auto simp: zeroUser_def)
  then have "u \<in> set (rows d)" using laws(2) by (metis find_Some_iff nth_mem)
  then have "dbFirstID ops (userID u) d = Some u"
    unfolding laws(4) by (rule find_distinct [OF assms(3)])
  with ok u assms(2,6) show ?thesis by (auto simp: RequireAuth_def Let_def)
qed

text \<open>Ids are unique, and so are the users' UUIDs under the collation.\<close>

definition keyed :: "(string \<Rightarrow> string \<Rightarrow> bool) \<Rightarrow> User list \<Rightarrow> bool" where
  "keyed coll us \<longleftrightarrow> distinct (map userID us) \<and>
     (\<forall>u \<in> set us. \<forall>v \<in> set us. coll (UUID u) (UUID v) \<longrightarrow> userID u = userID v)"

definition reportedTraffic :: "(string \<Rightarrow> string \<Rightarrow> bool) \<Rightarrow> traffic_entry list \<Rightarrow> User \<Rightarrow> int" where
  "reportedTraffic coll reports u = sum_list (map trTraffic (filter (\<lambda>r. coll (UUID u) (trUUID r)) reports))"

lemma distinct_keyed_eq: "distinct (map f xs) \<Longrightarrow> x \<in> set xs \<Longrightarrow> y \<in> set xs \<Longrightarrow> f x = f y \<Longrightarrow> x = y"
  by (simp add: distinct_map inj_on_def)

lemma keyed_map:
  assumes "keyed coll us" "\<And>u. userID (f u) = userID u" "\<And>u. UUID (f u) = UUID u"
  shows "keyed coll (map f us)"
proof -
  have "userID \<circ> f = userID" using assms(2) by auto
  then show ?thesis using assms by (simp add: keyed_def)
qed

lemma addTraffic_one:
  assumes laws: "db_laws coll ops rows" and key: "keyed coll (rows d)"
  shows "rows (case dbFirstUUID ops x d of None \<Rightarrow> d
      | Some user \<Rightarrow> dbUpdateTraffic ops (userID user) (wrap64 (TrafficUsed user + n)) d) =
    map (\<lambda>u. if coll (UUID u) x then u\<lparr>TrafficUsed := wrap64 (TrafficUsed u + n)\<rparr> else u) (rows d)"
proof (cases "dbFirstUUID ops x d")
  case None
  then have "\<forall>u \<in> set (rows d). \<not> coll (UUID u) x" by (simp add: db_lawsD(3) [OF laws] find_None_iff)
  then have "map (\<lambda>u. if coll (UUID u) x then u\<lparr>TrafficUsed := wrap64 (TrafficUsed u + n)\<rparr> else u) (rows d) = rows d"
    by (auto intro: map_idI)
  with None show ?thesis by simp
next
  case (Some v)
  then have v: "v \<in> set (rows d)" "coll (UUID v) x" by (auto simp: db_lawsD(3) [OF laws] find_Some_iff)
  have "(if userID u = userID v then u\<lparr>TrafficUsed := wrap64 (TrafficUsed v + n)\<rparr> else u) =
      (if coll (UUID u) x then u\<lparr>TrafficUsed := wrap64 (TrafficUsed u + n)\<rparr> else u)" if u: "u \<in> set (rows d)" for u
  proof (cases "u = v")
    case False
    have dist: "distinct (map userID (rows d))" using key by (simp add: keyed_def)
    have "userID u \<noteq> userID v" using distinct_keyed_eq [OF dist u v(1)] False by blast
    moreover have "\<not> coll (UUID u) x"
    proof
      assume "coll (UUID u) x"
      then have "coll (UUID u) (UUID v)" using v(2) db_lawsD(7,8) [OF laws] by blast
      with key u v(1) \<open>userID u \<noteq> userID v\<close> show False by (simp add: keyed_def)
    qed
    ultimately show ?thesis by simp
  qed (use v in simp)
  with Some show ?thesis by (simp add: db_lawsD(5) [OF laws])
qed

lemma addTrafficLoop_rows:
  assumes "db_laws coll ops rows" "keyed coll (rows d)" "\<forall>u \<in> set (rows d). inInt64 (TrafficUsed u)"
  shows "rows (addTrafficLoop ops reports d) =
    map (\<lambda>u. u\<lparr>TrafficUsed := wrap64 (TrafficUsed u + reportedTraffic coll reports u)\<rparr>) (rows d)"
  using assms(2,3)
proof (induction reports arbitrary: d)
  case Nil
  then show ?case by (auto simp: reportedTraffic_def wrap_simps intro!: map_idI [symmetric])
next
  case (Cons r reports)
  define d1 where "d1 = (case dbFirstUUID ops (trUUID r) d of None \<Rightarrow> d
      | Some user \<Rightarrow> dbUpdateTraffic ops (userID user) (wrap64 (TrafficUsed user + trTraffic r)) d)"
  have rows1: "rows d1 = map (\<lambda>u. if coll (UUID u) (trUUID r) then u\<lparr>TrafficUsed := wrap64 (TrafficUsed u + trTraffic r)\<rparr> else u) (rows d)"
    unfolding d1_def by (rule addTraffic_one [OF assms(1) Cons.prems(1)])
  have key1: "keyed coll (rows d1)" unfolding rows1 by (rule keyed_map [OF Cons.prems(1)]) auto
  have range1: "\<forall>u \<in> set (rows d1). inInt64 (TrafficUsed u)" using Cons.prems(2) by (auto simp: rows1)
  have "rows (addTrafficLoop ops (r # reports) d) = rows (addTrafficLoop ops reports d1)" by (simp add: d1_def)
  also have "\<dots> = map (\<lambda>u. u\<lparr>TrafficUsed := wrap64 (TrafficUsed u + reportedTraffic coll reports u)\<rparr>) (rows d1)"
    by (rule Cons.IH [OF key1 range1])
  also have "\<dots> = map (\<lambda>u. u\<lparr>TrafficUsed := wrap64 (TrafficUsed u + reportedTraffic coll (r # reports) u)\<rparr>) (rows d)"
    by (simp add: rows1 reportedTraffic_def wrap_simps add.assoc)
  finally show ?case .
qed

text \<open>
  A traffic report is added up exactly: afterwards every user's used traffic has grown by the sum
  of the entries with that user's UUID, however often it occurs, and nothing else of the table has
  changed. Entries for unknown users are skipped. The request needs no authentication.
\<close>

theorem AddTraffic_accumulates:
  assumes "db_laws coll ops rows" "keyed coll (rows d)" "\<forall>u \<in> set (rows d). inInt64 (TrafficUsed u)"
    and "rJson r = Some j" "decodeReports j = Some reports"
  shows "\<exists>d' w'. AddTraffic ops r d newWriter = (d', w') \<and> finalStatus w' = StatusOK \<and>
    rows d' = map (\<lambda>u. u\<lparr>TrafficUsed := wrap64 (TrafficUsed u + reportedTraffic coll reports u)\<rparr>) (rows d)"
  using assms(4,5) addTrafficLoop_rows [OF assms(1-3)] by (simp add: AddTraffic_def http_simps)

text \<open>
  \<open>SetPlan\<close> does not check its key: with a wrong key it answers 403, and still saves the same row
  as with the right one.
\<close>

theorem SetPlan_ignores_key:
  assumes "param ''regkey'' \<noteq> regkey"
  shows "finalStatus (snd (SetPlan ops enc regkey param now d newWriter)) = 403 \<and>
    fst (SetPlan ops enc regkey param now d newWriter) = fst (SetPlan ops enc (param ''regkey'') param now d newWriter)"
proof -
  let ?w1 = "ginJSON 403 (jsonError ''Invalid registration key'') newWriter"
  have sent: "wStatus (ginJSON c b v) = Some x" if "wStatus v = Some x" for c b v and x :: nat
    using that by (simp add: http_simps)
  have keep: "wStatus (if P then ginJSON c b v else v) = Some x" if "wStatus v = Some x" for P c b v and x :: nat
    using that sent by simp
  have "wStatus ?w1 = Some 403" by (simp add: http_simps)
  then have "wStatus (snd (SetPlan ops enc (param ''regkey'') param now d ?w1)) = Some 403"
    by (auto simp: SetPlan_def Let_def case_prod_beta intro!: sent keep)
  moreover have "SetPlan ops enc regkey param now d newWriter = SetPlan ops enc (param ''regkey'') param now d ?w1"
    by (simp only: SetPlan_def assms simp_thms if_True if_False not_True_eq_False not_False_eq_True)
  moreover have "fst (SetPlan ops enc (param ''regkey'') param now d v) = fst (SetPlan ops enc (param ''regkey'') param now d newWriter)" for v
    by (simp add: SetPlan_def Let_def case_prod_beta)
  ultimately show ?thesis by (simp add: finalStatus_def)
qed

text \<open>
  The route of \<open>SetPlan\<close> has no path parameters, so \<open>c.Param\<close> returns empty strings, no user is
  found and the zero row is saved: each request adds a blank user to the table (when the save
  succeeds), whatever the caller knows.
\<close>

theorem SetPlan_route_adds_blank_user:
  assumes "db_laws coll ops rows" "\<forall>u \<in> set (rows d). \<not> coll (UUID u) []"
    and "snd (dbSave ops zeroUser d)" "param = (\<lambda>_. [])"
  shows "\<exists>i. i \<noteq> 0 \<and> i \<notin> userID ` set (rows d) \<and>
    rows (fst (SetPlan ops enc regkey param now d w)) = rows d @ [zeroUser\<lparr>userID := i\<rparr>]"
proof -
  have none: "dbFirstUUID ops [] d = None" using assms(2) by (simp add: db_lawsD(3) [OF assms(1)] find_None_iff)
  then have "fst (SetPlan ops enc regkey param now d w) = fst (dbSave ops zeroUser d)"
    by (simp add: SetPlan_def assms(4) Let_def case_prod_beta)
  moreover obtain d' where d': "dbSave ops zeroUser d = (d', True)" using assms(3) by (metis prod.collapse)
  ultimately show ?thesis using db_save_lawD(1) [OF assms(1) d'] by (simp add: zeroUser_def)
qed

section \<open>Concrete runs\<close>

definition credentialsRequest :: "string \<Rightarrow> string \<Rightarrow> request" where
  "credentialsRequest email password = \<lparr>rMethod = POST, rPath = [], rQuery = (\<lambda>_. []), rHeader = (\<lambda>_. []),
     rRemoteAddr = [], rBody = Some [], rJson = Some (JObj [(''Email'', JStr email), (''Password'', JStr password)])\<rparr>"

lemma bind_credentialsRequest: "bindCredentials (credentialsRequest e p) = Some \<lparr>crEmail = e, crPassword = p\<rparr>"
  by (simp add: bindCredentials_def credentialsRequest_def onField_def keyMatches_def foldChar_def)

text \<open>Stand-ins for bcrypt and jwt that satisfy what is assumed of them.\<close>

definition demoSign :: "jwt_claims \<Rightarrow> string option" where
  "demoSign c = Some (replicate (claimSub c) CHR ''i'' @ CHR ''.'' #
     (case claimExp c of None \<Rightarrow> [] | Some e \<Rightarrow> CHR ''e'' # itoa e))"

definition alice :: User where
  "alice = (newUser 0 ''alice'' ''h:pw'' ''u-1'')\<lparr>userID := 1\<rparr>"

theorem signup_then_login_witness:
  "\<exists>i t m. Signup listDB (\<lambda>p. Some (''h:'' @ p)) ''u-1'' 0 (credentialsRequest ''alice'' ''pw'') [] newWriter =
       ([alice], ginJSON StatusOK (JObj []) newWriter) \<and>
     Login listDB (\<lambda>h p. h = ''h:'' @ p) demoSign 5 (credentialsRequest ''alice'' ''pw'') [alice] Map.empty newWriter =
       (m, ginJSON StatusOK (JObj [(''token'', JStr t)]) newWriter)"
proof -
  have create: "dbCreate listDB (newUser 0 (crEmail \<lparr>crEmail = ''alice'', crPassword = ''pw''\<rparr>) ''h:pw'' ''u-1'') [] = ([alice], None)"
    by (simp add: listDB_def alice_def freeID_def)
  have bcrypt: "Some (''h:'' @ crPassword \<lparr>crEmail = ''alice'', crPassword = ''pw''\<rparr>) = Some ''h:pw''"
      "''h:pw'' = ''h:'' @ crPassword \<lparr>crEmail = ''alice'', crPassword = ''pw''\<rparr>" "\<forall>claims. demoSign claims \<noteq> None"
    by (simp_all add: demoSign_def)
  from signup_then_login [where hashPassword = "\<lambda>p. Some (''h:'' @ p)" and compareHash = "\<lambda>h p. h = ''h:'' @ p" and sign = demoSign,
      OF listDB_laws bind_credentialsRequest bind_credentialsRequest bcrypt(1,2) create bcrypt(3), of 5 Map.empty]
  show ?thesis by blast
qed

definition demoParse :: "string \<Rightarrow> jwt_token" where
  "demoParse t = (if t = ''tok'' then Token True \<lparr>claimSub = 1, claimExp = Some 2592000\<rparr> else Token False \<lparr>claimSub = 0, claimExp = None\<rparr>)"

theorem require_auth_sound_witness:
  "(\<exists>w'. RequireAuth listDB demoParse 7 ''tok'' [alice] newWriter = Ret w' (Some alice)) \<and>
   (\<exists>w'. RequireAuth listDB demoParse 7 ''x'' [alice] newWriter = Ret w' None \<and> finalStatus w' = StatusUnauthorized)"
proof
  have "demoParse ''tok'' = Token True \<lparr>claimSub = 1, claimExp = Some 2592000\<rparr>" "unixTime 7 \<le> 2592000"
      "dbFirstID listDB 1 [alice] = Some alice" "userID alice \<noteq> 0"
    by (simp_all add: demoParse_def listDB_def alice_def unixTime_def second_def)
  then have "''tok'' \<noteq> [] \<and> (\<exists>claims e. demoParse ''tok'' = Token True claims \<and> claimExp claims = Some e \<and> unixTime 7 \<le> e \<and>
      dbFirstID listDB (claimSub claims) [alice] = Some alice \<and> userID alice \<noteq> 0)" by simp
  then show "\<exists>w'. RequireAuth listDB demoParse 7 ''tok'' [alice] newWriter = Ret w' (Some alice)"
    by (rule require_auth_sound [THEN conjunct1, THEN iffD2])
  obtain w' where w': "RequireAuth listDB demoParse 7 ''x'' [alice] newWriter = Ret w' None"
    by (simp add: RequireAuth_def demoParse_def)
  with require_auth_sound [of listDB demoParse 7 "''x''" "[alice]"]
  show "\<exists>w'. RequireAuth listDB demoParse 7 ''x'' [alice] newWriter = Ret w' None \<and> finalStatus w' = StatusUnauthorized" by blast
qed

text \<open>A signer that knows one user and one login time.\<close>

definition oneSign :: "jwt_claims \<Rightarrow> string option" where
  "oneSign c = (if c = \<lparr>claimSub = 1, claimExp = Some 2592000\<rparr> then Some ''tok'' else None)"

theorem login_token_authenticates_witness:
  "RequireAuth listDB demoParse 7 ''tok'' [alice] newWriter = Ret newWriter (Some alice)"
proof -
  have exp: "unixTime (0 + hour * 24 * 30) = 2592000" by (simp add: unixTime_def hour_def minute_def second_def nanosecond_def)
  have login: "Login listDB (\<lambda>h p. h = ''h:'' @ p) oneSign 0 (credentialsRequest ''alice'' ''pw'') [alice] Map.empty newWriter =
      ([''tok'' \<mapsto> 0 + hour * 24 * 30], ginJSON StatusOK (JObj [(''token'', JStr ''tok'')]) newWriter)"
    using exp by (simp add: Login_def bind_credentialsRequest listDB_def alice_def newUser_def oneSign_def Let_def)
  have jwt: "\<forall>claims t e. oneSign claims = Some t \<longrightarrow> claimExp claims = Some e \<longrightarrow> unixTime 7 < e \<longrightarrow> t \<noteq> [] \<and> demoParse t = Token True claims"
    by (auto simp: oneSign_def demoParse_def split: if_splits)
  have "unixTime 7 < unixTime (0 + hour * 24 * 30)" by (simp only: exp) (simp add: unixTime_def second_def)
  from login_token_authenticates [OF listDB_laws jwt _ bind_credentialsRequest login this]
  have "\<exists>u. dbFirstEmail listDB ''alice'' [alice] = Some u \<and> RequireAuth listDB demoParse 7 ''tok'' [alice] newWriter = Ret newWriter (Some u)"
    by auto
  then show ?thesis by (auto simp: listDB_def alice_def newUser_def)
qed

definition reportRequest :: "json \<Rightarrow> request" where
  "reportRequest j = (credentialsRequest [] [])\<lparr>rPath := ''/traffic'', rJson := Some j\<rparr>"

theorem AddTraffic_accumulates_witness:
  "\<exists>d' w'. AddTraffic listDB (reportRequest (JArr [JObj [(''traffic'', JInt 5), (''uuid'', JStr ''u-1'')],
       JObj [(''traffic'', JInt 7), (''uuid'', JStr ''u-1'')], JObj [(''traffic'', JInt 9), (''uuid'', JStr ''x'')]])) [alice] newWriter = (d', w') \<and>
     d' = [alice\<lparr>TrafficUsed := 12\<rparr>]"
proof -
  let ?j = "JArr [JObj [(''traffic'', JInt 5), (''uuid'', JStr ''u-1'')],
       JObj [(''traffic'', JInt 7), (''uuid'', JStr ''u-1'')], JObj [(''traffic'', JInt 9), (''uuid'', JStr ''x'')]]"
  have dec: "decodeReports ?j = Some [\<lparr>trUUID = ''u-1'', trTraffic = 5\<rparr>, \<lparr>trUUID = ''u-1'', trTraffic = 7\<rparr>, \<lparr>trUUID = ''x'', trTraffic = 9\<rparr>]"
    by (simp add: decodeReports_def trafficFields_def onField_def keyMatches_def foldChar_def inInt64_def minInt64_def maxInt64_def)
  have "keyed (=) [alice]" "\<forall>u \<in> set [alice]. inInt64 (TrafficUsed u)" "rJson (reportRequest ?j) = Some ?j"
    by (simp_all add: keyed_def reportRequest_def alice_def newUser_def inInt64_def minInt64_def maxInt64_def)
  from AddTraffic_accumulates [OF listDB_laws this dec] obtain d' w' where
    run: "AddTraffic listDB (reportRequest ?j) [alice] newWriter = (d', w')" and
    d': "d' = map (\<lambda>u. u\<lparr>TrafficUsed := wrap64 (TrafficUsed u + reportedTraffic (=)
       [\<lparr>trUUID = ''u-1'', trTraffic = 5\<rparr>, \<lparr>trUUID = ''u-1'', trTraffic = 7\<rparr>, \<lparr>trUUID = ''x'', trTraffic = 9\<rparr>] u)\<rparr>) [alice]"
    by blast
  have "d' = [alice\<lparr>TrafficUsed := 12\<rparr>]"
    unfolding d' by (simp add: alice_def newUser_def reportedTraffic_def wrap64_def)
  with run show ?thesis by blast
qed

theorem SetPlan_ignores_key_witness:
  "finalStatus (snd (SetPlan listDB (\<lambda>u. JNull) ''key'' (\<lambda>k. if k = ''uuid'' then ''u-1'' else if k = ''plan'' then ''Premium plan'' else ''bad'') 3 [alice] newWriter)) = 403 \<and>
   fst (SetPlan listDB (\<lambda>u. JNull) ''key'' (\<lambda>k. if k = ''uuid'' then ''u-1'' else if k = ''plan'' then ''Premium plan'' else ''bad'') 3 [alice] newWriter) =
     [alice\<lparr>TrafficLimit := 200 * 1000 * 1000 * 1000, NextRenew := 3 + 31 * 24 * hour\<rparr>]"
proof -
  let ?p = "\<lambda>k. if k = ''uuid'' then ''u-1'' else if k = ''plan'' then ''Premium plan'' else ''bad''"
  have "fst (SetPlan listDB (\<lambda>u. JNull) ''bad'' ?p 3 [alice] newWriter) =
      [alice\<lparr>TrafficLimit := 200 * 1000 * 1000 * 1000, NextRenew := 3 + 31 * 24 * hour\<rparr>]"
    by (simp add: SetPlan_def listDB_def alice_def newUser_def Let_def)
  with SetPlan_ignores_key [of ?p "''key''" listDB "\<lambda>u. JNull" 3 "[alice]"] show ?thesis by simp
qed

theorem SetPlan_route_adds_blank_user_witness:
  "\<exists>i. i \<noteq> 0 \<and> fst (SetPlan listDB (\<lambda>u. JNull) ''key'' (\<lambda>_. []) 3 [alice] newWriter) = [alice, zeroUser\<lparr>userID := i\<rparr>]"
  using SetPlan_route_adds_blank_user [OF listDB_laws, where d = "[alice]" and param = "\<lambda>_. []" and enc = "\<lambda>u. JNull" and
      regkey = "''key''" and now = 3 and w = newWriter]
  by (auto simp: alice_def newUser_def listDB_def zeroUser_def)

end
