(* ===== verification/Web_Connections.thy ===== *)
theory Web_Connections
  imports Web_Users Url
begin

text \<open>
  Model of the connection side of the web server: \<open>Connect\<close> and \<open>HeartbeatFromClient\<close> of
  src/web/controllers/controllers.go, the heartbeat monitor
  (src/web/controllers/clientHeartbeatMonitor.go) and the plan monitor
  (src/web/controllers/PlanMonitor.go). All share \<open>userConnectionMap\<close>.

  A handler is one atomic step. The heartbeat monitor is split where the code releases the lock:
  pruning, the snapshot, and one write-back for each user of the snapshot; handlers may run between.
  Ranges over Go maps go through a list of keys in any order. Requests to nodes are collected as
  values.
\<close>

section \<open>Model\<close>

definition MAX_CONNECTIONS_PER_USER :: nat where
  "MAX_CONNECTIONS_PER_USER = 2"

definition HEARTBEAT_TIMEOUT :: duration where
  "HEARTBEAT_TIMEOUT = 30 * second"

text \<open>\<open>RateMap[plan]\<close>, in bytes per second; 0 for an unknown plan.\<close>

definition RateMap :: "string \<Rightarrow> int" where
  "RateMap plan = (if plan = ''Free plan'' then 10 * 1000 * 1000 div 8
     else if plan = ''Premium plan'' then 200 * 1000 * 1000 div 8 else 0)"

record UserConnection =
  ucNodeIP :: string
  ucServiceID :: string
  ucNodePort :: string
  ucClientIP :: string
  ucLastHeartBeat :: time

type_synonym conn_map = "string \<rightharpoonup> UserConnection list"

text \<open>The answer of a node: an error of the client, or a status with its text and a body that cannot
  be read, is no JSON, or is JSON.\<close>

datatype node_body = ReadError string | NotJson string | JsonBody json

datatype node_response = NodeError string | NodeAnswer status string node_body

record connect_ctx =
  ccClientIP :: string
  ccServiceID :: string
  ccUser :: "User option"
  ccNow :: time
  ccLater :: time
  ccProviders :: "Registration list option"
  ccEnv :: "string \<Rightarrow> string"
  ccRequestOk :: bool
  ccDecodeError :: string
  ccResponse :: node_response

definition connectURL :: "string \<Rightarrow> string \<Rightarrow> string \<Rightarrow> string \<Rightarrow> string \<Rightarrow> int \<Rightarrow> string" where
  "connectURL nodeIP nodePort uuid email clientIP rate =
     ''http://'' @ (nodeIP @ '':'' @ nodePort) @ ''/connect?uuid='' @ uuid @ ''&email='' @ email @ ''&clientip='' @
     clientIP @ ''&rate='' @ itoa rate @ ''&burst='' @ itoa (wrap64 (rate * 3))"

definition decodePort :: "json \<Rightarrow> string option" where
  "decodePort j = decodeStruct [(''port'', onField decodeString (\<lambda>p. p) (\<lambda>v p. v))] j []"

definition addConnection :: "string \<Rightarrow> UserConnection \<Rightarrow> conn_map \<Rightarrow> conn_map" where
  "addConnection uuid conn m =
     (let userConnections = (case m uuid of None \<Rightarrow> [] | Some cs \<Rightarrow> cs);
          kept = (if length userConnections \<ge> MAX_CONNECTIONS_PER_USER then tl userConnections else userConnections)
      in m(uuid \<mapsto> kept @ [conn]))"

text \<open>\<open>Connect\<close> after the checks of the user: the map, the answer and the URL requested from the node.\<close>

definition connectNode ::
  "connect_ctx \<Rightarrow> User \<Rightarrow> conn_map \<Rightarrow> json writer \<Rightarrow> conn_map \<times> json writer \<times> string option" where
  "connectNode c userinfo m w =
     (case ccProviders c of
        None \<Rightarrow> (m, ginJSON StatusInternalServerError (jsonError ''Failed to fetch node service'') w, None)
      | Some regs \<Rightarrow>
          if regs = [] then (m, ginJSON StatusInternalServerError (jsonError ''Failed to fetch node service'') w, None)
          else
            (case find (\<lambda>reg. ServiceID reg = ccServiceID c) regs of
               None \<Rightarrow> (m, ginJSON StatusNotFound (jsonError ''Node service not found'') w, None)
             | Some server \<Rightarrow>
                 (let plan = (if Plan userinfo = [] then ''Free plan'' else Plan userinfo);
                      rate = RateMap plan;
                      url = connectURL (PublicIP server) (ccEnv c ''Node_Port'') (UUID userinfo) (Email userinfo) (ccClientIP c) rate
                  in if rate = 0
                     then (m, ginJSON StatusInternalServerError (jsonError ''Invalid plan or rate limit not set for the plan'') w, None)
                     else if \<not> ccRequestOk c
                     then (m, ginJSON StatusInternalServerError (jsonError ''Failed to create request to node service'') w, None)
                     else
                       (case ccResponse c of
                          NodeError msg \<Rightarrow>
                            (m, ginJSON StatusInternalServerError (jsonError (''Failed to connect to node service: '' @ msg)) w, Some url)
                        | NodeAnswer code statusText body \<Rightarrow>
                            if code \<noteq> StatusOK
                            then (m, ginJSON code (jsonError (''Failed to connect to node service, status code: '' @ statusText)) w, Some url)
                            else
                              (case body of
                                 ReadError msg \<Rightarrow>
                                   (m, ginJSON StatusInternalServerError (jsonError (''Failed to read response from node service: '' @ msg)) w, Some url)
                               | NotJson msg \<Rightarrow>
                                   (m, ginJSON StatusInternalServerError (jsonError (''Failed to read response from node service'' @ msg)) w, Some url)
                               | JsonBody j \<Rightarrow>
                                   (case decodePort j of
                                      None \<Rightarrow>
                                        (m, ginJSON StatusInternalServerError (jsonError (''Failed to read response from node service'' @ ccDecodeError c)) w, Some url)
                                    | Some port \<Rightarrow>
                                        (addConnection (UUID userinfo)
                                           \<lparr>ucNodeIP = PublicIP server, ucServiceID = ccServiceID c, ucNodePort = port,
                                            ucClientIP = ccClientIP c, ucLastHeartBeat = ccLater c\<rparr> m,
                                         ginJSON StatusOK (JObj [(''port'', JStr port), (''pubkey'', JStr (ccEnv c ''REALITY_PUBKEY'')),
                                           (''uuid'', JStr (UUID userinfo))]) w,
                                         Some url)))))))"

definition Connect :: "connect_ctx \<Rightarrow> conn_map \<Rightarrow> json writer \<Rightarrow> conn_map \<times> json writer \<times> string option" where
  "Connect c m w =
     (case ccUser c of
        None \<Rightarrow> (m, ginJSON StatusBadRequest (jsonError ''Failed to get user ID'') w, None)
      | Some userinfo \<Rightarrow>
          if PlanEnd userinfo < ccNow c
          then (m, ginJSON StatusForbidden
                 (jsonError ''Your plan has expired. Please renew your plan to continue using the service.'') w, None)
          else if TrafficUsed userinfo \<ge> TrafficLimit userinfo \<and> TrafficLimit userinfo \<noteq> -1
          then (m, ginJSON StatusForbidden (jsonError ''You have reached your traffic limit'') w, None)
          else connectNode c userinfo m w)"

text \<open>The loop of \<open>HeartbeatFromClient\<close>: the first connection to the service is refreshed.\<close>

fun refreshFirst :: "string \<Rightarrow> time \<Rightarrow> UserConnection list \<Rightarrow> UserConnection list \<times> bool" where
  "refreshFirst serviceID now [] = ([], False)"
| "refreshFirst serviceID now (conn # conns) =
     (if ucServiceID conn = serviceID then (conn\<lparr>ucLastHeartBeat := now\<rparr> # conns, True)
      else (case refreshFirst serviceID now conns of (conns', found) \<Rightarrow> (conn # conns', found)))"

definition HeartbeatFromClient ::
  "string \<Rightarrow> User option \<Rightarrow> time \<Rightarrow> conn_map \<Rightarrow> json writer \<Rightarrow> conn_map \<times> json writer" where
  "HeartbeatFromClient serviceID user now m w =
     (case user of
        None \<Rightarrow> (m, ginJSON StatusBadRequest (jsonError ''Failed to get user ID'') w)
      | Some userInfo \<Rightarrow>
          if serviceID = [] then (m, ginJSON StatusBadRequest (jsonError ''Missing serviceid or userid'') w)
          else
            (case m (UUID userInfo) of
               None \<Rightarrow> (m, ginJSON StatusNotFound (jsonError ''User not connected to any node service'') w)
             | Some conns \<Rightarrow>
                 (case refreshFirst serviceID now conns of
                    (conns', found) \<Rightarrow>
                      if \<not> found
                      then (m, ginJSON StatusNotFound (jsonError ''User not connected to the specified node service'') w)
                      else (m(UUID userInfo \<mapsto> conns'), ginJSON StatusOK (JObj []) w))))"

section \<open>The heartbeat monitor\<close>

definition nodeKnown :: "Registration list option \<Rightarrow> UserConnection \<Rightarrow> bool" where
  "nodeKnown providers conn \<longleftrightarrow>
     (\<exists>reg \<in> set (case providers of None \<Rightarrow> [] | Some regs \<Rightarrow> regs).
        ucServiceID conn = ServiceID reg \<and> ucNodeIP conn = PublicIP reg)"

text \<open>Keep the connections that satisfy a test; a user without any is deleted.\<close>

definition keepConns :: "UserConnection list \<Rightarrow> string \<Rightarrow> conn_map \<Rightarrow> conn_map" where
  "keepConns valid user m = (if valid = [] then m(user := None) else m(user \<mapsto> valid))"

fun pruneUsers :: "Registration list option \<Rightarrow> string list \<Rightarrow> conn_map \<Rightarrow> conn_map" where
  "pruneUsers providers [] m = m"
| "pruneUsers providers (user # users) m =
     pruneUsers providers users
       (case m user of None \<Rightarrow> m | Some conns \<Rightarrow> keepConns (filter (nodeKnown providers) conns) user m)"

definition takeSnapshot :: "string list \<Rightarrow> conn_map \<Rightarrow> (string \<times> UserConnection list) list" where
  "takeSnapshot order m = map (\<lambda>user. (user, the (m user))) order"

text \<open>\<open>m[key] = append(m[key], x)\<close> on a map given by its entries.\<close>

fun appendTo :: "'a \<Rightarrow> 'b \<Rightarrow> ('a \<times> 'b list) list \<Rightarrow> ('a \<times> 'b list) list" where
  "appendTo k x [] = [(k, [x])]"
| "appendTo k x ((k', xs) # rest) = (if k' = k then (k', xs @ [x]) # rest else (k', xs) # appendTo k x rest)"

definition freshConn :: "time \<Rightarrow> UserConnection \<Rightarrow> bool" where
  "freshConn now conn \<longleftrightarrow> timeSub now (ucLastHeartBeat conn) \<le> HEARTBEAT_TIMEOUT"

definition disconnectURL :: "string \<Rightarrow> UserConnection \<Rightarrow> string" where
  "disconnectURL nodePort conn = ''http://'' @ ucNodeIP conn @ '':'' @ nodePort @ ''/disconnect''"

fun timedOut :: "string \<Rightarrow> time \<Rightarrow> string \<Rightarrow> UserConnection list \<Rightarrow> (string \<times> string list) list \<Rightarrow> (string \<times> string list) list" where
  "timedOut nodePort now user [] acc = acc"
| "timedOut nodePort now user (conn # conns) acc =
     timedOut nodePort now user conns
       (if freshConn now conn then acc else appendTo (disconnectURL nodePort conn) user acc)"

text \<open>The write-back for one user of the snapshot.\<close>

definition writeBack :: "time \<Rightarrow> string \<times> UserConnection list \<Rightarrow> conn_map \<Rightarrow> conn_map" where
  "writeBack now entry m = keepConns (filter (freshConn now) (snd entry)) (fst entry) m"

fun processUsers ::
  "string \<Rightarrow> time \<Rightarrow> (string \<times> UserConnection list) list \<Rightarrow> conn_map \<Rightarrow> (string \<times> string list) list \<Rightarrow>
   conn_map \<times> (string \<times> string list) list" where
  "processUsers nodePort now [] m acc = (m, acc)"
| "processUsers nodePort now (entry # entries) m acc =
     processUsers nodePort now entries (writeBack now entry m) (timedOut nodePort now (fst entry) (snd entry) acc)"

text \<open>A round of \<open>StartHeartbeatMonitor\<close> with nothing in between: the map, and the batches it sends,
  each a URL with the users to disconnect.\<close>

definition heartbeatMonitorRound ::
  "Registration list option \<Rightarrow> string \<Rightarrow> time \<Rightarrow> string list \<Rightarrow> string list \<Rightarrow> conn_map \<Rightarrow> conn_map \<times> (string \<times> string list) list" where
  "heartbeatMonitorRound providers nodePort now order1 order2 m =
     (let m1 = pruneUsers providers order1 m
      in processUsers nodePort now (takeSnapshot order2 m1) m1 [])"

text \<open>The request \<open>sendDisconnectRequest\<close> makes, as the node sees it.\<close>

definition disconnectRequestTo :: "string \<Rightarrow> string list \<Rightarrow> string \<Rightarrow> request" where
  "disconnectRequestTo url uuids remote = \<lparr>rMethod = POST, rPath = fst (urlTarget url), rQuery = queryGet (snd (urlTarget url)),
     rHeader = (\<lambda>k. if k = ''Content-Type'' then ''application/json'' else []), rRemoteAddr = remote,
     rBody = Some [], rJson = Some (encodeStrings uuids)\<rparr>"

text \<open>What \<open>sendDisconnectRequest\<close> returns: the outcome is \<open>None\<close> for a transport error, else the status.\<close>

datatype disconnect_error = DisconnectUnsent | DisconnectRefused status

definition sendDisconnectRequest :: "status option \<Rightarrow> disconnect_error option" where
  "sendDisconnectRequest response =
     (case response of
        None \<Rightarrow> Some DisconnectUnsent
      | Some code \<Rightarrow> if code \<noteq> StatusOK then Some (DisconnectRefused code) else None)"

section \<open>The plan monitor\<close>

definition renewUser :: "User \<Rightarrow> User" where
  "renewUser u = u\<lparr>TrafficUsed := 0, NextRenew := NextRenew u + RenewCycle u\<rparr>"

fun saveAll :: "'d db_ops \<Rightarrow> User list \<Rightarrow> 'd \<Rightarrow> 'd \<times> bool" where
  "saveAll ops [] d = (d, True)"
| "saveAll ops (u # us) d = (case dbSave ops u d of (d1, ok) \<Rightarrow> if ok then saveAll ops us d1 else (d1, False))"

definition planURL :: "string \<Rightarrow> UserConnection \<Rightarrow> string" where
  "planURL nodePort conn = ''http://'' @ ucNodeIP conn @ '':'' @ nodePort"

fun dropUsers ::
  "string \<Rightarrow> User list \<Rightarrow> conn_map \<Rightarrow> (string \<times> string list) list \<Rightarrow> conn_map \<times> (string \<times> string list) list" where
  "dropUsers nodePort [] m acc = (m, acc)"
| "dropUsers nodePort (user # users) m acc =
     (case m (UUID user) of
        None \<Rightarrow> dropUsers nodePort users m acc
      | Some conns \<Rightarrow>
          dropUsers nodePort users (m(UUID user := None))
            (foldl (\<lambda>a conn. appendTo (planURL nodePort conn) (UUID user) a) acc conns))"

text \<open>A round of \<open>StartPlanMonitor\<close>. The first component says whether the goroutine goes on: after an
  error of the database it returns.\<close>

definition planMonitorRound ::
  "'d db_ops \<Rightarrow> string \<Rightarrow> time \<Rightarrow> 'd \<Rightarrow> conn_map \<Rightarrow> bool \<times> 'd \<times> conn_map \<times> (string \<times> string list) list" where
  "planMonitorRound ops nodePort now d m =
     (case dbDue ops now d of
        None \<Rightarrow> (False, d, m, [])
      | Some due \<Rightarrow>
          (case saveAll ops (map renewUser due) d of
             (d1, ok) \<Rightarrow>
               if \<not> ok then (False, d1, m, [])
               else
                 (case dbOver ops now d1 of
                    None \<Rightarrow> (False, d1, m, [])
                  | Some over \<Rightarrow>
                      (case dropUsers nodePort over m [] of (m1, urls) \<Rightarrow> (True, d1, m1, urls)))))"

section \<open>Interleavings\<close>

record web_state =
  conns :: conn_map
  snapshot :: "(string \<times> UserConnection list) list"

inductive web_step :: "web_state \<Rightarrow> web_state \<Rightarrow> bool" where
  connect: "web_step s (s\<lparr>conns := fst (Connect c (conns s) w)\<rparr>)"
| heartbeat: "web_step s (s\<lparr>conns := fst (HeartbeatFromClient sid u now (conns s) w)\<rparr>)"
| prune: "web_step s (s\<lparr>conns := pruneUsers providers order (conns s)\<rparr>)"
| snapshot: "set order \<subseteq> dom (conns s) \<Longrightarrow> web_step s (s\<lparr>snapshot := takeSnapshot order (conns s)\<rparr>)"
| writeback: "snapshot s = entry # rest \<Longrightarrow> web_step s (s\<lparr>conns := writeBack now entry (conns s), snapshot := rest\<rparr>)"
| plan: "web_step s (s\<lparr>conns := fst (dropUsers nodePort users (conns s) [])\<rparr>)"

inductive web_reach :: "web_state \<Rightarrow> bool" where
  init: "web_reach \<lparr>conns = Map.empty, snapshot = []\<rparr>"
| step: "web_reach s \<Longrightarrow> web_step s s' \<Longrightarrow> web_reach s'"

section \<open>Lemmas\<close>

text \<open>How \<open>Connect\<close> can succeed; in every other case the map is unchanged and the status is not 200.\<close>

lemma Connect_outcome:
  assumes "Connect c m newWriter = (m', w', req)"
  obtains (refused) "m' = m" "finalStatus w' \<noteq> StatusOK"
  | (granted) u regs server port statusText j where "ccUser c = Some u" "ccNow c \<le> PlanEnd u"
      "TrafficUsed u < TrafficLimit u \<or> TrafficLimit u = -1" "ccProviders c = Some regs" "server \<in> set regs"
      "ServiceID server = ccServiceID c" "RateMap (if Plan u = [] then ''Free plan'' else Plan u) \<noteq> 0"
      "ccResponse c = NodeAnswer StatusOK statusText (JsonBody j)" "decodePort j = Some port"
      "req = Some (connectURL (PublicIP server) (ccEnv c ''Node_Port'') (UUID u) (Email u) (ccClientIP c)
         (RateMap (if Plan u = [] then ''Free plan'' else Plan u)))"
      "m' = addConnection (UUID u) \<lparr>ucNodeIP = PublicIP server, ucServiceID = ccServiceID c, ucNodePort = port,
         ucClientIP = ccClientIP c, ucLastHeartBeat = ccLater c\<rparr> m" "finalStatus w' = StatusOK"
proof (cases "m' = m \<and> finalStatus w' \<noteq> StatusOK")
  case False
  then obtain u where u: "ccUser c = Some u" "ccNow c \<le> PlanEnd u" "TrafficUsed u < TrafficLimit u \<or> TrafficLimit u = -1"
      "connectNode c u m newWriter = (m', w', req)"
    using assms by (auto simp: Connect_def http_simps split: option.splits if_splits)
  obtain regs server where s: "ccProviders c = Some regs" "find (\<lambda>reg. ServiceID reg = ccServiceID c) regs = Some server"
    using u(4) False by (auto simp: connectNode_def http_simps split: option.splits if_splits)
  have server: "server \<in> set regs" "ServiceID server = ccServiceID c" using s(2) by (auto simp: find_Some_iff)
  have rate: "RateMap (if Plan u = [] then ''Free plan'' else Plan u) \<noteq> 0" "ccRequestOk c"
    using u(4) False s server(1) by (auto simp: connectNode_def http_simps Let_def split: if_splits)
  obtain statusText j port where "ccResponse c = NodeAnswer StatusOK statusText (JsonBody j)" "decodePort j = Some port"
    using u(4) False s server(1) rate
    by (auto simp: connectNode_def http_simps Let_def split: node_response.splits node_body.splits option.splits if_splits)
  with u s(1) s(2) server rate granted show thesis by (auto simp: connectNode_def http_simps Let_def split: if_splits)
qed (use refused in blast)

definition conn_ok :: "UserConnection list \<Rightarrow> bool" where
  "conn_ok cs \<longleftrightarrow> 1 \<le> length cs \<and> length cs \<le> MAX_CONNECTIONS_PER_USER"

definition web_inv :: "web_state \<Rightarrow> bool" where
  "web_inv s \<longleftrightarrow> (\<forall>u cs. conns s u = Some cs \<longrightarrow> conn_ok cs) \<and> (\<forall>e \<in> set (snapshot s). conn_ok (snd e))"

definition map_ok :: "conn_map \<Rightarrow> bool" where
  "map_ok m \<longleftrightarrow> (\<forall>u cs. m u = Some cs \<longrightarrow> conn_ok cs)"

lemma map_ok_upd: "map_ok m \<Longrightarrow> conn_ok cs \<Longrightarrow> map_ok (m(u \<mapsto> cs))" "map_ok m \<Longrightarrow> map_ok (m(u := None))"
  by (auto simp: map_ok_def)

lemma map_ok_keep: "map_ok m \<Longrightarrow> conn_ok cs \<Longrightarrow> map_ok (keepConns (filter P cs) u m)"
proof -
  assume m: "map_ok m" and cs: "conn_ok cs"
  have "length (filter P cs) \<le> MAX_CONNECTIONS_PER_USER" using cs le_trans [OF length_filter_le] unfolding conn_ok_def by blast
  then have "filter P cs \<noteq> [] \<Longrightarrow> conn_ok (filter P cs)" by (cases "filter P cs") (auto simp: conn_ok_def)
  with m show ?thesis by (simp add: keepConns_def map_ok_upd)
qed

lemma map_ok_add: "map_ok m \<Longrightarrow> map_ok (addConnection u c m)"
proof -
  assume m: "map_ok m"
  let ?old = "case m u of None \<Rightarrow> [] | Some cs \<Rightarrow> cs"
  have "length ?old \<le> 2" using m by (auto simp: map_ok_def conn_ok_def MAX_CONNECTIONS_PER_USER_def split: option.split)
  then show ?thesis unfolding addConnection_def Let_def
    by (intro map_ok_upd m) (auto simp: conn_ok_def MAX_CONNECTIONS_PER_USER_def)
qed

lemma map_ok_prune: "map_ok m \<Longrightarrow> map_ok (pruneUsers p us m)"
proof (induction us arbitrary: m)
  case (Cons u us)
  have "map_ok (case m u of None \<Rightarrow> m | Some cs \<Rightarrow> keepConns (filter (nodeKnown p) cs) u m)"
  proof (cases "m u")
    case (Some cs)
    then have "conn_ok cs" using Cons.prems unfolding map_ok_def by blast
    from map_ok_keep [OF Cons.prems this] Some show ?thesis by simp
  qed (use Cons.prems in simp)
  with Cons.IH show ?case by simp
qed simp

lemma map_ok_drop: "map_ok m \<Longrightarrow> map_ok (fst (dropUsers np us m acc))"
  by (induction us arbitrary: m acc) (auto simp: map_ok_upd split: option.split)

lemma length_refreshFirst: "length (fst (refreshFirst sid now cs)) = length cs"
  by (induction cs) (auto split: prod.split)

lemma map_ok_heartbeat: "map_ok m \<Longrightarrow> map_ok (fst (HeartbeatFromClient sid u now m w))"
proof -
  assume m: "map_ok m"
  then have "m v = Some cs \<Longrightarrow> conn_ok (fst (refreshFirst sid now cs))" for v cs
    by (simp add: map_ok_def conn_ok_def length_refreshFirst)
  with m show ?thesis
    by (auto simp: HeartbeatFromClient_def case_prod_beta split: option.split intro!: map_ok_upd)
qed

lemma web_step_inv: "web_step s s' \<Longrightarrow> web_inv s \<Longrightarrow> web_inv s'"
proof (induction rule: web_step.induct)
  case (connect s c w)
  have "fst (Connect c m w) = m \<or> (\<exists>u x. fst (Connect c m w) = addConnection u x m)" for m
    by (auto simp: Connect_def connectNode_def Let_def split: option.split node_response.split node_body.split)
  then have "map_ok (conns s) \<Longrightarrow> map_ok (fst (Connect c (conns s) w))" by (metis map_ok_add)
  with connect show ?case by (simp add: web_inv_def map_ok_def)
next
  case (heartbeat s sid u now w)
  with map_ok_heartbeat [of "conns s"] show ?case by (simp add: web_inv_def map_ok_def)
next
  case (prune s p order)
  with map_ok_prune [of "conns s"] show ?case by (simp add: web_inv_def map_ok_def)
next
  case (snapshot order s)
  then show ?case by (auto simp: web_inv_def takeSnapshot_def)
next
  case (writeback s entry rest now)
  then have "map_ok (writeBack now entry (conns s))"
    unfolding writeBack_def by (intro map_ok_keep) (auto simp: web_inv_def map_ok_def)
  with writeback show ?case by (simp add: web_inv_def map_ok_def)
next
  case (plan s np users)
  with map_ok_drop [of "conns s"] show ?case by (simp add: web_inv_def map_ok_def)
qed

interpretation web_system: invariant_system "\<lambda>s. s = \<lparr>conns = Map.empty, snapshot = []\<rparr>" web_step web_reach web_inv
proof
  show "web_reach s \<Longrightarrow> \<exists>s0. s0 = \<lparr>conns = Map.empty, snapshot = []\<rparr> \<and> web_step\<^sup>*\<^sup>* s0 s" for s
    by (induction rule: web_reach.induct) (auto intro: rtranclp.rtrancl_into_rtrancl)
qed (auto simp: web_inv_def [of "\<lparr>conns = Map.empty, snapshot = []\<rparr>"] intro: web_reach.intros web_step_inv)

lemmas web_reach_inv = web_system.reachable_inv

section \<open>Lemmas: the monitors\<close>

definition keep :: "(UserConnection \<Rightarrow> bool) \<Rightarrow> UserConnection list option \<Rightarrow> UserConnection list option" where
  "keep P entry = (case entry of None \<Rightarrow> None | Some cs \<Rightarrow> if filter P cs = [] then None else Some (filter P cs))"

lemma keepConns_apply: "keepConns cs u m v = (if v = u then (if cs = [] then None else Some cs) else m v)"
  by (simp add: keepConns_def)

lemma pruneUsers_result:
  "distinct order \<Longrightarrow> pruneUsers p order m u = (if u \<in> set order then keep (nodeKnown p) (m u) else m u)"
proof (induction order arbitrary: m)
  case (Cons v order)
  let ?m = "case m v of None \<Rightarrow> m | Some cs \<Rightarrow> keepConns (filter (nodeKnown p) cs) v m"
  have "?m u = (if u = v then keep (nodeKnown p) (m u) else m u)"
    by (cases "m v") (auto simp: keep_def keepConns_apply)
  with Cons.IH [of ?m] Cons.prems show ?case by auto
qed simp

lemma processUsers_map:
  "distinct (map fst entries) \<Longrightarrow> fst (processUsers np now entries m acc) u =
   (case map_of entries u of None \<Rightarrow> m u | Some cs \<Rightarrow> keep (freshConn now) (Some cs))"
proof (induction entries arbitrary: m acc)
  case (Cons e entries)
  have "map_of entries (fst e) = None" using Cons.prems by (auto simp: map_of_eq_None_iff)
  with Cons show ?case by (cases e) (auto simp: writeBack_def keepConns_apply keep_def split: option.split)
qed simp

text \<open>Whether a list of batches sends a user to a URL.\<close>

definition sentTo :: "(string \<times> string list) list \<Rightarrow> string \<Rightarrow> string \<Rightarrow> bool" where
  "sentTo batches url user \<longleftrightarrow> (\<exists>us. (url, us) \<in> set batches \<and> user \<in> set us)"

lemma sentTo_simps [simp]:
  "sentTo [] url u \<longleftrightarrow> False" "sentTo ((k, us) # bs) url u \<longleftrightarrow> (k = url \<and> u \<in> set us) \<or> sentTo bs url u"
  by (auto simp: sentTo_def)

lemma sentTo_appendTo: "sentTo (appendTo k x acc) url u \<longleftrightarrow> sentTo acc url u \<or> (url = k \<and> u = x)"
  by (induction k x acc rule: appendTo.induct) auto

lemma sentTo_timedOut:
  "sentTo (timedOut np now user cs acc) url u \<longleftrightarrow>
   sentTo acc url u \<or> (u = user \<and> (\<exists>c \<in> set cs. \<not> freshConn now c \<and> url = disconnectURL np c))"
  by (induction cs arbitrary: acc) (auto simp: sentTo_appendTo)

lemma sentTo_processUsers:
  "sentTo (snd (processUsers np now entries m acc)) url u \<longleftrightarrow>
   sentTo acc url u \<or> (\<exists>cs. (u, cs) \<in> set entries \<and> (\<exists>c \<in> set cs. \<not> freshConn now c \<and> url = disconnectURL np c))"
proof (induction entries arbitrary: m acc)
  case (Cons e entries)
  then show ?case by (cases e) (auto simp: sentTo_timedOut)
qed simp

lemma freshConn_iff: "freshConn now c \<longleftrightarrow> now - ucLastHeartBeat c \<le> 30 * second"
  by (simp add: freshConn_def HEARTBEAT_TIMEOUT_def timeSub_le_iff second_def minInt64_def maxInt64_def)

lemma takeSnapshot_map_of: "map_of (takeSnapshot order m) u = (if u \<in> set order then Some (the (m u)) else None)"
  by (induction order) (auto simp: takeSnapshot_def)

lemma keep_keep: "keep P (keep Q e) = keep (\<lambda>c. Q c \<and> P c) e"
proof (cases e)
  case (Some cs)
  have "filter P (filter Q cs) = filter (\<lambda>c. Q c \<and> P c) cs" by simp
  moreover have "filter Q cs = [] \<Longrightarrow> filter (\<lambda>c. Q c \<and> P c) cs = []" by (auto simp: filter_empty_conv)
  ultimately show ?thesis using Some by (simp add: keep_def)
qed (simp add: keep_def)

text \<open>A round without interference.\<close>

lemma heartbeatMonitorRound_result:
  assumes "distinct order1" "set order1 = dom m" "distinct order2" "set order2 = dom (pruneUsers providers order1 m)"
    and "heartbeatMonitorRound providers np now order1 order2 m = (m', batches)"
  shows "m' u = keep (\<lambda>c. nodeKnown providers c \<and> freshConn now c) (m u)"
    and "sentTo batches url u \<longleftrightarrow>
      (\<exists>cs. m u = Some cs \<and> (\<exists>c \<in> set cs. nodeKnown providers c \<and> \<not> freshConn now c \<and> url = disconnectURL np c))"
proof -
  let ?m1 = "pruneUsers providers order1 m"
  have m1: "?m1 v = keep (nodeKnown providers) (m v)" for v
    using assms(1,2) by (auto simp: pruneUsers_result keep_def split: option.split)
  have round: "processUsers np now (takeSnapshot order2 ?m1) ?m1 [] = (m', batches)"
    using assms(5) by (simp add: heartbeatMonitorRound_def Let_def)
  have dist: "distinct (map fst (takeSnapshot order2 ?m1))" using assms(3) by (simp add: takeSnapshot_def comp_def)
  have snap: "map_of (takeSnapshot order2 ?m1) v = ?m1 v" for v
    using assms(4) by (auto simp: takeSnapshot_map_of)
  have "m' u = (case ?m1 u of None \<Rightarrow> ?m1 u | Some cs \<Rightarrow> keep (freshConn now) (Some cs))"
    using processUsers_map [OF dist, of np now ?m1 "[]" u] round snap by simp
  then have "m' u = keep (freshConn now) (?m1 u)" by (cases "?m1 u") (simp_all add: keep_def)
  then show "m' u = keep (\<lambda>c. nodeKnown providers c \<and> freshConn now c) (m u)" by (simp add: m1 keep_keep)
  have "(u, cs) \<in> set (takeSnapshot order2 ?m1) \<longleftrightarrow> ?m1 u = Some cs" for cs
    using snap map_of_eq_Some_iff [OF dist] by metis
  then have "sentTo batches url u \<longleftrightarrow> (\<exists>cs. ?m1 u = Some cs \<and> (\<exists>c \<in> set cs. \<not> freshConn now c \<and> url = disconnectURL np c))"
    using sentTo_processUsers [of np now "takeSnapshot order2 ?m1" ?m1 "[]" url u] round by simp
  then show "sentTo batches url u \<longleftrightarrow>
      (\<exists>cs. m u = Some cs \<and> (\<exists>c \<in> set cs. nodeKnown providers c \<and> \<not> freshConn now c \<and> url = disconnectURL np c))"
    by (auto simp: m1 keep_def filter_empty_conv split: option.splits if_splits)
qed

text \<open>Repeated heartbeats for one service.\<close>

lemma refreshFirst_head: "ucServiceID c = sid \<Longrightarrow> refreshFirst sid t (c # cs) = (c\<lparr>ucLastHeartBeat := t\<rparr> # cs, True)"
  by simp

lemma heartbeats_first_only:
  assumes "m (UUID user) = Some (c # cs)" "ucServiceID c = sid" "sid \<noteq> []" "ts \<noteq> []"
  shows "foldl (\<lambda>m t. fst (HeartbeatFromClient sid (Some user) t m newWriter)) m ts (UUID user) =
    Some (c\<lparr>ucLastHeartBeat := last ts\<rparr> # cs)"
  using assms(4)
proof (induction ts rule: rev_nonempty_induct)
  case (single t)
  with assms show ?case by (simp add: HeartbeatFromClient_def)
next
  case (snoc t ts)
  with assms(2,3) show ?case by (simp add: HeartbeatFromClient_def)
qed

lemma saveAll_rows:
  assumes laws: "db_laws coll ops rows" and ok: "saveAll ops us d = (d', True)"
    and ids: "\<forall>u \<in> set us. userID u \<noteq> 0 \<and> userID u \<in> userID ` set (rows d)" "distinct (map userID us)"
  shows "rows d' = map (\<lambda>v. case find (\<lambda>u. userID u = userID v) us of None \<Rightarrow> v | Some u \<Rightarrow> u) (rows d)"
  using ok ids
proof (induction us arbitrary: d)
  case (Cons u us)
  obtain d1 where d1: "dbSave ops u d = (d1, True)" "saveAll ops us d1 = (d', True)"
    using Cons.prems(1) by (auto split: prod.splits if_splits)
  have rows1: "rows d1 = map (\<lambda>v. if userID v = userID u then u else v) (rows d)"
    using db_save_lawD(2) [OF laws d1(1)] Cons.prems(2) by simp
  have "map userID (rows d1) = map userID (rows d)" by (simp add: rows1)
  then have "userID ` set (rows d1) = userID ` set (rows d)" by (metis set_map)
  then have "rows d' = map (\<lambda>v. case find (\<lambda>u. userID u = userID v) us of None \<Rightarrow> v | Some u \<Rightarrow> u) (rows d1)"
    using Cons.IH [OF d1(2)] Cons.prems(2,3) by simp
  moreover have "find (\<lambda>x. userID x = userID u) us = None"
    using Cons.prems(3) by (auto simp: find_None_iff image_iff)
  ultimately show ?case by (auto simp: rows1)
qed simp

section \<open>Properties\<close>

text \<open>
  C32: however requests and both monitors interleave, no user ever has more than two entries in the
  connection table, and no user has an empty list of entries.
\<close>

theorem web_connections_bounded:
  assumes "web_reach s"
  shows "\<forall>u cs. conns s u = Some cs \<longrightarrow> 1 \<le> length cs \<and> length cs \<le> 2"
  using web_reach_inv [OF assms] by (auto simp: web_inv_def conn_ok_def MAX_CONNECTIONS_PER_USER_def)

text \<open>
  C31: \<open>Connect\<close> records a connection, and answers 200, only for an authenticated user whose plan has
  not ended and whose traffic is below the limit or unlimited, on a node the registry lists under
  the requested id, after that node answered 200; the request to the node carries the rate of the
  user's plan. In every other case the table is unchanged.
\<close>

theorem connect_grants_only:
  assumes "Connect c m newWriter = (m', w', req)" "m' \<noteq> m \<or> finalStatus w' = StatusOK"
  shows "\<exists>u regs server port. ccUser c = Some u \<and> ccNow c \<le> PlanEnd u \<and>
    (TrafficUsed u < TrafficLimit u \<or> TrafficLimit u = -1) \<and>
    ccProviders c = Some regs \<and> server \<in> set regs \<and> ServiceID server = ccServiceID c \<and>
    req = Some (connectURL (PublicIP server) (ccEnv c ''Node_Port'') (UUID u) (Email u) (ccClientIP c)
      (RateMap (if Plan u = [] then ''Free plan'' else Plan u))) \<and>
    (\<exists>statusText body. ccResponse c = NodeAnswer StatusOK statusText body) \<and>
    m' = addConnection (UUID u) \<lparr>ucNodeIP = PublicIP server, ucServiceID = ccServiceID c, ucNodePort = port,
      ucClientIP = ccClientIP c, ucLastHeartBeat = ccLater c\<rparr> m"
  using assms(1)
proof (cases rule: Connect_outcome)
  case refused
  with assms(2) show ?thesis by blast
qed blast

text \<open>
  A third connection evicts the user's oldest entry from the table and sends nothing to the
  evicted node: the only request made is the connect to the new node.
\<close>

theorem third_connection_evicts_silently:
  assumes "Connect c m newWriter = (m', w', req)" "finalStatus w' = StatusOK"
    and "ccUser c = Some u" "m (UUID u) = Some [c1, c2]"
  shows "\<exists>new :: UserConnection. \<exists>server :: Registration. m' (UUID u) = Some [c2, new] \<and> ucServiceID new = ccServiceID c \<and>
    req = Some (connectURL (PublicIP server) (ccEnv c ''Node_Port'') (UUID u) (Email u) (ccClientIP c)
      (RateMap (if Plan u = [] then ''Free plan'' else Plan u)))"
  using assms(1)
proof (cases rule: Connect_outcome)
  case refused
  with assms(2) show ?thesis by blast
next
  case (granted v regs server port statusText j)
  then have "v = u" using assms(3) by simp
  let ?new = "\<lparr>ucNodeIP = PublicIP server, ucServiceID = ccServiceID c, ucNodePort = port,
      ucClientIP = ccClientIP c, ucLastHeartBeat = ccLater c\<rparr>"
  have "m' (UUID u) = Some [c2, ?new]"
    using granted(11) \<open>v = u\<close> assms(4) by (simp add: addConnection_def MAX_CONNECTIONS_PER_USER_def)
  with granted(10) [unfolded \<open>v = u\<close>] have "m' (UUID u) = Some [c2, ?new] \<and> ucServiceID ?new = ccServiceID c \<and>
      req = Some (connectURL (PublicIP server) (ccEnv c ''Node_Port'') (UUID u) (Email u) (ccClientIP c)
        (RateMap (if Plan u = [] then ''Free plan'' else Plan u)))" by simp
  then show ?thesis by blast
qed

text \<open>
  C15: a round of the heartbeat monitor, undisturbed and in any order of its ranges, keeps for every
  user exactly the connections to nodes the registry still lists with a heartbeat at most 30 seconds
  old, and asks to disconnect exactly the connections to listed nodes with an older heartbeat, each
  at its own node.
\<close>

theorem heartbeat_monitor_exact:
  assumes "distinct order1" "set order1 = dom m" "distinct order2" "set order2 = dom (pruneUsers providers order1 m)"
    and "heartbeatMonitorRound providers np now order1 order2 m = (m', batches)"
  shows "(\<forall>u. m' u = keep (\<lambda>c. nodeKnown providers c \<and> now - ucLastHeartBeat c \<le> 30 * second) (m u)) \<and>
    (\<forall>url u. sentTo batches url u \<longleftrightarrow>
      (\<exists>cs. m u = Some cs \<and> (\<exists>c \<in> set cs. nodeKnown providers c \<and> now - ucLastHeartBeat c > 30 * second \<and>
         url = disconnectURL np c)))"
  using heartbeatMonitorRound_result [OF assms] by (simp add: freshConn_iff not_le)

text \<open>
  When the registry's list of nodes cannot be had, a round of the heartbeat monitor empties the
  whole table and disconnects nobody.
\<close>

theorem monitor_without_providers_drops_all:
  assumes "distinct order1" "set order1 = dom m" "set order2 = dom (pruneUsers None order1 m)"
  shows "heartbeatMonitorRound None np now order1 order2 m = (Map.empty, [])"
proof -
  have "pruneUsers None order1 m u = None" for u
    using assms(1,2) by (auto simp: pruneUsers_result keep_def nodeKnown_def split: option.split)
  then have "pruneUsers None order1 m = Map.empty" by auto
  with assms(3) show ?thesis by (simp add: heartbeatMonitorRound_def takeSnapshot_def)
qed

text \<open>
  A user who connects twice to the same node keeps only the first entry alive: heartbeats for
  that node never refresh the second entry, and once its connect time is more than 30 seconds ago
  the monitor tells the node to disconnect the user, who is still sending heartbeats.
\<close>

theorem double_connect_disconnects_live_user:
  assumes "m (UUID user) = Some [c1, c2]" "ucServiceID c1 = sid" "ucServiceID c2 = sid" "sid \<noteq> []"
    and "nodeKnown providers c1" "nodeKnown providers c2" "ts \<noteq> []"
    and "now - last ts \<le> 30 * second" "now - ucLastHeartBeat c2 > 30 * second"
    and "m1 = foldl (\<lambda>m t. fst (HeartbeatFromClient sid (Some user) t m newWriter)) m ts"
    and "distinct order1" "set order1 = dom m1" "distinct order2" "set order2 = dom (pruneUsers providers order1 m1)"
    and "heartbeatMonitorRound providers np now order1 order2 m1 = (m', batches)"
  shows "m' (UUID user) = Some [c1\<lparr>ucLastHeartBeat := last ts\<rparr>] \<and> sentTo batches (disconnectURL np c2) (UUID user)"
proof -
  have m1: "m1 (UUID user) = Some [c1\<lparr>ucLastHeartBeat := last ts\<rparr>, c2]"
    using heartbeats_first_only [where m = m and user = user and c = c1 and cs = "[c2]", OF assms(1,2,4,7)] assms(10) by simp
  have c1: "nodeKnown providers (c1\<lparr>ucLastHeartBeat := last ts\<rparr>)" "freshConn now (c1\<lparr>ucLastHeartBeat := last ts\<rparr>)"
    using assms(5,8) by (simp_all add: nodeKnown_def freshConn_iff)
  have c2: "\<not> freshConn now c2" using assms(9) by (simp add: freshConn_iff)
  show ?thesis using heartbeatMonitorRound_result [OF assms(11-15)] m1 c1 c2 assms(6) by (auto simp: keep_def)
qed

text \<open>
  A connection made between the monitor's snapshot and its write-back for that user is lost: the
  write-back replaces the user's entries by those of the snapshot, though the client got 200.
\<close>

theorem writeback_loses_connect:
  assumes "snapshot s = (UUID u, cs) # rest" "ccUser c = Some u"
    and "Connect c (conns s) newWriter = (m', w', req)" "finalStatus w' = StatusOK"
    and "\<forall>x \<in> set cs. ucLastHeartBeat x < ccLater c"
  shows "\<exists>s1 s2 new. web_step s s1 \<and> conns s1 = m' \<and> new \<in> set (the (m' (UUID u))) \<and> ucLastHeartBeat new = ccLater c \<and>
    web_step s1 s2 \<and> conns s2 (UUID u) = keep (freshConn now) (Some cs) \<and>
    (\<forall>cs'. conns s2 (UUID u) = Some cs' \<longrightarrow> new \<notin> set cs')"
proof -
  let ?s1 = "s\<lparr>conns := m'\<rparr>"
  let ?s2 = "?s1\<lparr>conns := writeBack now (UUID u, cs) (conns ?s1), snapshot := rest\<rparr>"
  have step1: "web_step s ?s1" using web_step.connect [of s c newWriter] assms(3) by simp
  have step2: "web_step ?s1 ?s2" using assms(1) by (intro web_step.writeback) simp
  have "\<exists>new. new \<in> set (the (m' (UUID u))) \<and> ucLastHeartBeat new = ccLater c"
    using assms(3)
  proof (cases rule: Connect_outcome)
    case refused
    with assms(4) show ?thesis by blast
  next
    case (granted v regs server port statusText j)
    then have "v = u" using assms(2) by simp
    with granted(11) show ?thesis
      by (intro exI [of _ "\<lparr>ucNodeIP = PublicIP server, ucServiceID = ccServiceID c, ucNodePort = port,
        ucClientIP = ccClientIP c, ucLastHeartBeat = ccLater c\<rparr>"]) (simp add: addConnection_def Let_def)
  qed
  then obtain new where new: "new \<in> set (the (m' (UUID u)))" "ucLastHeartBeat new = ccLater c" by blast
  have kept: "conns ?s2 (UUID u) = keep (freshConn now) (Some cs)" by (simp add: writeBack_def keepConns_apply keep_def)
  have "new \<notin> set cs" using new(2) assms(5) by auto
  then have gone: "\<forall>cs'. conns ?s2 (UUID u) = Some cs' \<longrightarrow> new \<notin> set cs'"
    unfolding kept by (auto simp: keep_def split: if_splits)
  show ?thesis
    by (rule exI [of _ ?s1], rule exI [of _ ?s2], rule exI [of _ new])
      (use step1 step2 new kept gone in \<open>simp\<close>)
qed

text \<open>
  A round of the plan monitor that meets no error resets the traffic of exactly the users whose
  renewal is due and whose plan runs, moves their renewal by one cycle, and leaves every other row.
\<close>

theorem plan_monitor_renews:
  assumes "db_laws coll ops rows" "distinct (map userID (rows d))" "\<forall>u \<in> set (rows d). userID u \<noteq> 0"
    and "planMonitorRound ops np now d m = (True, d', m', batches)"
  shows "rows d' = map (\<lambda>u. if NextRenew u < now \<and> now \<le> PlanEnd u
      then u\<lparr>TrafficUsed := 0, NextRenew := NextRenew u + RenewCycle u\<rparr> else u) (rows d)"
proof -
  obtain due where due: "dbDue ops now d = Some due" "saveAll ops (map renewUser due) d = (d', True)"
    using assms(4) by (auto simp: planMonitorRound_def split: option.splits prod.splits if_splits)
  have due_eq: "due = filter (\<lambda>u. NextRenew u < now \<and> now \<le> PlanEnd u) (rows d)"
    using assms(1) due(1) by (simp add: db_laws_def db_query_law_def)
  have ids: "userID (renewUser u) = userID u" for u by (simp add: renewUser_def)
  have dist: "distinct (map userID (map renewUser due))"
    using assms(2) by (simp add: due_eq comp_def ids distinct_map_filter)
  have "\<forall>u \<in> set (map renewUser due). userID u \<noteq> 0 \<and> userID u \<in> userID ` set (rows d)"
    using assms(3) by (auto simp: due_eq ids)
  from saveAll_rows [OF assms(1) due(2) this dist]
  have rows': "rows d' = map (\<lambda>v. case find (\<lambda>u. userID u = userID v) (map renewUser due) of None \<Rightarrow> v | Some u \<Rightarrow> u) (rows d)" .
  have "(case find (\<lambda>u. userID u = userID v) (map renewUser due) of None \<Rightarrow> v | Some u \<Rightarrow> u) =
      (if NextRenew v < now \<and> now \<le> PlanEnd v then renewUser v else v)" if v: "v \<in> set (rows d)" for v
  proof (cases "v \<in> set due")
    case True
    then have "find (\<lambda>u. userID u = userID (renewUser v)) (map renewUser due) = Some (renewUser v)"
      by (intro find_distinct [OF dist]) simp
    with True show ?thesis by (simp add: ids due_eq)
  next
    case False
    then have "userID u \<noteq> userID v" if "u \<in> set due" for u
      using that v distinct_keyed_eq [OF assms(2), of u v] by (auto simp: due_eq)
    then have "find (\<lambda>u. userID u = userID v) (map renewUser due) = None" by (auto simp: find_None_iff ids)
    moreover have "\<not> (NextRenew v < now \<and> now \<le> PlanEnd v)" using False v by (simp add: due_eq)
    ultimately show ?thesis by auto
  qed
  then show ?thesis unfolding rows' renewUser_def by (intro map_cong) auto
qed

text \<open>
  A user with unlimited traffic (limit -1), whom \<open>Connect\<close> lets in, is dropped from the
  connection table by the next round of the plan monitor, because the used traffic is not below the
  limit.
\<close>

theorem plan_monitor_drops_unlimited:
  assumes "db_laws coll ops rows" "planMonitorRound ops np now d m = (True, d', m', batches)"
    and "u \<in> set (rows d')" "TrafficLimit u = -1" "0 \<le> TrafficUsed u"
  shows "m' (UUID u) = None"
proof -
  obtain over acc where over: "dbOver ops now d' = Some over" "dropUsers np over m [] = (m', batches)"
    using assms(2) by (auto simp: planMonitorRound_def split: option.splits prod.splits if_splits)
  have "over = filter (\<lambda>u. PlanEnd u < now \<or> TrafficLimit u \<le> TrafficUsed u) (rows d')"
    using assms(1) over(1) by (simp add: db_laws_def db_query_law_def)
  then have "u \<in> set over" using assms(3-5) by simp
  moreover have stays: "fst (dropUsers np us m0 a) (UUID u) = None" if "m0 (UUID u) = None" for us m0 a
    using that by (induction us arbitrary: m0 a) (auto split: option.split)
  have "u \<in> set us \<Longrightarrow> fst (dropUsers np us m0 a) (UUID u) = None" for us m0 a
  proof (induction us arbitrary: m0 a)
    case (Cons v us)
    then show ?case by (cases "v = u") (auto simp: stays split: option.split)
  qed simp
  ultimately show ?thesis using over(2) by (metis fst_conv)
qed

section \<open>Concrete runs\<close>

definition demoNode :: Registration where
  "demoNode = emptyRegistration\<lparr>ServiceName := ''NodeService'', ServiceID := ''n1'', PublicIP := ''1.1.1.1''\<rparr>"

definition bob :: User where
  "bob = zeroUser\<lparr>userID := 2, UUID := ''u-2'', Email := ''bob'', Plan := ''Premium plan'', PlanEnd := 1000 * second,
     RenewCycle := 100 * second, NextRenew := 50 * second, TrafficUsed := 7, TrafficLimit := -1\<rparr>"

definition demoCtx :: "time \<Rightarrow> connect_ctx" where
  "demoCtx later = \<lparr>ccClientIP = ''5.5.5.5'', ccServiceID = ''n1'', ccUser = Some bob, ccNow = 0, ccLater = later,
     ccProviders = Some [demoNode], ccEnv = (\<lambda>_. ''80''), ccRequestOk = True, ccDecodeError = [],
     ccResponse = NodeAnswer StatusOK [] (JsonBody (JObj [(''port'', JStr ''10000'')]))\<rparr>"

definition demoConn :: "time \<Rightarrow> UserConnection" where
  "demoConn later = \<lparr>ucNodeIP = ''1.1.1.1'', ucServiceID = ''n1'', ucNodePort = ''10000'', ucClientIP = ''5.5.5.5'',
     ucLastHeartBeat = later\<rparr>"

lemma demoConnect:
  "Connect (demoCtx later) m newWriter = (addConnection ''u-2'' (demoConn later) m,
     ginJSON StatusOK (JObj [(''port'', JStr ''10000''), (''pubkey'', JStr ''80''), (''uuid'', JStr ''u-2'')]) newWriter,
     Some (connectURL ''1.1.1.1'' ''80'' ''u-2'' ''bob'' ''5.5.5.5'' 25000000))"
  by (simp add: Connect_def connectNode_def demoCtx_def bob_def zeroUser_def demoNode_def RateMap_def decodePort_def
      onField_def keyMatches_def demoConn_def Let_def second_def)

lemma demoConnect_ok: "finalStatus (ginJSON StatusOK b newWriter) = StatusOK"
  by (simp add: http_simps)

lemma demo_known: "nodeKnown (Some [demoNode]) (demoConn t)"
  by (simp add: nodeKnown_def demoNode_def demoConn_def)

definition demoStep :: "time \<Rightarrow> web_state \<Rightarrow> web_state" where
  "demoStep t s = s\<lparr>conns := fst (Connect (demoCtx t) (conns s) newWriter)\<rparr>"

lemma demoStep_reach: "web_reach s \<Longrightarrow> web_reach (demoStep t s)"
  unfolding demoStep_def by (rule web_reach.step [OF _ web_step.connect])

text \<open>Three connects: two entries remain.\<close>

theorem web_connections_bounded_witness:
  "\<exists>s. web_reach s \<and> conns s ''u-2'' = Some [demoConn 2, demoConn 3] \<and> length [demoConn 2, demoConn 3] \<le> 2"
proof -
  let ?s = "demoStep 3 (demoStep 2 (demoStep 1 \<lparr>conns = Map.empty, snapshot = []\<rparr>))"
  have reach: "web_reach ?s" by (intro demoStep_reach web_reach.init)
  moreover have c: "conns ?s ''u-2'' = Some [demoConn 2, demoConn 3]"
    by (simp add: demoStep_def demoConnect addConnection_def MAX_CONNECTIONS_PER_USER_def)
  ultimately show ?thesis using web_connections_bounded [OF reach] by blast
qed

theorem connect_grants_only_witness:
  "\<exists>m' w' req. Connect (demoCtx 5) Map.empty newWriter = (m', w', req) \<and> finalStatus w' = StatusOK \<and>
     (\<exists>u. ccUser (demoCtx 5) = Some u \<and> 0 \<le> PlanEnd u)"
proof -
  note run = demoConnect [of 5 Map.empty]
  from connect_grants_only [OF run disjI2, OF demoConnect_ok] have "\<exists>u. ccUser (demoCtx 5) = Some u \<and> 0 \<le> PlanEnd u"
    by (auto simp: demoCtx_def)
  with run demoConnect_ok show ?thesis by blast
qed

theorem third_connection_evicts_silently_witness:
  "\<exists>m' w' req new. Connect (demoCtx 9) [''u-2'' \<mapsto> [demoConn 1, demoConn 2]] newWriter = (m', w', req) \<and>
     m' ''u-2'' = Some [demoConn 2, new]"
proof -
  note run = demoConnect [of 9 "[''u-2'' \<mapsto> [demoConn 1, demoConn 2]]"]
  have "ccUser (demoCtx 9) = Some bob" "[''u-2'' \<mapsto> [demoConn 1, demoConn 2]] (UUID bob) = Some [demoConn 1, demoConn 2]"
    by (simp_all add: demoCtx_def bob_def)
  from third_connection_evicts_silently [OF run demoConnect_ok this] run show ?thesis by (auto simp: bob_def)
qed

theorem heartbeat_monitor_exact_witness:
  "\<exists>m' batches. heartbeatMonitorRound (Some [demoNode]) ''80'' (40 * second) [''u-2''] [''u-2'']
       [''u-2'' \<mapsto> [demoConn 0, demoConn (20 * second)]] = (m', batches) \<and>
     m' ''u-2'' = Some [demoConn (20 * second)] \<and> sentTo batches ''http://1.1.1.1:80/disconnect'' ''u-2''"
proof -
  let ?m = "[''u-2'' \<mapsto> [demoConn 0, demoConn (20 * second)]]"
  obtain m' batches where run: "heartbeatMonitorRound (Some [demoNode]) ''80'' (40 * second) [''u-2''] [''u-2''] ?m = (m', batches)"
    by fastforce
  have dom: "set [''u-2''] = dom (pruneUsers (Some [demoNode]) [''u-2''] ?m)" by (simp add: keepConns_def demo_known)
  have spec: "(\<forall>u. m' u = keep (\<lambda>c. nodeKnown (Some [demoNode]) c \<and> 40 * second - ucLastHeartBeat c \<le> 30 * second) (?m u)) \<and>
    (\<forall>url u. sentTo batches url u \<longleftrightarrow> (\<exists>cs. ?m u = Some cs \<and> (\<exists>c \<in> set cs. nodeKnown (Some [demoNode]) c \<and>
       40 * second - ucLastHeartBeat c > 30 * second \<and> url = disconnectURL ''80'' c)))"
    by (rule heartbeat_monitor_exact [OF _ _ _ dom run]) auto
  have "m' ''u-2'' = Some [demoConn (20 * second)]"
    using spec [THEN conjunct1, rule_format, of "''u-2''"] by (simp add: keep_def demo_known) (simp add: demoConn_def second_def)
  moreover have "sentTo batches ''http://1.1.1.1:80/disconnect'' ''u-2''"
    using spec [THEN conjunct2, rule_format, of "''http://1.1.1.1:80/disconnect''" "''u-2''"]
    by (simp add: demo_known) (simp add: demoConn_def second_def disconnectURL_def)
  ultimately show ?thesis using run by blast
qed

theorem monitor_without_providers_drops_all_witness:
  "heartbeatMonitorRound None ''80'' 5 [''u-2''] [] [''u-2'' \<mapsto> [demoConn 4]] = (Map.empty, [])"
  by (rule monitor_without_providers_drops_all) (simp_all add: keepConns_def nodeKnown_def)

theorem double_connect_disconnects_live_user_witness:
  "\<exists>m' batches. heartbeatMonitorRound (Some [demoNode]) ''80'' (40 * second) [''u-2''] [''u-2'']
       [''u-2'' \<mapsto> [demoConn (35 * second), demoConn 1]] = (m', batches) \<and>
     m' ''u-2'' = Some [demoConn (35 * second)] \<and> sentTo batches ''http://1.1.1.1:80/disconnect'' ''u-2''"
proof -
  let ?m1 = "foldl (\<lambda>m t. fst (HeartbeatFromClient ''n1'' (Some bob) t m newWriter)) [''u-2'' \<mapsto> [demoConn 0, demoConn 1]] [10, 35 * second]"
  have m1: "?m1 = [''u-2'' \<mapsto> [demoConn (35 * second), demoConn 1]]"
    by (simp add: HeartbeatFromClient_def bob_def demoConn_def)
  obtain m' batches where run: "heartbeatMonitorRound (Some [demoNode]) ''80'' (40 * second) [''u-2''] [''u-2''] ?m1 = (m', batches)"
    by fastforce
  have dom: "set [''u-2''] = dom (pruneUsers (Some [demoNode]) [''u-2''] ?m1)" unfolding m1 by (simp add: keepConns_def demo_known)
  have "m' (UUID bob) = Some [(demoConn 0)\<lparr>ucLastHeartBeat := last [10, 35 * second]\<rparr>] \<and>
      sentTo batches (disconnectURL ''80'' (demoConn 1)) (UUID bob)"
    by (rule double_connect_disconnects_live_user [where m = "[''u-2'' \<mapsto> [demoConn 0, demoConn 1]]" and user = bob and ts = "[10, 35 * second]" and
          sid = "''n1''", OF _ _ _ _ demo_known demo_known _ _ _ refl _ _ _ dom run])
      (simp_all add: bob_def demoConn_def second_def HeartbeatFromClient_def)
  then show ?thesis using run m1 by (auto simp: bob_def demoConn_def disconnectURL_def)
qed

theorem writeback_loses_connect_witness:
  "\<exists>s s1 s2 new. web_step s s1 \<and> new \<in> set (the (conns s1 ''u-2'')) \<and> web_step s1 s2 \<and>
     conns s2 ''u-2'' = Some [demoConn 1] \<and> new \<notin> {demoConn 1}"
proof -
  let ?s = "\<lparr>conns = [''u-2'' \<mapsto> [demoConn 1]], snapshot = [(''u-2'', [demoConn 1])]\<rparr>"
  have pre: "snapshot ?s = (UUID bob, [demoConn 1]) # []" "ccUser (demoCtx 9) = Some bob"
      "\<forall>x \<in> set [demoConn 1]. ucLastHeartBeat x < ccLater (demoCtx 9)"
    by (simp_all add: bob_def demoCtx_def demoConn_def)
  from writeback_loses_connect [OF pre(1,2) demoConnect demoConnect_ok pre(3), of 10]
  obtain s1 s2 new where *: "web_step ?s s1" "new \<in> set (the (conns s1 (UUID bob)))" "web_step s1 s2"
      "conns s2 (UUID bob) = keep (freshConn 10) (Some [demoConn 1])" "\<forall>cs'. conns s2 (UUID bob) = Some cs' \<longrightarrow> new \<notin> set cs'" by metis
  have "freshConn 10 (demoConn 1)" by (simp add: freshConn_iff demoConn_def second_def)
  with * have "conns s2 ''u-2'' = Some [demoConn 1]" by (simp add: keep_def bob_def)
  with * show ?thesis by (auto simp: bob_def)
qed

lemma demo_plan_round:
  "planMonitorRound listDB ''80'' (60 * second) [bob] [''u-2'' \<mapsto> [demoConn 1]] =
   (True, [bob\<lparr>TrafficUsed := 0, NextRenew := 150 * second\<rparr>], Map.empty, [(''http://1.1.1.1:80'', [''u-2''])])"
  by (simp add: planMonitorRound_def listDB_def bob_def zeroUser_def renewUser_def second_def demoConn_def planURL_def)

theorem plan_monitor_renews_witness:
  "\<exists>d' m' batches. planMonitorRound listDB ''80'' (60 * second) [bob] [''u-2'' \<mapsto> [demoConn 1]] = (True, d', m', batches) \<and>
     d' = [bob\<lparr>TrafficUsed := 0, NextRenew := 150 * second\<rparr>]"
proof -
  have "[bob\<lparr>TrafficUsed := 0, NextRenew := 150 * second\<rparr>] = map (\<lambda>u. if NextRenew u < 60 * second \<and> 60 * second \<le> PlanEnd u
      then u\<lparr>TrafficUsed := 0, NextRenew := NextRenew u + RenewCycle u\<rparr> else u) [bob]"
    by (rule plan_monitor_renews [OF listDB_laws _ _ demo_plan_round]) (simp_all add: bob_def)
  with demo_plan_round show ?thesis by blast
qed

theorem plan_monitor_drops_unlimited_witness:
  "\<exists>d' m' batches. planMonitorRound listDB ''80'' (60 * second) [bob] [''u-2'' \<mapsto> [demoConn 1]] = (True, d', m', batches) \<and>
     m' ''u-2'' = None"
proof -
  obtain m' batches where run: "planMonitorRound listDB ''80'' (60 * second) [bob] [''u-2'' \<mapsto> [demoConn 1]] =
      (True, [bob\<lparr>TrafficUsed := 0, NextRenew := 150 * second\<rparr>], m', batches)" using demo_plan_round by blast
  have "m' (UUID (bob\<lparr>TrafficUsed := 0, NextRenew := 150 * second\<rparr>)) = None"
    by (rule plan_monitor_drops_unlimited [OF listDB_laws run]) (simp_all add: bob_def)
  with run show ?thesis by (auto simp: bob_def)
qed

end
