(* ===== verification/Web_Server.thy ===== *)
theory Web_Server
  imports Web_Connections
begin

text \<open>
  The HTTP interface of the web service as src/cmd/webservice/main.go puts it together: the CORS
  middleware, the route table with \<open>RequireAuth\<close> in front of some routes, and the handlers of
  src/web/controllers over the whole state of the server.

  gin matches a request to a route by method and path, and recovers from a panic of a handler with
  status 500. What it answers to a request without a route is an argument, \<open>noRoute\<close>. The values a
  request finds outside the server are collected in \<open>web_env\<close>.
\<close>

section \<open>Model\<close>

record 'd web_server =
  wsDB :: 'd
  wsConns :: conn_map
  wsTokens :: token_map

record 'd web_env =
  weOps :: "'d db_ops"
  weNow :: time
  weLater :: time
  weVars :: "string \<Rightarrow> string"
  weProviders :: "Registration list option"
  weHash :: "string \<Rightarrow> string option"
  weCompare :: "string \<Rightarrow> string \<Rightarrow> bool"
  weSign :: "jwt_claims \<Rightarrow> string option"
  weParse :: "string \<Rightarrow> jwt_token"
  weUUID :: string
  weClientIP :: string
  weRequestOk :: bool
  weDecodeError :: string
  weNode :: node_response
  weRfc3339 :: "time \<Rightarrow> string"
  weDuration :: "duration \<Rightarrow> string"
  weEncodeUser :: "User \<Rightarrow> json"

datatype web_handler =
    HSignup | HLogin | HUser | HRealitykey | HServers | HVersion | HConnect | HHeartbeat | HTraffic | HSetPlan

text \<open>The routes, each with whether \<open>RequireAuth\<close> comes before the handler.\<close>

definition webRoutes :: "((http_method \<times> string) \<times> bool \<times> web_handler) list" where
  "webRoutes =
     [((POST, ''/signup''), False, HSignup), ((POST, ''/login''), False, HLogin), ((GET, ''/user''), True, HUser),
      ((GET, ''/realitykey''), True, HRealitykey), ((GET, ''/servers''), True, HServers),
      ((GET, ''/version''), False, HVersion), ((POST, ''/connect''), True, HConnect),
      ((POST, ''/heartbeat''), True, HHeartbeat), ((POST, ''/traffic''), False, HTraffic),
      ((POST, ''/admin/setplan''), False, HSetPlan)]"

definition connectCtx :: "'d web_env \<Rightarrow> request \<Rightarrow> User option \<Rightarrow> connect_ctx" where
  "connectCtx e r user = \<lparr>ccClientIP = weClientIP e, ccServiceID = rQuery r ''serviceid'', ccUser = user,
     ccNow = weNow e, ccLater = weLater e, ccProviders = weProviders e, ccEnv = weVars e,
     ccRequestOk = weRequestOk e, ccDecodeError = weDecodeError e, ccResponse = weNode e\<rparr>"

text \<open>A handler on the state of the server. \<open>user\<close> is what \<open>c.Get("user")\<close> finds; the handler of
  \<open>/user\<close> panics without it. No route has path parameters, so \<open>c.Param\<close> is empty.\<close>

definition runHandler ::
  "'d web_env \<Rightarrow> web_handler \<Rightarrow> User option \<Rightarrow> request \<Rightarrow> 'd web_server \<Rightarrow> json writer \<Rightarrow> ('d web_server, json writer) run" where
  "runHandler e h user r s w =
     (case h of
        HSignup \<Rightarrow> (case Signup (weOps e) (weHash e) (weUUID e) (weNow e) r (wsDB s) w of (d, w1) \<Rightarrow> Ret (s\<lparr>wsDB := d\<rparr>) w1)
      | HLogin \<Rightarrow> (case Login (weOps e) (weCompare e) (weSign e) (weNow e) r (wsDB s) (wsTokens s) w of
                     (t, w1) \<Rightarrow> Ret (s\<lparr>wsTokens := t\<rparr>) w1)
      | HUser \<Rightarrow> (case user of None \<Rightarrow> Panic s | Some u \<Rightarrow> Ret s (userHandler (weRfc3339 e) (weDuration e) u w))
      | HRealitykey \<Rightarrow> Ret s (Realitykey (weVars e) w)
      | HServers \<Rightarrow> Ret s (Servers (weProviders e) w)
      | HVersion \<Rightarrow> Ret s (Version r w)
      | HConnect \<Rightarrow> (case Connect (connectCtx e r user) (wsConns s) w of (m, w1, _) \<Rightarrow> Ret (s\<lparr>wsConns := m\<rparr>) w1)
      | HHeartbeat \<Rightarrow> (case HeartbeatFromClient (rQuery r ''serviceid'') user (weNow e) (wsConns s) w of
                         (m, w1) \<Rightarrow> Ret (s\<lparr>wsConns := m\<rparr>) w1)
      | HTraffic \<Rightarrow> (case AddTraffic (weOps e) r (wsDB s) w of (d, w1) \<Rightarrow> Ret (s\<lparr>wsDB := d\<rparr>) w1)
      | HSetPlan \<Rightarrow> (case SetPlan (weOps e) (weEncodeUser e) (weVars e ''regkey'') (\<lambda>_. []) (weNow e) (wsDB s) w of
                       (d, w1) \<Rightarrow> Ret (s\<lparr>wsDB := d\<rparr>) w1))"

text \<open>gin's recovery, with what had been written before the handler.\<close>

definition recovered :: "json writer \<Rightarrow> ('d web_server, json writer) run \<Rightarrow> 'd web_server \<times> json writer" where
  "recovered w x = (case x of Ret s w1 \<Rightarrow> (s, w1) | Panic s \<Rightarrow> (s, writeHeader StatusInternalServerError w))"

definition dispatch ::
  "'d web_env \<Rightarrow> bool \<Rightarrow> web_handler \<Rightarrow> request \<Rightarrow> 'd web_server \<Rightarrow> 'd web_server \<times> json writer" where
  "dispatch e auth h r s =
     (if \<not> auth then recovered newWriter (runHandler e h None r s newWriter)
      else
        (case RequireAuth (weOps e) (weParse e) (weNow e) (rHeader r ''Authorization'') (wsDB s) newWriter of
           Panic w \<Rightarrow> (s, writeHeader StatusInternalServerError w)
         | Ret w None \<Rightarrow> (s, w)
         | Ret w (Some u) \<Rightarrow> recovered w (runHandler e h (Some u) r s w)))"

definition ginServe ::
  "'d web_env \<Rightarrow> (request \<Rightarrow> json writer) \<Rightarrow> request \<Rightarrow> 'd web_server \<Rightarrow> 'd web_server \<times> json writer" where
  "ginServe e noRoute r s =
     (if rMethod r = OtherMethod ''OPTIONS'' then (s, writeHeader 204 newWriter)
      else
        (case map_of webRoutes (rMethod r, rPath r) of
           None \<Rightarrow> (s, noRoute r)
         | Some (auth, h) \<Rightarrow> dispatch e auth h r s))"

section \<open>Lemmas\<close>

lemma Connect_frame:
  assumes "ccUser c = Some u" "v \<noteq> UUID u"
  shows "fst (Connect c m newWriter) v = m v"
proof -
  obtain m' w' req where run: "Connect c m newWriter = (m', w', req)" by (cases "Connect c m newWriter") auto
  then show ?thesis
  proof (cases rule: Connect_outcome)
    case (granted u' regs server port statusText j)
    with run assms show ?thesis by (simp add: addConnection_def Let_def)
  qed (use run in simp)
qed

lemma HeartbeatFromClient_frame: "v \<noteq> UUID u \<Longrightarrow> fst (HeartbeatFromClient sid (Some u) now m w) v = m v"
  by (auto simp: HeartbeatFromClient_def split: option.splits prod.splits)

text \<open>What the handlers behind \<open>RequireAuth\<close> do to the state.\<close>

lemma runHandler_auth:
  assumes "((meth, path), True, h) \<in> set webRoutes" "recovered newWriter (runHandler e h (Some u) r s newWriter) = (s', w)"
  shows "wsDB s' = wsDB s" "wsTokens s' = wsTokens s" "v \<noteq> UUID u \<Longrightarrow> wsConns s' v = wsConns s v"
proof -
  have frame: "fst (Connect (connectCtx e r (Some u)) (wsConns s) newWriter) v = wsConns s v" if "v \<noteq> UUID u" for v
    by (rule Connect_frame [OF _ that]) (simp add: connectCtx_def)
  have "h \<in> {HUser, HRealitykey, HServers, HConnect, HHeartbeat}" using assms(1) by (auto simp: webRoutes_def)
  then show "wsDB s' = wsDB s" "wsTokens s' = wsTokens s" "v \<noteq> UUID u \<Longrightarrow> wsConns s' v = wsConns s v"
    using assms(2) frame [of v] HeartbeatFromClient_frame [of v u "rQuery r ''serviceid''" "weNow e" "wsConns s" newWriter]
    by (auto simp: runHandler_def recovered_def split: prod.splits)
qed

text \<open>Signup and login: the account is in the table and the token stands for it.\<close>

lemma session_started:
  assumes "db_laws coll ops rows" "weOps e1 = ops" "weOps e2 = ops"
    and "rMethod r1 = POST" "rPath r1 = ''/signup''" "bindCredentials r1 = Some body"
    and "rMethod r2 = POST" "rPath r2 = ''/login''" "bindCredentials r2 = Some body"
    and "weHash e1 (crPassword body) = Some hash" "weCompare e2 hash (crPassword body)"
    and "dbCreate ops (newUser (weNow e1) (crEmail body) hash (weUUID e1)) (wsDB s) = (d', None)"
    and "\<forall>claims. weSign e2 claims \<noteq> None"
    and "\<forall>claims t x. weSign e2 claims = Some t \<longrightarrow> claimExp claims = Some x \<longrightarrow> unixTime (weNow e3) < x \<longrightarrow>
      t \<noteq> [] \<and> weParse e3 t = Token True claims"
    and "unixTime (weNow e3) < unixTime (weNow e2 + hour * 24 * 30)"
  shows "\<exists>tokens t i. ginServe e1 noRoute r1 s = (s\<lparr>wsDB := d'\<rparr>, ginJSON StatusOK (JObj []) newWriter) \<and>
    ginServe e2 noRoute r2 (s\<lparr>wsDB := d'\<rparr>) = (s\<lparr>wsDB := d', wsTokens := tokens\<rparr>, ginJSON StatusOK (JObj [(''token'', JStr t)]) newWriter) \<and>
    RequireAuth ops (weParse e3) (weNow e3) t d' newWriter =
      Ret newWriter (Some ((newUser (weNow e1) (crEmail body) hash (weUUID e1))\<lparr>userID := i\<rparr>))"
proof -
  let ?u = "newUser (weNow e1) (crEmail body) hash (weUUID e1)"
  obtain i where i: "i \<noteq> 0" "dbFirstEmail ops (crEmail body) d' = Some (?u\<lparr>userID := i\<rparr>)" "dbFirstID ops i d' = Some (?u\<lparr>userID := i\<rparr>)"
    using created_row [OF assms(1,12)] by blast
  let ?claims = "\<lparr>claimSub = i, claimExp = Some (unixTime (weNow e2 + hour * 24 * 30))\<rparr>"
  obtain t where t: "weSign e2 ?claims = Some t" using assms(13) by blast
  then have tok: "t \<noteq> []" "weParse e3 t = Token True ?claims" using assms(14,15) by auto
  let ?tokens = "(wsTokens s)(t \<mapsto> weNow e2 + hour * 24 * 30)"
  have "Signup ops (weHash e1) (weUUID e1) (weNow e1) r1 (wsDB s) newWriter = (d', ginJSON StatusOK (JObj []) newWriter)"
    using assms(6,10,12) by (simp add: Signup_def)
  then have signup: "ginServe e1 noRoute r1 s = (s\<lparr>wsDB := d'\<rparr>, ginJSON StatusOK (JObj []) newWriter)"
    using assms(2,4,5) by (simp add: ginServe_def webRoutes_def dispatch_def recovered_def runHandler_def)
  have "Login ops (weCompare e2) (weSign e2) (weNow e2) r2 d' (wsTokens s) newWriter =
      (?tokens, ginJSON StatusOK (JObj [(''token'', JStr t)]) newWriter)"
    by (rule Login_ok [OF assms(9) i(2)]) (use i(1) t assms(11) in \<open>simp_all add: newUser_def\<close>)
  then have login: "ginServe e2 noRoute r2 (s\<lparr>wsDB := d'\<rparr>) =
      (s\<lparr>wsDB := d', wsTokens := ?tokens\<rparr>, ginJSON StatusOK (JObj [(''token'', JStr t)]) newWriter)"
    using assms(3,7,8) by (simp add: ginServe_def webRoutes_def dispatch_def recovered_def runHandler_def)
  have "RequireAuth ops (weParse e3) (weNow e3) t d' newWriter = Ret newWriter (Some (?u\<lparr>userID := i\<rparr>))"
    using tok i(1,3) assms(15) by (simp add: RequireAuth_iff)
  with signup login show ?thesis by blast
qed

section \<open>Properties\<close>

text \<open>
  C23: apart from signup, login, the traffic reports and the admin route, a request changes something
  only when it carries a token that verifies, is not expired and names an existing user; and then it
  changes at most that user's entries in the connection table.
\<close>

theorem web_changes_authorised:
  assumes "ginServe e noRoute r s = (s', w)" "s' \<noteq> s"
    and "rPath r \<notin> {''/signup'', ''/login'', ''/traffic'', ''/admin/setplan''}"
  shows "\<exists>claims x u. weParse e (rHeader r ''Authorization'') = Token True claims \<and> claimExp claims = Some x \<and>
    unixTime (weNow e) \<le> x \<and> dbFirstID (weOps e) (claimSub claims) (wsDB s) = Some u \<and>
    wsDB s' = wsDB s \<and> wsTokens s' = wsTokens s \<and> (\<forall>v. v \<noteq> UUID u \<longrightarrow> wsConns s' v = wsConns s v)"
proof -
  obtain auth h where route: "map_of webRoutes (rMethod r, rPath r) = Some (auth, h)" "dispatch e auth h r s = (s', w)"
    using assms(1,2) by (auto simp: ginServe_def split: if_splits option.splits)
  then have mem: "((rMethod r, rPath r), auth, h) \<in> set webRoutes" by (simp add: map_of_SomeD)
  have auth: auth
    using mem assms(2,3) route(2) by (auto simp: webRoutes_def dispatch_def recovered_def runHandler_def)
  then obtain w1 u where u: "RequireAuth (weOps e) (weParse e) (weNow e) (rHeader r ''Authorization'') (wsDB s) newWriter = Ret w1 (Some u)"
      "recovered w1 (runHandler e h (Some u) r s w1) = (s', w)"
    using route(2) assms(2) by (auto simp: dispatch_def split: run.splits option.splits)
  from u(1) have w1: "w1 = newWriter" and tok: "\<exists>claims x. weParse e (rHeader r ''Authorization'') = Token True claims \<and> claimExp claims = Some x \<and>
      unixTime (weNow e) \<le> x \<and> dbFirstID (weOps e) (claimSub claims) (wsDB s) = Some u"
    unfolding RequireAuth_iff by blast+
  from runHandler_auth [OF mem [simplified auth] u(2) [unfolded w1]] tok show ?thesis by blast
qed

text \<open>
  A route behind \<open>RequireAuth\<close> refuses a request without a valid token: the state stays as it is
  and the answer is 401, or 500 when the token is not one the library can read.
\<close>

theorem protected_route_refuses:
  assumes "((rMethod r, rPath r), True, h) \<in> set webRoutes" "ginServe e noRoute r s = (s', w)"
    and "\<forall>claims x. weParse e (rHeader r ''Authorization'') = Token True claims \<longrightarrow> claimExp claims = Some x \<longrightarrow>
      unixTime (weNow e) \<le> x \<longrightarrow> dbFirstID (weOps e) (claimSub claims) (wsDB s) = None"
  shows "s' = s \<and> finalStatus w \<in> {StatusUnauthorized, StatusInternalServerError}"
proof -
  have route: "map_of webRoutes (rMethod r, rPath r) = Some (True, h)" "rMethod r \<noteq> OtherMethod ''OPTIONS''"
    using assms(1) by (auto simp: webRoutes_def)
  then have run: "dispatch e True h r s = (s', w)" using assms(2) by (simp add: ginServe_def)
  let ?auth = "RequireAuth (weOps e) (weParse e) (weNow e) (rHeader r ''Authorization'') (wsDB s) newWriter"
  have no_user: "?auth \<noteq> Ret w1 (Some u)" for w1 u using assms(3) by (auto simp: RequireAuth_iff)
  have panicked: "?auth = Panic w1 \<Longrightarrow> wStatus w1 \<in> {None, Some StatusUnauthorized}" for w1
    by (auto simp: RequireAuth_def Let_def http_simps split: jwt_token.splits option.splits if_splits)
  show ?thesis
  proof (cases ?auth)
    case (Ret w1 user)
    then have "user = None" using no_user by (cases user) auto
    with Ret run RequireAuth_refused show ?thesis by (auto simp: dispatch_def)
  next
    case (Panic w1)
    with run panicked show ?thesis by (auto simp: dispatch_def http_simps)
  qed
qed

text \<open>
  A session works end to end. A signup under a new email is answered with 200; the login with the
  same credentials is answered with a token; and until 30 days later a request for \<open>/user\<close> with that
  token shows the account that was created.
\<close>

theorem session_flow:
  assumes "db_laws coll ops rows" "weOps e1 = ops" "weOps e2 = ops" "weOps e3 = ops"
    and "rMethod r1 = POST" "rPath r1 = ''/signup''" "bindCredentials r1 = Some body"
    and "rMethod r2 = POST" "rPath r2 = ''/login''" "bindCredentials r2 = Some body"
    and "weHash e1 (crPassword body) = Some hash" "weCompare e2 hash (crPassword body)"
    and "dbCreate ops (newUser (weNow e1) (crEmail body) hash (weUUID e1)) (wsDB s) = (d', None)"
    and "\<forall>claims. weSign e2 claims \<noteq> None"
    and "\<forall>claims t x. weSign e2 claims = Some t \<longrightarrow> claimExp claims = Some x \<longrightarrow> unixTime (weNow e3) < x \<longrightarrow>
      t \<noteq> [] \<and> weParse e3 t = Token True claims"
    and "unixTime (weNow e3) < unixTime (weNow e2 + hour * 24 * 30)"
  shows "\<exists>s1 s2 t i. ginServe e1 noRoute r1 s = (s1, ginJSON StatusOK (JObj []) newWriter) \<and>
    ginServe e2 noRoute r2 s1 = (s2, ginJSON StatusOK (JObj [(''token'', JStr t)]) newWriter) \<and>
    (\<forall>r3. rMethod r3 = GET \<longrightarrow> rPath r3 = ''/user'' \<longrightarrow> rHeader r3 ''Authorization'' = t \<longrightarrow>
       ginServe e3 noRoute r3 s2 = (s2, userHandler (weRfc3339 e3) (weDuration e3)
         ((newUser (weNow e1) (crEmail body) hash (weUUID e1))\<lparr>userID := i\<rparr>) newWriter))"
proof -
  let ?u = "newUser (weNow e1) (crEmail body) hash (weUUID e1)"
  obtain tokens t i where start: "ginServe e1 noRoute r1 s = (s\<lparr>wsDB := d'\<rparr>, ginJSON StatusOK (JObj []) newWriter)"
      "ginServe e2 noRoute r2 (s\<lparr>wsDB := d'\<rparr>) = (s\<lparr>wsDB := d', wsTokens := tokens\<rparr>, ginJSON StatusOK (JObj [(''token'', JStr t)]) newWriter)"
      "RequireAuth ops (weParse e3) (weNow e3) t d' newWriter = Ret newWriter (Some (?u\<lparr>userID := i\<rparr>))"
    using session_started [OF assms(1-3,5-16)] by blast
  then have "ginServe e3 noRoute r3 (s\<lparr>wsDB := d', wsTokens := tokens\<rparr>) =
      (s\<lparr>wsDB := d', wsTokens := tokens\<rparr>, userHandler (weRfc3339 e3) (weDuration e3) (?u\<lparr>userID := i\<rparr>) newWriter)"
    if "rMethod r3 = GET" "rPath r3 = ''/user''" "rHeader r3 ''Authorization'' = t" for r3
    using that assms(4) by (simp add: ginServe_def webRoutes_def dispatch_def recovered_def runHandler_def)
  with start(1,2) show ?thesis by blast
qed

section \<open>Concrete runs\<close>

text \<open>Stand-ins for the token library that can sign every claim and read what they signed.\<close>

definition unarySign :: "jwt_claims \<Rightarrow> string option" where
  "unarySign c = Some (replicate (claimSub c) CHR ''i'' @ CHR ''.'' #
     (case claimExp c of None \<Rightarrow> [] | Some x \<Rightarrow> replicate (nat x) CHR ''e''))"

definition unaryParse :: "string \<Rightarrow> jwt_token" where
  "unaryParse t = Token True \<lparr>claimSub = length (filter (\<lambda>c. c = CHR ''i'') t), claimExp = Some (int (length (filter (\<lambda>c. c = CHR ''e'') t)))\<rparr>"

lemma unary_law: "unarySign c = Some t \<Longrightarrow> claimExp c = Some x \<Longrightarrow> 0 \<le> x \<Longrightarrow> t \<noteq> [] \<and> unaryParse t = Token True c"
  by (cases c) (auto simp: unarySign_def unaryParse_def)

definition demoWeb :: "time \<Rightarrow> User list web_env" where
  "demoWeb now = \<lparr>weOps = listDB, weNow = now, weLater = now, weVars = (\<lambda>_. ''80''), weProviders = Some [demoNode],
     weHash = (\<lambda>p. Some (''h:'' @ p)), weCompare = (\<lambda>h p. h = ''h:'' @ p), weSign = unarySign,
     weParse = (\<lambda>t. if t = ''bob'' then Token True \<lparr>claimSub = 2, claimExp = Some 100\<rparr> else if t = [] then NilToken else unaryParse t),
     weUUID = ''u-1'', weClientIP = ''5.5.5.5'', weRequestOk = True, weDecodeError = [],
     weNode = NodeAnswer StatusOK [] (JsonBody (JObj [(''port'', JStr ''10000'')])),
     weRfc3339 = (\<lambda>_. []), weDuration = (\<lambda>_. []), weEncodeUser = (\<lambda>_. JNull)\<rparr>"

definition webRequest :: "http_method \<Rightarrow> string \<Rightarrow> string \<Rightarrow> request" where
  "webRequest meth path token = \<lparr>rMethod = meth, rPath = path, rQuery = (\<lambda>k. if k = ''serviceid'' then ''n1'' else []),
     rHeader = (\<lambda>k. if k = ''Authorization'' then token else []), rRemoteAddr = [], rBody = Some [],
     rJson = Some (JObj [(''Email'', JStr ''alice''), (''Password'', JStr ''pw'')])\<rparr>"

definition bobServer :: "User list web_server" where
  "bobServer = \<lparr>wsDB = [bob], wsConns = Map.empty, wsTokens = Map.empty\<rparr>"

lemma bob_auth: "RequireAuth listDB (weParse (demoWeb 7)) 7 ''bob'' [bob] newWriter = Ret newWriter (Some bob)"
  by (simp add: RequireAuth_iff demoWeb_def listDB_def bob_def unixTime_def second_def)

lemma bob_connects:
  "ginServe (demoWeb 7) (\<lambda>_. newWriter) (webRequest POST ''/connect'' ''bob'') bobServer =
   (bobServer\<lparr>wsConns := [''u-2'' \<mapsto> [demoConn 7]]\<rparr>,
    ginJSON StatusOK (JObj [(''port'', JStr ''10000''), (''pubkey'', JStr ''80''), (''uuid'', JStr ''u-2'')]) newWriter)"
proof -
  have "fst (Connect (connectCtx (demoWeb 7) (webRequest POST ''/connect'' ''bob'') (Some bob)) Map.empty newWriter) = [''u-2'' \<mapsto> [demoConn 7]]"
    "fst (snd (Connect (connectCtx (demoWeb 7) (webRequest POST ''/connect'' ''bob'') (Some bob)) Map.empty newWriter)) =
      ginJSON StatusOK (JObj [(''port'', JStr ''10000''), (''pubkey'', JStr ''80''), (''uuid'', JStr ''u-2'')]) newWriter"
    by (simp_all add: Connect_def connectNode_def connectCtx_def demoWeb_def webRequest_def bob_def zeroUser_def demoNode_def RateMap_def
        decodePort_def onField_def keyMatches_def demoConn_def addConnection_def MAX_CONNECTIONS_PER_USER_def Let_def second_def)
  moreover have "weOps (demoWeb 7) = listDB" "weNow (demoWeb 7) = 7" "rHeader (webRequest POST ''/connect'' ''bob'') ''Authorization'' = ''bob''"
    by (simp_all add: demoWeb_def webRequest_def)
  ultimately show ?thesis
    using bob_auth by (simp add: ginServe_def webRoutes_def dispatch_def recovered_def runHandler_def bobServer_def
        case_prod_beta) (simp add: webRequest_def)
qed

theorem web_changes_authorised_witness:
  "\<exists>s' w u. ginServe (demoWeb 7) (\<lambda>_. newWriter) (webRequest POST ''/connect'' ''bob'') bobServer = (s', w) \<and> s' \<noteq> bobServer \<and>
     dbFirstID listDB 2 [bob] = Some u \<and> UUID u = ''u-2'' \<and> wsConns s' ''u-1'' = wsConns bobServer ''u-1''"
proof -
  have "bobServer\<lparr>wsConns := [''u-2'' \<mapsto> [demoConn 7]]\<rparr> \<noteq> bobServer"
    by (auto simp: bobServer_def fun_upd_def dest: fun_cong [of _ _ "''u-2''"])
  moreover have "rPath (webRequest POST ''/connect'' ''bob'') \<notin> {''/signup'', ''/login'', ''/traffic'', ''/admin/setplan''}"
    by (simp add: webRequest_def)
  moreover have "weParse (demoWeb 7) (rHeader (webRequest POST ''/connect'' ''bob'') ''Authorization'') = Token True \<lparr>claimSub = 2, claimExp = Some 100\<rparr>"
      "weOps (demoWeb 7) = listDB" "wsDB bobServer = [bob]" "dbFirstID listDB 2 [bob] = Some bob" "UUID bob = ''u-2''"
    by (simp_all add: demoWeb_def webRequest_def bobServer_def listDB_def bob_def)
  ultimately show ?thesis using bob_connects web_changes_authorised [OF bob_connects] by auto
qed

theorem protected_route_refuses_witness:
  "\<exists>w. ginServe (demoWeb 7) (\<lambda>_. newWriter) (webRequest POST ''/connect'' []) bobServer = (bobServer, w) \<and>
     finalStatus w \<in> {StatusUnauthorized, StatusInternalServerError}"
proof -
  obtain s' w where run: "ginServe (demoWeb 7) (\<lambda>_. newWriter) (webRequest POST ''/connect'' []) bobServer = (s', w)" by fastforce
  have "((rMethod (webRequest POST ''/connect'' []), rPath (webRequest POST ''/connect'' [])), True, HConnect) \<in> set webRoutes"
    by (simp add: webRequest_def webRoutes_def)
  moreover have "weParse (demoWeb 7) (rHeader (webRequest POST ''/connect'' []) ''Authorization'') = NilToken"
    by (simp add: demoWeb_def webRequest_def)
  ultimately show ?thesis using protected_route_refuses [OF _ run] run by auto
qed

text \<open>A signup at 0, a login at 5 and a request at 6.\<close>

definition demoLater :: "User list web_env" where
  "demoLater = (demoWeb 6)\<lparr>weParse := unaryParse\<rparr>"

lemma demo_session:
  "weOps (demoWeb now) = listDB" "weOps demoLater = listDB"
  "rMethod (webRequest m p t) = m" "rPath (webRequest m p t) = p" "rHeader (webRequest m p t) ''Authorization'' = t"
  "bindCredentials (webRequest m p t) = Some \<lparr>crEmail = ''alice'', crPassword = ''pw''\<rparr>"
  "weHash (demoWeb now) ''pw'' = Some ''h:pw''" "weCompare (demoWeb now) ''h:pw'' ''pw''"
  "dbCreate listDB (newUser (weNow (demoWeb 0)) ''alice'' ''h:pw'' (weUUID (demoWeb 0))) (wsDB (bobServer\<lparr>wsDB := []\<rparr>)) = ([alice], None)"
  "\<forall>claims. weSign (demoWeb now) claims \<noteq> None"
  "\<forall>claims t x. weSign (demoWeb now) claims = Some t \<longrightarrow> claimExp claims = Some x \<longrightarrow> unixTime (weNow demoLater) < x \<longrightarrow>
      t \<noteq> [] \<and> weParse demoLater t = Token True claims"
  "unixTime (weNow demoLater) < unixTime (weNow (demoWeb 5) + hour * 24 * 30)"
proof -
  have now: "weNow demoLater = 6" "unixTime 6 = 0" by (simp_all add: demoLater_def demoWeb_def unixTime_def second_def)
  then show "\<forall>claims t x. weSign (demoWeb now) claims = Some t \<longrightarrow> claimExp claims = Some x \<longrightarrow> unixTime (weNow demoLater) < x \<longrightarrow>
      t \<noteq> [] \<and> weParse demoLater t = Token True claims"
    using unary_law by (simp add: demoWeb_def demoLater_def)
  show "unixTime (weNow demoLater) < unixTime (weNow (demoWeb 5) + hour * 24 * 30)"
    using now by (simp add: demoWeb_def unixTime_def hour_def minute_def second_def)
  show "dbCreate listDB (newUser (weNow (demoWeb 0)) ''alice'' ''h:pw'' (weUUID (demoWeb 0))) (wsDB (bobServer\<lparr>wsDB := []\<rparr>)) = ([alice], None)"
    by (simp add: listDB_def alice_def freeID_def demoWeb_def)
qed (simp_all add: demoWeb_def demoLater_def webRequest_def bindCredentials_def onField_def keyMatches_def foldChar_def unarySign_def)

theorem session_flow_witness:
  "\<exists>s1 s2 t i. ginServe (demoWeb 0) (\<lambda>_. newWriter) (webRequest POST ''/signup'' []) (bobServer\<lparr>wsDB := []\<rparr>) =
       (s1, ginJSON StatusOK (JObj []) newWriter) \<and>
     ginServe (demoWeb 5) (\<lambda>_. newWriter) (webRequest POST ''/login'' []) s1 = (s2, ginJSON StatusOK (JObj [(''token'', JStr t)]) newWriter) \<and>
     ginServe demoLater (\<lambda>_. newWriter) (webRequest GET ''/user'' t) s2 =
       (s2, userHandler (\<lambda>_. []) (\<lambda>_. []) ((newUser 0 ''alice'' ''h:pw'' ''u-1'')\<lparr>userID := i\<rparr>) newWriter)"
proof -
  note D = demo_session
  have vals: "weNow (demoWeb 0) = 0" "weUUID (demoWeb 0) = ''u-1''" "weRfc3339 demoLater = (\<lambda>_. [])" "weDuration demoLater = (\<lambda>_. [])"
    by (simp_all add: demoWeb_def demoLater_def)
  let ?body = "\<lparr>crEmail = ''alice'', crPassword = ''pw''\<rparr>"
  have bcrypt: "weHash (demoWeb 0) (crPassword ?body) = Some ''h:pw''" "weCompare (demoWeb 5) ''h:pw'' (crPassword ?body)"
      "dbCreate listDB (newUser (weNow (demoWeb 0)) (crEmail ?body) ''h:pw'' (weUUID (demoWeb 0))) (wsDB (bobServer\<lparr>wsDB := []\<rparr>)) = ([alice], None)"
    using D(7-9) by simp_all
  from session_flow [OF listDB_laws D(1,1,2,3,4,6) D(3,4,6) bcrypt D(10-12), where noRoute = "\<lambda>_. newWriter"]
  show ?thesis unfolding vals by (metis D(3-5) credentials.select_convs(1))
qed

end
