(* ===== verification/Web_Node.thy ===== *)
theory Web_Node
  imports Node_Service Web_Server
begin

text \<open>
  The web server and a node joined by the HTTP request of \<open>Connect\<close>
  (src/web/controllers/controllers.go): the request as the node's multiplexer (src/node/server.go) gets
  it from the URL, the node's answer as the web server reads it, and a connect request of a client
  served by both.
\<close>

section \<open>Model\<close>

text \<open>The connect request as the node sees it, from the URL that \<open>Connect\<close> builds.\<close>

definition connectRequestTo :: "string \<Rightarrow> string \<Rightarrow> request" where
  "connectRequestTo url remote = \<lparr>rMethod = GET, rPath = fst (urlTarget url), rQuery = queryGet (snd (urlTarget url)),
     rHeader = (\<lambda>_. []), rRemoteAddr = remote, rBody = Some [], rJson = None\<rparr>"

text \<open>The node's answer as \<open>client.Do\<close> and \<open>io.ReadAll\<close> give it: the connection is closed on a panic;
  \<open>statusText\<close> is the text \<open>net/http\<close> has for a status.\<close>

definition nodeAnswer :: "(status \<Rightarrow> string) \<Rightarrow> ('x node_state, json writer) run \<Rightarrow> node_response" where
  "nodeAnswer statusText res =
     (case res of
        Panic _ \<Rightarrow> NodeError ''EOF''
      | Ret _ w \<Rightarrow> NodeAnswer (finalStatus w) (statusText (finalStatus w))
          (case wBody w of [j] \<Rightarrow> JsonBody j | _ \<Rightarrow> NotJson ''unexpected end of JSON input''))"

text \<open>The URL that \<open>Connect\<close> requests for a client's request, if it comes that far.\<close>

definition requestedURL :: "'d web_env \<Rightarrow> request \<Rightarrow> 'd web_server \<Rightarrow> string option" where
  "requestedURL e r ws =
     (case RequireAuth (weOps e) (weParse e) (weNow e) (rHeader r ''Authorization'') (wsDB ws) newWriter of
        Ret w (Some u) \<Rightarrow> snd (snd (Connect (connectCtx e r (Some u)) (wsConns ws) w))
      | _ \<Rightarrow> None)"

text \<open>A client's connect request at the web server, with the node it asks: \<open>None\<close> while the node looks
  for a free port.\<close>

definition connectVia ::
  "'d web_env \<Rightarrow> (request \<Rightarrow> json writer) \<Rightarrow> (status \<Rightarrow> string) \<Rightarrow> 'x connect_env \<Rightarrow> host_info \<Rightarrow> string \<Rightarrow> request \<Rightarrow>
   'x node_state \<Rightarrow> 'd web_server \<Rightarrow> ('x node_state \<times> 'd web_server \<times> json writer) option" where
  "connectVia e noRoute statusText ce h remote r ns ws =
     (case requestedURL e r ws of
        None \<Rightarrow> Some (ns, ginServe e noRoute r ws)
      | Some url \<Rightarrow>
          (case nodeMux ce h (connectRequestTo url remote) ns newWriter of
             None \<Rightarrow> None
           | Some res \<Rightarrow> Some (runState res, ginServe (e\<lparr>weNode := nodeAnswer statusText res\<rparr>) noRoute r ws)))"

section \<open>Lemmas\<close>

lemma plain_digits: "plain (natDigits n)"
  using natDigits_digits [of n] by (auto simp: plain_def isDigit_def)

lemma plain_itoa: "plain (itoa n)"
  using plain_digits by (auto simp: itoa_def plain_def)

lemma plain_no_hash: "plain s \<Longrightarrow> CHR ''#'' \<notin> set s"
  by (auto simp: plain_def)

lemma connectURL_target:
  assumes "plainHost nodeIP" "plainHost nodePort" "plain uuid" "CHR ''#'' \<notin> set email" "plain clientIP"
  shows "urlTarget (connectURL nodeIP nodePort uuid email clientIP rate) =
    (''/connect'', ''uuid='' @ uuid @ ''&email='' @ email @ ''&clientip='' @ clientIP @ ''&rate='' @ itoa rate @
       ''&burst='' @ itoa (wrap64 (rate * 3)))"
proof -
  let ?q = "''uuid='' @ uuid @ ''&email='' @ email @ ''&clientip='' @ clientIP @ ''&rate='' @ itoa rate @
       ''&burst='' @ itoa (wrap64 (rate * 3))"
  have url: "connectURL nodeIP nodePort uuid email clientIP rate =
      ''http://'' @ (nodeIP @ '':'' @ nodePort) @ CHR ''/'' # ''connect'' @ CHR ''?'' # ?q"
    by (simp add: connectURL_def)
  have host: "CHR ''#'' \<notin> set (nodeIP @ '':'' @ nodePort)" "CHR ''?'' \<notin> set (nodeIP @ '':'' @ nodePort)" "CHR ''/'' \<notin> set (nodeIP @ '':'' @ nodePort)"
    using assms(1,2) by (auto dest: plainHost_chars)
  have "CHR ''#'' \<notin> set uuid" "CHR ''#'' \<notin> set clientIP" "CHR ''#'' \<notin> set (itoa n)" for n
    using assms(3,5) plain_itoa plain_no_hash by blast+
  then have query: "CHR ''#'' \<notin> set ?q" using assms(4) by simp
  show ?thesis unfolding url
    using urlTarget_simple(1) [of "nodeIP @ '':'' @ nodePort" "''connect''" ?q] host query by simp
qed

text \<open>The pairs a node reads from the query, when no value needs escaping.\<close>

lemma connectURL_query:
  assumes "plain uuid" "plain email" "plain clientIP"
  shows "parseQuery (''uuid='' @ uuid @ ''&email='' @ email @ ''&clientip='' @ clientIP @ ''&rate='' @ itoa rate @
       ''&burst='' @ itoa b) =
    [(''uuid'', uuid), (''email'', email), (''clientip'', clientIP), (''rate'', itoa rate), (''burst'', itoa b)]"
proof -
  note pair = parseQuery_pair
  have keys: "plain ''uuid''" "plain ''email''" "plain ''clientip''" "plain ''rate''" "plain ''burst''"
    by (simp_all add: plain_def)
  show ?thesis
    using pair(1) [of "''uuid''" uuid] pair(1) [of "''email''" email] pair(1) [of "''clientip''" clientIP]
      pair(1) [of "''rate''" "itoa rate"] pair(2) [of "''burst''" "itoa b"] assms keys plain_itoa by simp
qed

lemma parseLimit_itoa: "inInt64 n \<Longrightarrow> parseLimit (itoa n) d = n"
  by (simp add: parseLimit_def parseInt_itoa itoa_nonempty)

lemma RateMap_range: "inInt64 (RateMap plan)" "inInt64 (RateMap plan * 3)" "wrap64 (RateMap plan * 3) = RateMap plan * 3"
  by (auto simp: RateMap_def inInt64_def minInt64_def maxInt64_def intro!: wrap64_id)

text \<open>What the node reads from the URL.\<close>

lemma connectRequestTo_fields:
  assumes "plainHost nodeIP" "plainHost nodePort" "plain uuid" "plain email" "plain clientIP"
    and "r = connectRequestTo (connectURL nodeIP nodePort uuid email clientIP (RateMap plan)) remote"
  shows "rPath r = ''/connect''" "rMethod r = GET" "rRemoteAddr r = remote" "rQuery r ''uuid'' = uuid" "rQuery r ''email'' = email"
    "rQuery r ''clientip'' = clientIP" "rQuery r ''rate'' = itoa (RateMap plan)" "rQuery r ''burst'' = itoa (RateMap plan * 3)"
proof -
  note target = connectURL_target [OF assms(1-3) plain_no_hash [OF assms(4)] assms(5), of "RateMap plan"]
  show "rPath r = ''/connect''" "rMethod r = GET" "rRemoteAddr r = remote"
    by (simp_all add: assms(6) connectRequestTo_def target)
  have query: "rQuery r k = (case map_of [(''uuid'', uuid), (''email'', email), (''clientip'', clientIP),
      (''rate'', itoa (RateMap plan)), (''burst'', itoa (wrap64 (RateMap plan * 3)))] k of None \<Rightarrow> [] | Some v \<Rightarrow> v)" for k
    by (simp only: assms(6) connectRequestTo_def request.simps target snd_conv queryGet_def connectURL_query [OF assms(3-5)])
  show "rQuery r ''uuid'' = uuid" "rQuery r ''email'' = email" "rQuery r ''clientip'' = clientIP"
      "rQuery r ''rate'' = itoa (RateMap plan)" "rQuery r ''burst'' = itoa (RateMap plan * 3)"
    by (simp_all add: query RateMap_range(3))
qed

text \<open>A node that is ready: it knows the caller as a web server, xray can be reached and accepts users,
  and a port is free.\<close>

definition nodeAccepts :: "'x connect_env \<Rightarrow> string \<Rightarrow> int \<Rightarrow> bool" where
  "nodeAccepts ce remote port \<longleftrightarrow>
     (\<exists>provs ip p. ceProviders ce = Some provs \<and> splitHostPort remote = Some (ip, p) \<and> ip \<in> PublicIP ` set provs) \<and>
     xrayInit (ceDial ce) cfg \<and> (\<forall>q x. snd (ceAlter ce q x)) \<and> pickPort (ceFree ce) (ceDraws ce) = Some port"

lemma ready_node_opens:
  assumes "plainHost nodeIP" "plainHost nodePort" "plain uuid" "plain email" "plain clientIP"
    and "uuid \<noteq> []" "email \<noteq> []" "clientIP \<noteq> []" "nodeAccepts ce remote port" "connections ns uuid = None"
  shows "\<exists>ns' p. nodeMux ce h (connectRequestTo (connectURL nodeIP nodePort uuid email clientIP (RateMap plan)) remote) ns newWriter =
      Some (Ret ns' (portResponse port newWriter)) \<and>
    p = \<lparr>pxPort = port, pxSourceIP = clientIP, pxRate = RateMap plan, pxBurst = 3 * RateMap plan, pxCancelled = False, pxPhase = Starting\<rparr> \<and>
    proxies ns' = proxies ns @ [p] \<and> connections ns' = (connections ns)(uuid \<mapsto> port) \<and>
    proxyServices ns' = (proxyServices ns)(uuid \<mapsto> length (proxies ns))"
proof -
  define r where "r = connectRequestTo (connectURL nodeIP nodePort uuid email clientIP (RateMap plan)) remote"
  note q = connectRequestTo_fields [OF assms(1-5) r_def]
  have "nodeMux ce h r ns newWriter = openProxy ce r ns newWriter"
    using assms(6-10) q by (auto simp: nodeMux_def nodeRoutes_def nodeServeHTTP_def handleConnect_def nodeAccepts_def)
  moreover have "\<forall>q x. snd (ceAlter ce q x)" "pickPort (ceFree ce) (ceDraws ce) = Some port" using assms(9) by (simp_all add: nodeAccepts_def)
  then have "\<exists>x. openProxy ce r ns newWriter = Some (Ret (ns\<lparr>xray := x, proxies := proxies ns @ [\<lparr>pxPort = port, pxSourceIP = clientIP,
      pxRate = RateMap plan, pxBurst = 3 * RateMap plan, pxCancelled = False, pxPhase = Starting\<rparr>], connections := (connections ns)(uuid \<mapsto> port),
      proxyServices := (proxyServices ns)(uuid \<mapsto> length (proxies ns))\<rparr>) (portResponse port newWriter))"
    by (simp add: openProxy_def addVlessUser_def q parseLimit_itoa RateMap_range case_prod_beta Let_def mult.commute) blast
  ultimately show ?thesis unfolding r_def [symmetric] by auto
qed

lemma portResponse_read:
  "nodeAnswer statusText (Ret ns (portResponse port newWriter)) =
     NodeAnswer StatusOK (statusText StatusOK) (JsonBody (JObj [(''port'', JStr (itoa port))]))"
  "decodePort (JObj [(''port'', JStr (itoa port))]) = Some (itoa port)"
  by (simp_all add: nodeAnswer_def portResponse_def http_simps decodePort_def onField_def keyMatches_def)

text \<open>A user who may connect, through the web server and a ready node.\<close>

lemma connect_through_node:
  assumes "RequireAuth (weOps e) (weParse e) (weNow e) (rHeader r ''Authorization'') (wsDB ws) newWriter = Ret newWriter (Some u)"
    and "rMethod r = POST" "rPath r = ''/connect''" "weNow e \<le> PlanEnd u" "TrafficUsed u < TrafficLimit u"
    and "weProviders e = Some regs" "find (\<lambda>reg. ServiceID reg = rQuery r ''serviceid'') regs = Some server"
    and "weRequestOk e" "Plan u \<noteq> []" "RateMap (Plan u) \<noteq> 0"
    and "plainHost (PublicIP server)" "plainHost (weVars e ''Node_Port'')" "plain (UUID u)" "plain (Email u)" "plain (weClientIP e)"
    and "UUID u \<noteq> []" "Email u \<noteq> []" "weClientIP e \<noteq> []" "nodeAccepts ce remote port" "connections ns (UUID u) = None"
  shows "\<exists>ns' ws' p. connectVia e noRoute statusText ce h remote r ns ws = Some (ns', ws',
      ginJSON StatusOK (JObj [(''port'', JStr (itoa port)), (''pubkey'', JStr (weVars e ''REALITY_PUBKEY'')), (''uuid'', JStr (UUID u))]) newWriter) \<and>
    p = \<lparr>pxPort = port, pxSourceIP = weClientIP e, pxRate = RateMap (Plan u), pxBurst = 3 * RateMap (Plan u), pxCancelled = False, pxPhase = Starting\<rparr> \<and>
    proxies ns' = proxies ns @ [p] \<and> connections ns' = (connections ns)(UUID u \<mapsto> port) \<and>
    proxyServices ns' = (proxyServices ns)(UUID u \<mapsto> length (proxies ns)) \<and>
    ws' = ws\<lparr>wsConns := addConnection (UUID u) \<lparr>ucNodeIP = PublicIP server, ucServiceID = rQuery r ''serviceid'', ucNodePort = itoa port,
      ucClientIP = weClientIP e, ucLastHeartBeat = weLater e\<rparr> (wsConns ws)\<rparr>"
proof -
  let ?url = "connectURL (PublicIP server) (weVars e ''Node_Port'') (UUID u) (Email u) (weClientIP e) (RateMap (Plan u))"
  obtain ns' p where node: "nodeMux ce h (connectRequestTo ?url remote) ns newWriter = Some (Ret ns' (portResponse port newWriter))"
      "p = \<lparr>pxPort = port, pxSourceIP = weClientIP e, pxRate = RateMap (Plan u), pxBurst = 3 * RateMap (Plan u), pxCancelled = False, pxPhase = Starting\<rparr>"
      "proxies ns' = proxies ns @ [p]" "connections ns' = (connections ns)(UUID u \<mapsto> port)"
      "proxyServices ns' = (proxyServices ns)(UUID u \<mapsto> length (proxies ns))"
    using ready_node_opens [OF assms(11-20)] by blast
  have "regs \<noteq> []" using assms(7) by auto
  note may = assms(4-10) this
  have url: "requestedURL e r ws = Some ?url"
    using may by (simp add: requestedURL_def assms(1) Connect_def connectNode_def connectCtx_def Let_def
        split: node_response.split node_body.split option.split)
  let ?e = "e\<lparr>weNode := nodeAnswer statusText (Ret ns' (portResponse port newWriter))\<rparr>"
  have "Connect (connectCtx ?e r (Some u)) (wsConns ws) newWriter = (addConnection (UUID u) \<lparr>ucNodeIP = PublicIP server,
      ucServiceID = rQuery r ''serviceid'', ucNodePort = itoa port, ucClientIP = weClientIP e, ucLastHeartBeat = weLater e\<rparr> (wsConns ws),
      ginJSON StatusOK (JObj [(''port'', JStr (itoa port)), (''pubkey'', JStr (weVars e ''REALITY_PUBKEY'')), (''uuid'', JStr (UUID u))]) newWriter,
      Some ?url)"
    using may by (simp add: Connect_def connectNode_def connectCtx_def Let_def portResponse_read)
  then have "ginServe ?e noRoute r ws = (ws\<lparr>wsConns := addConnection (UUID u) \<lparr>ucNodeIP = PublicIP server,
      ucServiceID = rQuery r ''serviceid'', ucNodePort = itoa port, ucClientIP = weClientIP e, ucLastHeartBeat = weLater e\<rparr> (wsConns ws)\<rparr>,
      ginJSON StatusOK (JObj [(''port'', JStr (itoa port)), (''pubkey'', JStr (weVars e ''REALITY_PUBKEY'')), (''uuid'', JStr (UUID u))]) newWriter)"
    using assms(1-3) by (simp add: ginServe_def webRoutes_def dispatch_def recovered_def runHandler_def)
  with node url show ?thesis by (auto simp: connectVia_def)
qed

end
