(* ===== verification/Registry_Server.thy ===== *)
theory Registry_Server
  imports Registration Heartbeat "HOL-Library.AList"
begin

text \<open>
  Model of src/registry/server.go: the table of registered services, the patches sent to the
  services that depend on them, the HTTP interface and the removal of services that stopped
  sending heartbeats.

  The Go map \<open>registrationsMap\<close> is an association list with distinct keys, so that a range over it
  can be run; where the order of the range matters it is an argument. Every attempt to send a patch
  is appended to \<open>outbox\<close>, and the argument \<open>delivered\<close> says for the n-th attempt whether it
  succeeds, so all patterns of network failure are covered. The goroutines that \<open>notify\<close> starts
  are run one after the other; Patch_Delivery lets their patches overtake each other. A panic is a value of type \<open>run\<close>; \<open>net/http\<close> recovers it.
\<close>

section \<open>Model\<close>

record registry =
  registrationsMap :: "(string \<times> Registration list) list"
  heartbeatServer :: HeartBeatServer
  outbox :: "(string \<times> patch) list"

definition newRegistry :: registry where
  "newRegistry = \<lparr>registrationsMap = [], heartbeatServer = NewHeartBeatServer, outbox = []\<rparr>"

text \<open>\<open>r.registrationsMap[name]\<close>: the nil slice when the key is missing; and the assignment to it.\<close>

definition regsOf :: "registry \<Rightarrow> string \<Rightarrow> Registration list" where
  "regsOf s name = (case map_of (registrationsMap s) name of None \<Rightarrow> [] | Some regs \<Rightarrow> regs)"

definition setRegs :: "string \<Rightarrow> Registration list \<Rightarrow> registry \<Rightarrow> registry" where
  "setRegs name regs s = s\<lparr>registrationsMap := AList.update name regs (registrationsMap s)\<rparr>"

text \<open>One attempt to send a patch; \<open>True\<close> is a nil error.\<close>

definition sendPatch :: "(nat \<Rightarrow> bool) \<Rightarrow> string \<Rightarrow> patch \<Rightarrow> registry \<Rightarrow> registry \<times> bool" where
  "sendPatch delivered url p s =
     (s\<lparr>outbox := outbox s @ [(url, p)]\<rparr>, delivered (length (outbox s)))"

text \<open>The goroutine of \<open>notify\<close> for one registration: one patch for each required service that the
  full patch touches, up to the first failure.\<close>

fun notifyLoop :: "(nat \<Rightarrow> bool) \<Rightarrow> patch \<Rightarrow> string \<Rightarrow> string list \<Rightarrow> registry \<Rightarrow> registry" where
  "notifyLoop delivered fullPatch url [] s = s"
| "notifyLoop delivered fullPatch url (reqService # rest) s =
     (let p = \<lparr>Added = filter (\<lambda>a. ServiceName a = reqService) (Added fullPatch),
               Removed = filter (\<lambda>a. ServiceName a = reqService) (Removed fullPatch)\<rparr>;
          sendUpdate = (Added p \<noteq> [] \<or> Removed p \<noteq> [])
      in if sendUpdate
         then (case sendPatch delivered url p s of
                 (s1, ok) \<Rightarrow> if ok then notifyLoop delivered fullPatch url rest s1 else s1)
         else notifyLoop delivered fullPatch url rest s)"

fun notifyAll :: "(nat \<Rightarrow> bool) \<Rightarrow> patch \<Rightarrow> Registration list \<Rightarrow> registry \<Rightarrow> registry" where
  "notifyAll delivered fullPatch [] s = s"
| "notifyAll delivered fullPatch (reg # regs) s =
     notifyAll delivered fullPatch regs
       (notifyLoop delivered fullPatch (ServiceUpdateURL reg) (RequiredServices reg) s)"

definition allRegs :: "registry \<Rightarrow> Registration list" where
  "allRegs s = concat (map snd (registrationsMap s))"

definition notify :: "(nat \<Rightarrow> bool) \<Rightarrow> patch \<Rightarrow> registry \<Rightarrow> registry" where
  "notify delivered fullPatch s = notifyAll delivered fullPatch (allRegs s) s"

fun requiredRegs :: "registry \<Rightarrow> string list \<Rightarrow> Registration list" where
  "requiredRegs s [] = []"
| "requiredRegs s (name # names) =
     (case map_of (registrationsMap s) name of None \<Rightarrow> [] | Some services \<Rightarrow> services) @ requiredRegs s names"

definition sendRequiredServices :: "(nat \<Rightarrow> bool) \<Rightarrow> Registration \<Rightarrow> registry \<Rightarrow> registry \<times> bool" where
  "sendRequiredServices delivered reg s =
     (let p = \<lparr>Added = requiredRegs s (RequiredServices reg), Removed = []\<rparr>
      in if Added p = [] \<and> Removed p = [] then (s, True)
         else sendPatch delivered (ServiceUpdateURL reg) p s)"

text \<open>
  The loop of \<open>add\<close> over the indices of the slice as it was when the loop began (\<open>n\<close> is its length
  then). The body shortens the slice but not the range, so a later index can be out of range.
\<close>

function dropDuplicates :: "(nat \<Rightarrow> bool) \<Rightarrow> Registration \<Rightarrow> nat \<Rightarrow> nat \<Rightarrow> registry \<Rightarrow> (registry, unit) run" where
  "dropDuplicates delivered reg i n s =
     (if i < n then
        (let regs = regsOf s (ServiceName reg)
         in if length regs \<le> i then Panic s
            else if ServiceURL (regs ! i) = ServiceURL reg then
              (let s1 = notify delivered \<lparr>Added = [], Removed = [regs ! i]\<rparr> s
               in dropDuplicates delivered reg (i + 1) n (setRegs (ServiceName reg) (delAt i regs) s1))
            else dropDuplicates delivered reg (i + 1) n s)
      else Ret s ())"
  by pat_completeness auto
termination
  by (relation "measure (\<lambda>(d, reg, i, n, s). n - i)") auto

declare dropDuplicates.simps [simp del]

text \<open>The result is whether the returned error is nil.\<close>

definition addReg :: "(nat \<Rightarrow> bool) \<Rightarrow> Registration \<Rightarrow> registry \<Rightarrow> (registry, bool) run" where
  "addReg delivered reg s =
     (case dropDuplicates delivered reg 0 (length (regsOf s (ServiceName reg))) s of
        Panic s1 \<Rightarrow> Panic s1
      | Ret s1 _ \<Rightarrow>
          (let s2 = setRegs (ServiceName reg) (regsOf s1 (ServiceName reg) @ [reg]) s1;
               (s3, err) = sendRequiredServices delivered reg s2
           in Ret (notify delivered \<lparr>Added = [reg], Removed = []\<rparr> s3) err))"

fun findURL :: "string \<Rightarrow> Registration list \<Rightarrow> nat option" where
  "findURL url [] = None"
| "findURL url (r # rs) = (if ServiceURL r = url then Some 0 else map_option Suc (findURL url rs))"

text \<open>The result is whether the returned error is nil.\<close>

definition removeReg :: "(nat \<Rightarrow> bool) \<Rightarrow> string \<Rightarrow> string \<Rightarrow> registry \<Rightarrow> registry \<times> bool" where
  "removeReg delivered serviceName url s =
     (let regs = regsOf s serviceName
      in case findURL url regs of
           None \<Rightarrow> (s, False)
         | Some i \<Rightarrow>
             (let s1 = notify delivered \<lparr>Added = [], Removed = [regs ! i]\<rparr> s
              in (setRegs serviceName (delAt i regs) s1, True)))"

definition IsServiceRegistered :: "registry \<Rightarrow> string \<Rightarrow> bool" where
  "IsServiceRegistered s serviceID \<longleftrightarrow>
     (\<exists>(name, regs) \<in> set (registrationsMap s). \<exists>r \<in> set regs. ServiceID r = serviceID)"

section \<open>HTTP interface\<close>

datatype reg_body = RText string | RRegs "Registration list"

definition registryGet :: "request \<Rightarrow> registry \<Rightarrow> reg_body writer \<Rightarrow> reg_body writer" where
  "registryGet r s w =
     (let serviceName = rQuery r ''serviceName'';
          w1 = (if serviceName = []
                then writeBody (RText ''Service name is required'') (writeHeader StatusBadRequest w)
                else w)
      in case map_of (registrationsMap s) serviceName of
           Some services \<Rightarrow> writeBody (RRegs services) w1
         | None \<Rightarrow> writeBody (RText ''[]'') w1)"

text \<open>\<open>uuid\<close> is the value of \<open>utils.GenerateUUID\<close>, \<open>regkey\<close> that of \<open>utils.Regkey\<close>.\<close>

definition registryPost ::
  "(nat \<Rightarrow> bool) \<Rightarrow> string \<Rightarrow> string \<Rightarrow> time \<Rightarrow> request \<Rightarrow> registry \<Rightarrow> reg_body writer \<Rightarrow>
   (registry, reg_body writer) run" where
  "registryPost delivered regkey uuid now r s w =
     (if regkey \<noteq> rHeader r ''regkey'' then Ret s (writeHeader StatusUnauthorized w)
      else
        (case (case rJson r of None \<Rightarrow> None | Some j \<Rightarrow> decodeRegistration j emptyRegistration) of
           None \<Rightarrow> Ret s (writeHeader StatusBadRequest w)
         | Some d \<Rightarrow>
             if ServiceName d = [] \<or> ServiceURL d = [] then Ret s (writeHeader StatusBadRequest w)
             else
               (let reg = d\<lparr>ServiceID := uuid\<rparr>;
                    s1 = (if ServiceID reg \<noteq> []
                          then s\<lparr>heartbeatServer := (heartbeatServer s)\<lparr>LastHeartBeat :=
                                   (LastHeartBeat (heartbeatServer s))(ServiceID reg \<mapsto> now)\<rparr>\<rparr>
                          else s)
                in case addReg delivered reg s1 of
                     Panic s2 \<Rightarrow> Panic s2
                   | Ret s2 err \<Rightarrow>
                       if \<not> err then Ret s2 (writeHeader StatusInternalServerError w)
                       else Ret s2 (writeBody (RText (ServiceID reg)) (writeHeader StatusOK w)))))"

definition registryDelete ::
  "(nat \<Rightarrow> bool) \<Rightarrow> request \<Rightarrow> registry \<Rightarrow> reg_body writer \<Rightarrow> registry \<times> reg_body writer" where
  "registryDelete delivered r s w =
     (case rBody r of
        None \<Rightarrow> (s, writeHeader StatusBadRequest w)
      | Some url \<Rightarrow>
          (let serviceName = rQuery r ''serviceName''
           in if serviceName = [] then (s, writeHeader StatusBadRequest w)
              else
                (case removeReg delivered serviceName url s of
                   (s1, ok) \<Rightarrow> if \<not> ok then (s1, writeHeader StatusInternalServerError w) else (s1, w))))"

definition registryServeHTTP ::
  "(nat \<Rightarrow> bool) \<Rightarrow> string \<Rightarrow> string \<Rightarrow> time \<Rightarrow> request \<Rightarrow> registry \<Rightarrow> reg_body writer \<Rightarrow>
   (registry, reg_body writer) run" where
  "registryServeHTTP delivered regkey uuid now r s w =
     (case rMethod r of
        GET \<Rightarrow> Ret s (registryGet r s w)
      | POST \<Rightarrow> registryPost delivered regkey uuid now r s w
      | DELETE \<Rightarrow> (case registryDelete delivered r s w of (s1, w1) \<Rightarrow> Ret s1 w1)
      | _ \<Rightarrow> Ret s (writeHeader StatusMethodNotAllowed w))"

section \<open>Removal of inactive services\<close>

definition inactive :: "(string \<rightharpoonup> time) \<Rightarrow> (Registration \<Rightarrow> time) \<Rightarrow> Registration \<Rightarrow> bool" where
  "inactive lastHeartBeat clock reg \<longleftrightarrow>
     timeSub (clock reg)
       (case lastHeartBeat (ServiceID reg) of None \<Rightarrow> zeroTime | Some t \<Rightarrow> t) > 20 * second"

fun removeInactiveRegs ::
  "(nat \<Rightarrow> bool) \<Rightarrow> (string \<rightharpoonup> time) \<Rightarrow> (Registration \<Rightarrow> time) \<Rightarrow> string \<Rightarrow> Registration list \<Rightarrow>
   registry \<Rightarrow> registry" where
  "removeInactiveRegs delivered lastHeartBeat clock serviceName [] s = s"
| "removeInactiveRegs delivered lastHeartBeat clock serviceName (reg # regs) s =
     removeInactiveRegs delivered lastHeartBeat clock serviceName regs
       (if inactive lastHeartBeat clock reg
        then fst (removeReg delivered serviceName (ServiceURL reg) s) else s)"

fun removeInactiveFrom ::
  "(nat \<Rightarrow> bool) \<Rightarrow> (string \<rightharpoonup> time) \<Rightarrow> (Registration \<Rightarrow> time) \<Rightarrow> (string \<times> Registration list) list \<Rightarrow>
   registry \<Rightarrow> registry" where
  "removeInactiveFrom delivered lastHeartBeat clock [] s = s"
| "removeInactiveFrom delivered lastHeartBeat clock ((serviceName, registrations) # rest) s =
     removeInactiveFrom delivered lastHeartBeat clock rest
       (removeInactiveRegs delivered lastHeartBeat clock serviceName registrations s)"

text \<open>The snapshot is ranged over in any order: \<open>order\<close> rearranges it. \<open>clock reg\<close> is the time at
  which \<open>reg\<close> is checked.\<close>

definition removeInactiveServices ::
  "(nat \<Rightarrow> bool) \<Rightarrow> ((string \<times> Registration list) list \<Rightarrow> (string \<times> Registration list) list) \<Rightarrow>
   (Registration \<Rightarrow> time) \<Rightarrow> registry \<Rightarrow> registry" where
  "removeInactiveServices delivered order clock s =
     removeInactiveFrom delivered (LastHeartBeat (heartbeatServer s)) clock (order (registrationsMap s)) s"

section \<open>Specification\<close>

text \<open>The invariant: within a service name, URLs and ids are distinct, every registration is filed
  under its own name and was heard of at least once.\<close>

definition reg_inv :: "registry \<Rightarrow> bool" where
  "reg_inv s \<longleftrightarrow> distinct (map fst (registrationsMap s)) \<and>
     (\<forall>n. distinct (map ServiceURL (regsOf s n)) \<and> distinct (map ServiceID (regsOf s n)) \<and>
        (\<forall>r \<in> set (regsOf s n). ServiceName r = n \<and> LastHeartBeat (heartbeatServer s) (ServiceID r) \<noteq> None))"

definition freshID :: "registry \<Rightarrow> string \<Rightarrow> bool" where
  "freshID s i \<longleftrightarrow> i \<notin> ServiceID ` set (allRegs s)"

text \<open>The registry process: HTTP requests (with fresh ids), heartbeats and sweeps in any order.\<close>

inductive reg_step :: "string \<Rightarrow> registry \<Rightarrow> registry \<Rightarrow> bool" for regkey where
  http: "freshID s uuid \<Longrightarrow> uuid \<noteq> [] \<Longrightarrow>
    reg_step regkey s (runState (registryServeHTTP delivered regkey uuid now r s w))"
| heartbeat: "heartbeatServeHTTP (Some (IsServiceRegistered s)) now r (heartbeatServer s) w = (h, w') \<Longrightarrow>
    reg_step regkey s (s\<lparr>heartbeatServer := h\<rparr>)"
| sweep: "set (order (registrationsMap s)) = set (registrationsMap s) \<Longrightarrow>
    distinct (map fst (order (registrationsMap s))) \<Longrightarrow>
    reg_step regkey s (removeInactiveServices delivered order clock s)"

inductive reg_reach :: "string \<Rightarrow> registry \<Rightarrow> bool" for regkey where
  init: "reg_reach regkey newRegistry"
| step: "reg_reach regkey s \<Longrightarrow> reg_step regkey s s' \<Longrightarrow> reg_reach regkey s'"

section \<open>Lemmas: table and patches\<close>

lemma notifyLoop_frame: "\<exists>msgs. notifyLoop d p u ns s = s\<lparr>outbox := outbox s @ msgs\<rparr>"
proof (induction ns arbitrary: s)
  case Nil
  show ?case by (rule exI [of _ "[]"]) simp
next
  case (Cons n ns)
  let ?p = "\<lparr>Added = filter (\<lambda>a. ServiceName a = n) (Added p), Removed = filter (\<lambda>a. ServiceName a = n) (Removed p)\<rparr>"
  obtain m1 where m1: "notifyLoop d p u ns s = s\<lparr>outbox := outbox s @ m1\<rparr>" using Cons by blast
  obtain m2 where m2: "notifyLoop d p u ns (s\<lparr>outbox := outbox s @ [(u, ?p)]\<rparr>) =
      s\<lparr>outbox := outbox s @ (u, ?p) # m2\<rparr>"
    using Cons [of "s\<lparr>outbox := outbox s @ [(u, ?p)]\<rparr>"] by auto
  show ?case using m1 m2 by (auto simp: Let_def sendPatch_def)
qed

lemma notifyAll_frame: "\<exists>msgs. notifyAll d p regs s = s\<lparr>outbox := outbox s @ msgs\<rparr>"
proof (induction regs arbitrary: s)
  case Nil
  show ?case by (rule exI [of _ "[]"]) simp
next
  case (Cons r regs)
  obtain m1 where m1: "notifyLoop d p (ServiceUpdateURL r) (RequiredServices r) s = s\<lparr>outbox := outbox s @ m1\<rparr>"
    using notifyLoop_frame by blast
  then show ?case using Cons [of "s\<lparr>outbox := outbox s @ m1\<rparr>"] by auto
qed

lemma notify_frame [simp]:
  "registrationsMap (notify d p s) = registrationsMap s" "heartbeatServer (notify d p s) = heartbeatServer s"
  using notifyAll_frame [of d p "allRegs s" s] by (auto simp: notify_def)

lemma sendRequiredServices_frame [simp]:
  "registrationsMap (fst (sendRequiredServices d r s)) = registrationsMap s"
  "heartbeatServer (fst (sendRequiredServices d r s)) = heartbeatServer s"
  by (auto simp: sendRequiredServices_def sendPatch_def Let_def)

lemma regsOf_cong: "registrationsMap s = registrationsMap t \<Longrightarrow> regsOf s n = regsOf t n"
  by (simp add: regsOf_def)

lemma regsOf_notify [simp]: "regsOf (notify d p s) n = regsOf s n"
  by (simp add: regsOf_def)

lemma regsOf_setRegs [simp]: "regsOf (setRegs n regs s) m = (if m = n then regs else regsOf s m)"
  by (simp add: regsOf_def setRegs_def update_conv')

lemma heartbeatServer_setRegs [simp]: "heartbeatServer (setRegs n regs s) = heartbeatServer s"
  by (simp add: setRegs_def)

lemma distinct_keys_setRegs [simp]:
  "distinct (map fst (registrationsMap (setRegs n regs s))) = distinct (map fst (registrationsMap s))"
  by (simp add: setRegs_def update_keys)

lemma set_allRegs:
  "distinct (map fst (registrationsMap s)) \<Longrightarrow> r \<in> set (allRegs s) \<longleftrightarrow> (\<exists>n. r \<in> set (regsOf s n))"
proof
  assume dist: "distinct (map fst (registrationsMap s))" and "r \<in> set (allRegs s)"
  then obtain n regs where "(n, regs) \<in> set (registrationsMap s)" "r \<in> set regs"
    by (auto simp: allRegs_def)
  with dist have "r \<in> set (regsOf s n)" by (simp add: regsOf_def)
  then show "\<exists>n. r \<in> set (regsOf s n)" ..
next
  assume "\<exists>n. r \<in> set (regsOf s n)"
  then obtain n where n: "r \<in> set (regsOf s n)" ..
  then have "map_of (registrationsMap s) n = Some (regsOf s n)"
    by (cases "map_of (registrationsMap s) n") (simp_all add: regsOf_def)
  then have "(n, regsOf s n) \<in> set (registrationsMap s)" by (rule map_of_SomeD)
  with n show "r \<in> set (allRegs s)" by (auto simp: allRegs_def intro!: bexI [of _ "(n, regsOf s n)"])
qed

lemma findURL_Some:
  "findURL url regs = Some i \<longleftrightarrow> i < length regs \<and> ServiceURL (regs ! i) = url \<and> (\<forall>k<i. ServiceURL (regs ! k) \<noteq> url)"
proof (induction regs arbitrary: i)
  case (Cons r regs)
  then show ?case by (cases i) (auto simp: nth_Cons' All_less_Suc2)
qed simp

lemma findURL_None: "findURL url regs = None \<longleftrightarrow> url \<notin> ServiceURL ` set regs"
  by (induction regs) auto

section \<open>Lemmas: the loop of \<open>add\<close>\<close>

lemma dropDuplicates_none:
  assumes "\<forall>k. i \<le> k \<and> k < n \<longrightarrow> k < length (regsOf s (ServiceName reg)) \<and>
      ServiceURL (regsOf s (ServiceName reg) ! k) \<noteq> ServiceURL reg"
  shows "dropDuplicates d reg i n s = Ret s ()"
  using assms
proof (induction "n - i" arbitrary: i)
  case 0
  then show ?case by (simp add: dropDuplicates.simps)
next
  case (Suc m)
  then have "dropDuplicates d reg (i + 1) n s = Ret s ()" by simp
  moreover have "i < n" using Suc.hyps(2) by simp
  moreover from this have "i < length (regsOf s (ServiceName reg))"
      "ServiceURL (regsOf s (ServiceName reg) ! i) \<noteq> ServiceURL reg"
    using Suc.prems by auto
  ultimately show ?case by (simp add: dropDuplicates.simps [of d reg i] Let_def)
qed

text \<open>A range longer than the slice runs out of it.\<close>

lemma dropDuplicates_short:
  assumes "i \<le> length (regsOf s (ServiceName reg))" "length (regsOf s (ServiceName reg)) < n"
    "\<forall>k. i \<le> k \<and> k < length (regsOf s (ServiceName reg)) \<longrightarrow>
      ServiceURL (regsOf s (ServiceName reg) ! k) \<noteq> ServiceURL reg"
  shows "dropDuplicates d reg i n s = Panic s"
  using assms
proof (induction "n - i" arbitrary: i)
  case 0
  then show ?case by simp
next
  case (Suc m)
  show ?case
  proof (cases "i = length (regsOf s (ServiceName reg))")
    case True
    with Suc.prems(2) show ?thesis by (subst dropDuplicates.simps) simp
  next
    case False
    with Suc have "dropDuplicates d reg (i + 1) n s = Panic s" by simp
    with Suc.prems False show ?thesis by (simp add: dropDuplicates.simps [of d reg i] Let_def)
  qed
qed

text \<open>The steps up to the first duplicate, and its removal.\<close>

lemma dropDuplicates_upto:
  assumes "i \<le> j" "j < n" "j < length (regsOf s (ServiceName reg))"
    "ServiceURL (regsOf s (ServiceName reg) ! j) = ServiceURL reg"
    "\<forall>k. i \<le> k \<and> k < j \<longrightarrow> ServiceURL (regsOf s (ServiceName reg) ! k) \<noteq> ServiceURL reg"
  shows "dropDuplicates d reg i n s = dropDuplicates d reg (j + 1) n
    (setRegs (ServiceName reg) (delAt j (regsOf s (ServiceName reg)))
      (notify d \<lparr>Added = [], Removed = [regsOf s (ServiceName reg) ! j]\<rparr> s))"
  using assms
proof (induction "j - i" arbitrary: i)
  case 0
  then have "i = j" by simp
  with 0 show ?case by (simp add: dropDuplicates.simps [of d reg j n s] Let_def)
next
  case (Suc m)
  then have "dropDuplicates d reg i n s = dropDuplicates d reg (i + 1) n s"
    by (simp add: dropDuplicates.simps [of d reg i] Let_def)
  also have "\<dots> = dropDuplicates d reg (j + 1) n
    (setRegs (ServiceName reg) (delAt j (regsOf s (ServiceName reg)))
      (notify d \<lparr>Added = [], Removed = [regsOf s (ServiceName reg) ! j]\<rparr> s))"
    using Suc by (intro Suc.hyps(1)) auto
  finally show ?case .
qed

lemma delAt_distinct_other:
  assumes "distinct (map f xs)" "j < length xs" "k < length (delAt j xs)"
  shows "f (delAt j xs ! k) \<noteq> f (xs ! j)"
proof -
  have "delAt j xs ! k = xs ! (if k < j then k else Suc k)"
    using assms(2,3) by (simp add: delAt_def nth_append)
  moreover have "(if k < j then k else Suc k) < length xs" "(if k < j then k else Suc k) \<noteq> j"
    using assms(2,3) by (auto split: if_splits)
  ultimately show ?thesis
    using nth_eq_iff_index_eq [OF assms(1), of "if k < j then k else Suc k" j] assms(2) by auto
qed

lemma findURL_delAt:
  assumes "distinct (map ServiceURL regs)" "findURL url regs = Some j"
  shows "findURL url (delAt j regs) = None"
proof -
  have j: "j < length regs" "ServiceURL (regs ! j) = url" using assms(2) by (simp_all add: findURL_Some)
  have "ServiceURL x \<noteq> url" if x: "x \<in> set (delAt j regs)" for x
  proof -
    obtain k where "k < length (delAt j regs)" "x = delAt j regs ! k" using x by (auto simp: in_set_conv_nth)
    with delAt_distinct_other [OF assms(1) j(1), of k] j(2) show ?thesis by simp
  qed
  then show ?thesis by (auto simp: findURL_None)
qed

lemma dropDuplicates_result:
  fixes s :: registry and reg :: Registration
  defines "regs \<equiv> regsOf s (ServiceName reg)"
  assumes dist: "distinct (map ServiceURL regs)"
  shows "dropDuplicates d reg 0 (length regs) s =
    (case findURL (ServiceURL reg) regs of
       None \<Rightarrow> Ret s ()
     | Some j \<Rightarrow>
         (let s1 = setRegs (ServiceName reg) (delAt j regs) (notify d \<lparr>Added = [], Removed = [regs ! j]\<rparr> s)
          in if Suc j = length regs then Ret s1 () else Panic s1))"
proof (cases "findURL (ServiceURL reg) regs")
  case None
  then have "dropDuplicates d reg 0 (length regs) s = Ret s ()"
    by (intro dropDuplicates_none) (metis findURL_None image_eqI nth_mem regs_def)
  with None show ?thesis by simp
next
  case (Some j)
  then have j: "j < length regs" "ServiceURL (regs ! j) = ServiceURL reg"
      "\<forall>k<j. ServiceURL (regs ! k) \<noteq> ServiceURL reg"
    by (auto simp: findURL_Some)
  define s1 where "s1 = setRegs (ServiceName reg) (delAt j regs) (notify d \<lparr>Added = [], Removed = [regs ! j]\<rparr> s)"
  have "dropDuplicates d reg 0 (length regs) s = dropDuplicates d reg (j + 1) (length regs) s1"
    unfolding s1_def regs_def by (rule dropDuplicates_upto) (use j in \<open>simp_all add: regs_def\<close>)
  moreover have s1: "regsOf s1 (ServiceName reg) = delAt j regs" by (simp add: s1_def)
  moreover have "\<forall>k<length (delAt j regs). ServiceURL (delAt j regs ! k) \<noteq> ServiceURL reg"
    using delAt_distinct_other [OF dist j(1)] j(2) by simp
  moreover have "Suc j = length regs \<Longrightarrow> dropDuplicates d reg (j + 1) (length regs) s1 = Ret s1 ()"
    by (simp add: dropDuplicates.simps)
  moreover have "Suc j \<noteq> length regs \<Longrightarrow> dropDuplicates d reg (j + 1) (length regs) s1 = Panic s1"
    using j(1) calculation(2,3) by (intro dropDuplicates_short) auto
  ultimately show ?thesis using Some by (auto simp: s1_def Let_def)
qed

text \<open>What \<open>add\<close> makes of the slice of its service name, and that it leaves the others alone.\<close>

lemma addReg_result:
  fixes s :: registry and reg :: Registration
  defines "n \<equiv> ServiceName reg"
  defines "regs \<equiv> regsOf s n"
  assumes dist: "distinct (map ServiceURL regs)"
  shows "case findURL (ServiceURL reg) regs of
      None \<Rightarrow> \<exists>s' err. addReg d reg s = Ret s' err \<and> regsOf s' n = regs @ [reg]
    | Some j \<Rightarrow>
        if Suc j = length regs then \<exists>s' err. addReg d reg s = Ret s' err \<and> regsOf s' n = butlast regs @ [reg]
        else \<exists>s'. addReg d reg s = Panic s' \<and> regsOf s' n = delAt j regs"
    and "\<forall>m. m \<noteq> n \<longrightarrow> regsOf (runState (addReg d reg s)) m = regsOf s m"
    and "heartbeatServer (runState (addReg d reg s)) = heartbeatServer s"
    and "distinct (map fst (registrationsMap (runState (addReg d reg s)))) = distinct (map fst (registrationsMap s))"
proof -
  note loop = dropDuplicates_result [of s reg d, folded n_def, folded regs_def, OF dist]
  have frame: "regsOf (fst (sendRequiredServices d reg t)) m = regsOf t m" for t m
    by (rule regsOf_cong) simp
  have butlast: "Suc j = length regs \<Longrightarrow> delAt j regs = butlast regs" for j
    by (simp add: butlast_delAt)
  show "case findURL (ServiceURL reg) regs of
      None \<Rightarrow> \<exists>s' err. addReg d reg s = Ret s' err \<and> regsOf s' n = regs @ [reg]
    | Some j \<Rightarrow>
        if Suc j = length regs then \<exists>s' err. addReg d reg s = Ret s' err \<and> regsOf s' n = butlast regs @ [reg]
        else \<exists>s'. addReg d reg s = Panic s' \<and> regsOf s' n = delAt j regs"
    using loop frame butlast
    by (auto simp: addReg_def Let_def case_prod_beta n_def regs_def split: option.split)
  show "\<forall>m. m \<noteq> n \<longrightarrow> regsOf (runState (addReg d reg s)) m = regsOf s m"
    using loop frame by (auto simp: addReg_def Let_def case_prod_beta n_def regs_def split: option.split)
  show "heartbeatServer (runState (addReg d reg s)) = heartbeatServer s"
    using loop by (auto simp: addReg_def Let_def case_prod_beta n_def regs_def split: option.split)
  show "distinct (map fst (registrationsMap (runState (addReg d reg s)))) = distinct (map fst (registrationsMap s))"
    using loop by (auto simp: addReg_def Let_def case_prod_beta n_def regs_def split: option.split)
qed

lemma removeReg_result:
  "removeReg d n url s =
     (case findURL url (regsOf s n) of
        None \<Rightarrow> (s, False)
      | Some i \<Rightarrow> (setRegs n (delAt i (regsOf s n)) (notify d \<lparr>Added = [], Removed = [regsOf s n ! i]\<rparr> s), True))"
  by (simp add: removeReg_def Let_def split: option.split)

section \<open>Lemmas: the invariant\<close>

definition slice_ok :: "HeartBeatServer \<Rightarrow> string \<Rightarrow> Registration list \<Rightarrow> bool" where
  "slice_ok h n regs \<longleftrightarrow> distinct (map ServiceURL regs) \<and> distinct (map ServiceID regs) \<and>
     (\<forall>r \<in> set regs. ServiceName r = n \<and> LastHeartBeat h (ServiceID r) \<noteq> None)"

lemma reg_inv_slices:
  "reg_inv s \<longleftrightarrow> distinct (map fst (registrationsMap s)) \<and> (\<forall>n. slice_ok (heartbeatServer s) n (regsOf s n))"
  by (simp add: reg_inv_def slice_ok_def)

lemma reg_invD:
  assumes "reg_inv s"
  shows "distinct (map fst (registrationsMap s))" "distinct (map ServiceURL (regsOf s n))"
    "distinct (map ServiceID (regsOf s n))" "r \<in> set (regsOf s n) \<Longrightarrow> ServiceName r = n"
    "r \<in> set (regsOf s n) \<Longrightarrow> \<exists>t. LastHeartBeat (heartbeatServer s) (ServiceID r) = Some t"
  using assms by (simp_all add: reg_inv_def)

lemma slice_ok_delAt: "slice_ok h n regs \<Longrightarrow> slice_ok h n (delAt i regs)"
  unfolding slice_ok_def using set_delAt_subset [of i regs]
  by (auto simp: delAt_map [symmetric] intro: distinct_delAt)

lemma slice_ok_append:
  "slice_ok h n regs \<Longrightarrow> ServiceName r = n \<Longrightarrow> LastHeartBeat h (ServiceID r) \<noteq> None \<Longrightarrow>
   ServiceURL r \<notin> ServiceURL ` set regs \<Longrightarrow> ServiceID r \<notin> ServiceID ` set regs \<Longrightarrow> slice_ok h n (regs @ [r])"
  by (auto simp: slice_ok_def)

lemma slice_ok_heartbeat:
  "slice_ok h n regs \<Longrightarrow> slice_ok (h\<lparr>LastHeartBeat := (LastHeartBeat h)(i \<mapsto> t)\<rparr>) n regs"
  by (auto simp: slice_ok_def)

lemma reg_inv_new: "reg_inv newRegistry"
  by (simp add: reg_inv_def newRegistry_def regsOf_def)

lemma freshID_slice: "freshID s i \<Longrightarrow> distinct (map fst (registrationsMap s)) \<Longrightarrow> i \<notin> ServiceID ` set (regsOf s n)"
  using set_allRegs [of s] by (fastforce simp: freshID_def)

lemma addReg_inv:
  assumes inv: "reg_inv s" and fresh: "freshID s (ServiceID reg)"
    and hb: "LastHeartBeat (heartbeatServer s) (ServiceID reg) \<noteq> None"
  shows "reg_inv (runState (addReg d reg s))"
proof -
  let ?n = "ServiceName reg"
  let ?regs = "regsOf s ?n"
  have ok: "slice_ok (heartbeatServer s) ?n ?regs" and keys: "distinct (map fst (registrationsMap s))"
    using inv by (simp_all add: reg_inv_slices)
  have dist: "distinct (map ServiceURL ?regs)" using ok by (simp add: slice_ok_def)
  note res = addReg_result [OF dist, of d]
  have id: "ServiceID reg \<notin> ServiceID ` set ?regs" by (rule freshID_slice [OF fresh keys])
  have "slice_ok (heartbeatServer s) ?n (regsOf (runState (addReg d reg s)) ?n)"
  proof (cases "findURL (ServiceURL reg) ?regs")
    case None
    then have "ServiceURL reg \<notin> ServiceURL ` set ?regs" by (simp add: findURL_None)
    with slice_ok_append [OF ok refl hb _ id] res(1) None show ?thesis by auto
  next
    case (Some j)
    then have j: "j < length ?regs" "ServiceURL (?regs ! j) = ServiceURL reg" by (auto simp: findURL_Some)
    have "ServiceURL reg \<notin> ServiceURL ` set (delAt j ?regs)"
      using findURL_delAt [OF dist Some] by (simp add: findURL_None)
    moreover have "ServiceID reg \<notin> ServiceID ` set (delAt j ?regs)"
      using id set_delAt_subset [of j ?regs] by blast
    ultimately have new: "slice_ok (heartbeatServer s) ?n (delAt j ?regs @ [reg])"
      using slice_ok_append [OF slice_ok_delAt [OF ok] refl hb] by blast
    with res(1) Some slice_ok_delAt [OF ok, of j] butlast_delAt [of j ?regs] show ?thesis by (auto split: if_splits)
  qed
  with res(2-4) inv show ?thesis unfolding reg_inv_slices by metis
qed

lemma removeReg_inv: "reg_inv s \<Longrightarrow> reg_inv (fst (removeReg d n url s))"
  by (auto simp: removeReg_result reg_inv_slices slice_ok_delAt split: option.split)

lemma removeInactiveRegs_inv: "reg_inv s \<Longrightarrow> reg_inv (removeInactiveRegs d l c n regs s)"
  by (induction regs arbitrary: s) (auto intro: removeReg_inv)

lemma removeInactiveFrom_inv: "reg_inv s \<Longrightarrow> reg_inv (removeInactiveFrom d l c snap s)"
  by (induction snap arbitrary: s) (auto simp: removeInactiveRegs_inv)

lemma reg_inv_heartbeat:
  "reg_inv s \<Longrightarrow> reg_inv (s\<lparr>heartbeatServer := (heartbeatServer s)\<lparr>LastHeartBeat :=
     (LastHeartBeat (heartbeatServer s))(i \<mapsto> t)\<rparr>\<rparr>)"
  by (simp add: reg_inv_slices slice_ok_heartbeat regsOf_def)

lemma registryPost_inv:
  assumes "reg_inv s" "freshID s uuid" "uuid \<noteq> []"
  shows "reg_inv (runState (registryPost d regkey uuid now r s w))"
proof -
  let ?s1 = "s\<lparr>heartbeatServer := (heartbeatServer s)\<lparr>LastHeartBeat :=
     (LastHeartBeat (heartbeatServer s))(uuid \<mapsto> now)\<rparr>\<rparr>"
  have "reg_inv (runState (addReg d (x\<lparr>ServiceID := uuid\<rparr>) ?s1))" for x
    using assms(1,2) by (intro addReg_inv reg_inv_heartbeat) (simp_all add: freshID_def allRegs_def)
  then have "reg_inv t" if "addReg d (x\<lparr>ServiceID := uuid\<rparr>) ?s1 = Panic t \<or>
      addReg d (x\<lparr>ServiceID := uuid\<rparr>) ?s1 = Ret t err" for x t err
    using that by (metis runState.simps)
  then show ?thesis using assms(1,3) by (auto simp: registryPost_def Let_def split: option.split run.split)
qed

lemma reg_step_inv: "reg_step regkey s s' \<Longrightarrow> reg_inv s \<Longrightarrow> reg_inv s'"
proof (induction rule: reg_step.induct)
  case (http s uuid d now r w)
  then show ?case
    using registryPost_inv [of s uuid d regkey now r w] removeReg_inv [of s d]
    by (auto simp: registryServeHTTP_def registryDelete_def Let_def
        split: http_method.split option.split prod.split) (metis fst_conv)+
next
  case (heartbeat s now r w h w')
  then show ?case
    by (auto simp: heartbeatServeHTTP_def HandleCommonLogic_def reg_inv_heartbeat
        split: option.splits if_splits heartbeat_handler.splits elim!: HandleHeartbeat.elims)
next
  case (sweep order s d clock)
  then show ?case by (simp add: removeInactiveServices_def removeInactiveFrom_inv)
qed

interpretation reg_system: invariant_system "\<lambda>s. s = newRegistry" "reg_step regkey" "reg_reach regkey" reg_inv
  for regkey :: string
proof
  show "reg_reach regkey s \<Longrightarrow> \<exists>s0. s0 = newRegistry \<and> (reg_step regkey)\<^sup>*\<^sup>* s0 s" for s
    by (induction rule: reg_reach.induct) (auto intro: rtranclp.rtrancl_into_rtrancl)
qed (auto simp: reg_inv_new intro: reg_reach.intros reg_step_inv)

lemmas reg_reach_inv = reg_system.reachable_inv

text \<open>The heartbeat endpoints never change.\<close>

lemma heartbeatServer_removeInactive [simp]:
  "heartbeatServer (removeInactiveRegs d l c n regs s) = heartbeatServer s"
  "heartbeatServer (removeInactiveFrom d l c snap s) = heartbeatServer s"
proof -
  show "heartbeatServer (removeInactiveRegs d l c n regs s) = heartbeatServer s" for n regs s
    by (induction regs arbitrary: s) (simp_all add: removeReg_result split: option.split)
  then show "heartbeatServer (removeInactiveFrom d l c snap s) = heartbeatServer s"
    by (induction snap arbitrary: s) auto
qed

lemma registryServeHTTP_types:
  assumes "reg_inv s"
  shows "HeartBeatTypeMap (heartbeatServer (runState (registryServeHTTP d regkey uuid now r s w))) =
    HeartBeatTypeMap (heartbeatServer s)"
proof -
  have "HeartBeatTypeMap (heartbeatServer (runState (registryPost d regkey uuid now r s w))) =
      HeartBeatTypeMap (heartbeatServer s)"
  proof -
    have "heartbeatServer (runState (addReg d x s1)) = heartbeatServer s1" if "registrationsMap s1 = registrationsMap s" for x s1
      using addReg_result(3) reg_invD(2) [OF assms] regsOf_cong [OF that] by metis
    note add0 = this
    have "HeartBeatTypeMap (heartbeatServer (runState (case addReg d x s1 of Panic s2 \<Rightarrow> Panic s2
        | Ret s2 err \<Rightarrow> if \<not> err then Ret s2 A else Ret s2 B))) = HeartBeatTypeMap (heartbeatServer s1)"
      if "registrationsMap s1 = registrationsMap s" for x s1 and A B :: "reg_body writer"
    proof -
      have "heartbeatServer (runState (addReg d x s1)) = heartbeatServer s1" by (rule add0 [OF that])
      then show ?thesis by (cases "addReg d x s1") simp_all
    qed
    note add = this
    show ?thesis
      by (simp add: registryPost_def Let_def add split: option.split)
  qed
  then show ?thesis
    by (auto simp: registryServeHTTP_def registryDelete_def removeReg_result Let_def
        split: http_method.split option.split prod.split)
qed

lemma reg_reach_types: "reg_reach regkey s \<Longrightarrow> HeartBeatTypeMap (heartbeatServer s) = HeartBeatTypeMap NewHeartBeatServer"
proof (induction rule: reg_reach.induct)
  case (step s s')
  have inv: "reg_inv s" by (rule reg_reach_inv [OF step(1)])
  from step(2) show ?case
  proof cases
    case (http uuid d now r w)
    with registryServeHTTP_types [OF inv] step.IH show ?thesis by simp
  next
    case (heartbeat now r w h w')
    with heartbeatServeHTTP_frame [of "Some (IsServiceRegistered s)" now r "heartbeatServer s" w] step.IH show ?thesis by simp
  next
    case (sweep order d clock)
    with step.IH show ?thesis by (simp add: removeInactiveServices_def)
  qed
qed (simp add: newRegistry_def)

section \<open>Lemmas: the sweep\<close>

text \<open>The reference: a sweep keeps exactly the active registrations of a slice, in their order.\<close>

lemma delAt_filter_url:
  assumes "distinct (map ServiceURL regs)" "i < length regs"
  shows "delAt i regs = filter (\<lambda>r. ServiceURL r \<noteq> ServiceURL (regs ! i)) regs"
  using assms
proof (induction regs arbitrary: i)
  case (Cons r regs)
  show ?case
  proof (cases i)
    case 0
    have "\<forall>x \<in> set regs. ServiceURL x \<noteq> ServiceURL r" using Cons.prems(1) by (metis distinct.simps(2) image_eqI list.map(2) list.set_map)
    with 0 show ?thesis by simp
  next
    case (Suc k)
    then have "ServiceURL r \<noteq> ServiceURL (regs ! k)" using Cons.prems by auto
    with Suc Cons show ?thesis by simp
  qed
qed simp

lemma removeReg_regsOf:
  assumes "distinct (map ServiceURL (regsOf s n))"
  shows "regsOf (fst (removeReg d n url s)) n = filter (\<lambda>r. ServiceURL r \<noteq> url) (regsOf s n)"
    and "m \<noteq> n \<Longrightarrow> regsOf (fst (removeReg d n url s)) m = regsOf s m"
proof -
  show "regsOf (fst (removeReg d n url s)) n = filter (\<lambda>r. ServiceURL r \<noteq> url) (regsOf s n)"
  proof (cases "findURL url (regsOf s n)")
    case None
    then have "filter (\<lambda>r. ServiceURL r \<noteq> url) (regsOf s n) = regsOf s n"
      by (auto simp: findURL_None intro!: filter_True)
    with None show ?thesis by (simp add: removeReg_result)
  next
    case (Some i)
    then have "i < length (regsOf s n)" "ServiceURL (regsOf s n ! i) = url" by (simp_all add: findURL_Some)
    with Some delAt_filter_url [OF assms, of i] show ?thesis by (simp add: removeReg_result)
  qed
  show "m \<noteq> n \<Longrightarrow> regsOf (fst (removeReg d n url s)) m = regsOf s m"
    by (simp add: removeReg_result split: option.split)
qed

lemma removeInactiveRegs_regsOf:
  assumes "regsOf s n = kept @ todo" "distinct (map ServiceURL (kept @ todo))"
  shows "regsOf (removeInactiveRegs d l c n todo s) n = kept @ filter (\<lambda>r. \<not> inactive l c r) todo \<and>
    (\<forall>m. m \<noteq> n \<longrightarrow> regsOf (removeInactiveRegs d l c n todo s) m = regsOf s m)"
  using assms
proof (induction todo arbitrary: s kept)
  case (Cons r todo)
  have dist: "distinct (map ServiceURL (regsOf s n))" using Cons.prems by simp
  show ?case
  proof (cases "inactive l c r")
    case True
    have "ServiceURL x \<noteq> ServiceURL r" if "x \<in> set kept \<or> x \<in> set todo" for x
      using Cons.prems(2) that by auto (metis image_eqI)+
    then have "filter (\<lambda>x. ServiceURL x \<noteq> ServiceURL r) (kept @ r # todo) = kept @ todo" by simp
    with removeReg_regsOf [OF dist, where url = "ServiceURL r"] Cons.prems(1)
    have s1: "regsOf (fst (removeReg d n (ServiceURL r) s)) n = kept @ todo"
        "\<forall>m. m \<noteq> n \<longrightarrow> regsOf (fst (removeReg d n (ServiceURL r) s)) m = regsOf s m"
      by auto
    from Cons.IH [OF s1(1)] Cons.prems(2) s1(2) True show ?thesis by simp
  next
    case False
    with Cons.IH [of s "kept @ [r]"] Cons.prems show ?thesis by simp
  qed
qed simp

lemma removeInactiveFrom_regsOf:
  assumes "distinct (map fst snap)" "\<forall>(n, regs) \<in> set snap. regsOf s n = regs"
    and "\<forall>n. distinct (map ServiceURL (regsOf s n))"
  shows "regsOf (removeInactiveFrom d l c snap s) m =
    (if m \<in> fst ` set snap then filter (\<lambda>r. \<not> inactive l c r) (regsOf s m) else regsOf s m)"
  using assms
proof (induction snap arbitrary: s)
  case (Cons e snap)
  obtain n regs where e: "e = (n, regs)" by fastforce
  let ?s1 = "removeInactiveRegs d l c n regs s"
  have s1: "regsOf ?s1 n = filter (\<lambda>r. \<not> inactive l c r) regs" "\<forall>m. m \<noteq> n \<longrightarrow> regsOf ?s1 m = regsOf s m"
    using removeInactiveRegs_regsOf [of s n "[]" regs d l c] Cons.prems e by auto
  have "\<forall>(k, rs) \<in> set snap. regsOf ?s1 k = rs"
  proof clarify
    fix k rs assume k: "(k, rs) \<in> set snap"
    then have "k \<noteq> n" using Cons.prems(1) e by (auto simp: rev_image_eqI)
    with k s1(2) Cons.prems(2) show "regsOf ?s1 k = rs" by auto
  qed
  moreover have "\<forall>k. distinct (map ServiceURL (regsOf ?s1 k))"
  proof
    fix k
    have "distinct (map ServiceURL (regsOf s n))" using Cons.prems(3) by blast
    moreover have "regsOf s n = regs" using Cons.prems(2) e by simp
    ultimately show "distinct (map ServiceURL (regsOf ?s1 k))"
      using s1 Cons.prems(3) by (cases "k = n") (simp_all add: distinct_map_filter)
  qed
  ultimately have "regsOf (removeInactiveFrom d l c snap ?s1) m =
      (if m \<in> fst ` set snap then filter (\<lambda>r. \<not> inactive l c r) (regsOf ?s1 m) else regsOf ?s1 m)"
    using Cons.IH Cons.prems(1) by simp
  with s1 Cons.prems(1,2) e show ?case by auto
qed simp

section \<open>The registry as a validator\<close>

interpretation registered: service_validator IsServiceRegistered "\<lambda>s. ServiceID ` set (allRegs s)"
  by unfold_locales (force simp: IsServiceRegistered_def allRegs_def)

section \<open>Properties\<close>

text \<open>
  C7: in every reachable state of the registry, the registrations filed under a service name have
  distinct URLs and distinct ids, carry that name and have a recorded heartbeat.
\<close>

theorem registry_invariant:
  assumes "reg_reach regkey s"
  shows "distinct (map fst (registrationsMap s)) \<and>
    (\<forall>n. distinct (map ServiceURL (regsOf s n)) \<and> distinct (map ServiceID (regsOf s n)) \<and>
       (\<forall>r \<in> set (regsOf s n). ServiceName r = n \<and> LastHeartBeat (heartbeatServer s) (ServiceID r) \<noteq> None))"
  using reg_reach_inv [OF assms] by (simp add: reg_inv_def)

text \<open>
  C30: \<open>add\<close> registers a service under a new URL at the end of its slice. For a URL that is already
  registered it removes the old registration; it then replaces it only when that was the last of
  the slice. Otherwise the loop indexes past the shortened slice and panics, with the old
  registration gone and the new one not added.
\<close>

theorem add_outcome:
  assumes "reg_reach regkey s"
  shows "case findURL (ServiceURL reg) (regsOf s (ServiceName reg)) of
      None \<Rightarrow> \<exists>s' err. addReg d reg s = Ret s' err \<and>
        regsOf s' (ServiceName reg) = regsOf s (ServiceName reg) @ [reg]
    | Some j \<Rightarrow>
        if Suc j = length (regsOf s (ServiceName reg))
        then \<exists>s' err. addReg d reg s = Ret s' err \<and>
          regsOf s' (ServiceName reg) = butlast (regsOf s (ServiceName reg)) @ [reg]
        else \<exists>s'. addReg d reg s = Panic s' \<and>
          regsOf s' (ServiceName reg) = delAt j (regsOf s (ServiceName reg)) \<and>
          reg \<notin> set (regsOf s' (ServiceName reg))"
proof -
  let ?regs = "regsOf s (ServiceName reg)"
  have dist: "distinct (map ServiceURL ?regs)" using reg_reach_inv [OF assms] by (simp add: reg_inv_def)
  have "reg \<notin> set (delAt j ?regs)" if "findURL (ServiceURL reg) ?regs = Some j" for j
    using findURL_delAt [OF dist that] by (auto simp: findURL_None)
  with addReg_result(1) [OF dist, of d] show ?thesis by (auto split: option.split)
qed

text \<open>
  After such a panic a second attempt for the same URL succeeds: the second \<open>add\<close> returns and
  the service is registered, whatever id the attempt was given.
\<close>

theorem add_retry_succeeds:
  assumes "reg_reach regkey s" "addReg d reg s = Panic s'" "ServiceURL reg' = ServiceURL reg"
    and "ServiceName reg' = ServiceName reg"
  shows "\<exists>s'' err. addReg d' reg' s' = Ret s'' err \<and> reg' \<in> set (regsOf s'' (ServiceName reg'))"
proof -
  let ?regs = "regsOf s (ServiceName reg)"
  have dist: "distinct (map ServiceURL ?regs)" using reg_reach_inv [OF assms(1)] by (simp add: reg_inv_def)
  obtain j where j: "findURL (ServiceURL reg) ?regs = Some j" "regsOf s' (ServiceName reg) = delAt j ?regs"
    using addReg_result(1) [OF dist, of d] assms(2) by (auto split: option.splits if_splits)
  then have "findURL (ServiceURL reg') (regsOf s' (ServiceName reg')) = None"
    using findURL_delAt [OF dist] assms(3,4) by simp
  moreover have "distinct (map ServiceURL (regsOf s' (ServiceName reg')))"
    using dist j(2) assms(4) distinct_delAt by (metis delAt_map)
  ultimately show ?thesis using addReg_result(1) [of s' reg' d'] by auto
qed

text \<open>The table after a sweep.\<close>

lemma sweep_regsOf:
  assumes inv: "reg_inv s" and "set (order (registrationsMap s)) = set (registrationsMap s)"
    and "distinct (map fst (order (registrationsMap s)))"
  shows "regsOf (removeInactiveServices d order clock s) n =
    filter (\<lambda>r. clock r - the (LastHeartBeat (heartbeatServer s) (ServiceID r)) \<le> 20 * second) (regsOf s n)"
proof -
  from inv have snap: "\<forall>(k, regs) \<in> set (order (registrationsMap s)). regsOf s k = regs"
    using assms(2) by (auto simp: regsOf_def reg_inv_def)
  have keys: "fst ` set (order (registrationsMap s)) = fst ` set (registrationsMap s)" using assms(2) by simp
  have none: "n \<notin> fst ` set (registrationsMap s) \<Longrightarrow> regsOf s n = []"
    by (simp add: regsOf_def map_of_eq_None_iff [THEN iffD2])
  have "inactive (LastHeartBeat (heartbeatServer s)) clock r =
      (clock r - the (LastHeartBeat (heartbeatServer s) (ServiceID r)) > 20 * second)"
    if r: "r \<in> set (regsOf s n)" for r
  proof -
    obtain t where "LastHeartBeat (heartbeatServer s) (ServiceID r) = Some t"
      using reg_invD(5) [OF inv r] by blast
    then show ?thesis
      by (simp add: inactive_def second_def minInt64_def maxInt64_def timeSub_gt_iff)
  qed
  then have "filter (\<lambda>r. \<not> inactive (LastHeartBeat (heartbeatServer s)) clock r) (regsOf s n) =
      filter (\<lambda>r. clock r - the (LastHeartBeat (heartbeatServer s) (ServiceID r)) \<le> 20 * second) (regsOf s n)"
    by (intro filter_cong) auto
  moreover have "\<forall>n. distinct (map ServiceURL (regsOf s n))" using inv by (simp add: reg_inv_def)
  note removeInactiveFrom_regsOf [OF assms(3) snap this, of d _ clock n, unfolded keys]
  ultimately show ?thesis using none by (cases "n \<in> fst ` set (registrationsMap s)")
    (simp_all add: removeInactiveServices_def)
qed

text \<open>
  C9: a sweep keeps, under every service name and in every order of the range over the table,
  exactly the registrations whose last heartbeat is at most 20 seconds old when they are checked,
  in their order.
\<close>

theorem sweep_keeps_active:
  assumes "reg_reach regkey s" "set (order (registrationsMap s)) = set (registrationsMap s)"
    and "distinct (map fst (order (registrationsMap s)))"
  shows "regsOf (removeInactiveServices d order clock s) n =
    filter (\<lambda>r. clock r - the (LastHeartBeat (heartbeatServer s) (ServiceID r)) \<le> 20 * second) (regsOf s n)"
  by (rule sweep_regsOf [where order = order, OF reg_reach_inv [OF assms(1)] assms(2,3)])

text \<open>The part of a patch that concerns one service name, and whether there is any.\<close>

definition restrictPatch :: "patch \<Rightarrow> string \<Rightarrow> patch" where
  "restrictPatch p n = \<lparr>Added = filter (\<lambda>a. ServiceName a = n) (Added p),
     Removed = filter (\<lambda>a. ServiceName a = n) (Removed p)\<rparr>"

definition touches :: "patch \<Rightarrow> string \<Rightarrow> bool" where
  "touches p n \<longleftrightarrow> n \<in> ServiceName ` set (Added p) \<or> n \<in> ServiceName ` set (Removed p)"

definition patchesFor :: "patch \<Rightarrow> Registration \<Rightarrow> (string \<times> patch) list" where
  "patchesFor p reg =
     map (\<lambda>n. (ServiceUpdateURL reg, restrictPatch p n)) (filter (touches p) (RequiredServices reg))"

lemma touches_restrict: "touches p n \<longleftrightarrow> Added (restrictPatch p n) \<noteq> [] \<or> Removed (restrictPatch p n) \<noteq> []"
  by (auto simp: touches_def restrictPatch_def filter_empty_conv)

lemma notifyLoop_delivered:
  assumes "\<forall>k. d k"
  shows "notifyLoop d p u ns s =
    s\<lparr>outbox := outbox s @ map (\<lambda>n. (u, restrictPatch p n)) (filter (touches p) ns)\<rparr>"
proof (induction ns arbitrary: s)
  case (Cons n ns)
  then show ?case
    using assms touches_restrict [of p n] by (auto simp: restrictPatch_def Let_def sendPatch_def)
qed simp

lemma notifyAll_delivered:
  assumes "\<forall>k. d k"
  shows "notifyAll d p regs s = s\<lparr>outbox := outbox s @ concat (map (patchesFor p) regs)\<rparr>"
  by (induction regs arbitrary: s) (simp_all add: notifyLoop_delivered [OF assms] patchesFor_def)

text \<open>
  When every patch is delivered, \<open>notify\<close> sends to each registered service, and only to those,
  one patch for every occurrence in its required services of a name the full patch touches, holding
  exactly the registrations of that name; and it changes nothing else.
\<close>

theorem notify_sends_exactly:
  assumes "\<forall>k. d k"
  shows "notify d p s = s\<lparr>outbox := outbox s @ concat (map (patchesFor p) (allRegs s))\<rparr>"
  unfolding notify_def by (rule notifyAll_delivered [OF assms])

text \<open>
  A POST is refused without any effect when the key is wrong (401) or the body is no
  registration with a name and a URL (400).
\<close>

theorem post_refused:
  assumes "rMethod r = POST" "wStatus w = None"
    and "regkey \<noteq> rHeader r ''regkey'' \<or>
      (\<forall>j reg. rJson r = Some j \<longrightarrow> decodeRegistration j emptyRegistration = Some reg \<longrightarrow>
         ServiceName reg = [] \<or> ServiceURL reg = [])"
  shows "\<exists>w'. registryServeHTTP d regkey uuid now r s w = Ret s w' \<and>
    finalStatus w' = (if regkey \<noteq> rHeader r ''regkey'' then StatusUnauthorized else StatusBadRequest)"
  using assms
  by (auto simp: registryServeHTTP_def registryPost_def http_simps split: option.split)

text \<open>A POST for a new URL, with every patch delivered.\<close>

lemma registryPost_new:
  assumes "reg_reach regkey s" "freshID s uuid" "uuid \<noteq> []" "\<forall>k. d k"
    and "rMethod r = POST" "rHeader r ''regkey'' = regkey" "rJson r = Some (encodeRegistration reg)"
    and "ServiceName reg \<noteq> []" "ServiceURL reg \<noteq> []"
    and "ServiceURL reg \<notin> ServiceURL ` set (regsOf s (ServiceName reg))"
  shows "\<exists>s' w'. registryServeHTTP d regkey uuid now r s newWriter = Ret s' w' \<and>
    finalStatus w' = StatusOK \<and> wBody w' = [RText uuid] \<and>
    regsOf s' (ServiceName reg) = regsOf s (ServiceName reg) @ [reg\<lparr>ServiceID := uuid\<rparr>] \<and>
    IsServiceRegistered s' uuid \<and>
    \<not> inactive (LastHeartBeat (heartbeatServer s')) (\<lambda>_. now + 20 * second) (reg\<lparr>ServiceID := uuid\<rparr>)"
proof -
  let ?s1 = "s\<lparr>heartbeatServer := (heartbeatServer s)\<lparr>LastHeartBeat :=
     (LastHeartBeat (heartbeatServer s))(uuid \<mapsto> now)\<rparr>\<rparr>"
  let ?reg = "reg\<lparr>ServiceID := uuid\<rparr>"
  have inv: "reg_inv ?s1" using reg_inv_heartbeat reg_reach_inv [OF assms(1)] by blast
  have same: "regsOf ?s1 n = regsOf s n" for n by (simp add: regsOf_def)
  have "findURL (ServiceURL ?reg) (regsOf ?s1 (ServiceName ?reg)) = None"
    using assms(10) by (simp add: findURL_None same)
  then obtain s' err where add: "addReg d ?reg ?s1 = Ret s' err" "regsOf s' (ServiceName ?reg) = regsOf s (ServiceName reg) @ [?reg]"
    using addReg_result(1) [where s = ?s1 and reg = ?reg and d = d, OF reg_invD(2) [OF inv]] same by auto
  have err: "err"
    using add(1) assms(4) by (auto simp: addReg_def sendRequiredServices_def sendPatch_def Let_def
        split: run.splits prod.splits if_splits)
  have hb: "heartbeatServer s' = heartbeatServer ?s1"
    using addReg_result(3) [where s = ?s1 and reg = ?reg and d = d, OF reg_invD(2) [OF inv]] add(1) by simp
  have keys: "distinct (map fst (registrationsMap s'))"
    using addReg_result(4) [where s = ?s1 and reg = ?reg and d = d, OF reg_invD(2) [OF inv]] add(1) reg_invD(1) [OF inv] by simp
  have "?reg \<in> set (allRegs s')" using set_allRegs [OF keys] add(2) by (metis in_set_conv_decomp)
  then have "IsServiceRegistered s' uuid" by (force simp: registered.isRegistered_iff)
  moreover have "\<not> inactive (LastHeartBeat (heartbeatServer s')) (\<lambda>_. now + 20 * second) ?reg"
    by (simp add: hb inactive_def timeSub_def second_def minInt64_def maxInt64_def)
  moreover have "registryServeHTTP d regkey uuid now r s newWriter =
      Ret s' (writeBody (RText uuid) (writeHeader StatusOK newWriter))"
    using assms(3,5-9) add(1) err by (simp add: registryServeHTTP_def registryPost_def Let_def)
  ultimately show ?thesis using add(2) by (simp add: http_simps)
qed

text \<open>
  A POST with the right key for a service under a new URL, when the patches are delivered,
  answers 200 with the new id; the service is then registered last in its slice, the heartbeat
  server accepts its heartbeats, and a sweep in the next 20 seconds keeps it.
\<close>

theorem post_registers:
  assumes "reg_reach regkey s" "freshID s uuid" "uuid \<noteq> []" "\<forall>k. d k"
    and "rMethod r = POST" "rHeader r ''regkey'' = regkey" "rJson r = Some (encodeRegistration reg)"
    and "ServiceName reg \<noteq> []" "ServiceURL reg \<noteq> []"
    and "ServiceURL reg \<notin> ServiceURL ` set (regsOf s (ServiceName reg))"
  shows "\<exists>s' w'. registryServeHTTP d regkey uuid now r s newWriter = Ret s' w' \<and>
    finalStatus w' = StatusOK \<and> wBody w' = [RText uuid] \<and>
    regsOf s' (ServiceName reg) = regsOf s (ServiceName reg) @ [reg\<lparr>ServiceID := uuid\<rparr>] \<and>
    IsServiceRegistered s' uuid \<and>
    \<not> inactive (LastHeartBeat (heartbeatServer s')) (\<lambda>_. now + 20 * second) (reg\<lparr>ServiceID := uuid\<rparr>)"
  by (rule registryPost_new [OF assms])

text \<open>
  A DELETE that names a service and a URL removes that registration and answers 200 whatever
  its \<open>regkey\<close> header is: deregistration needs no key.
\<close>

theorem delete_needs_no_key:
  assumes "reg_reach regkey s" "rMethod r = DELETE" "rBody r = Some url" "rQuery r ''serviceName'' = n" "n \<noteq> []"
    and "url \<in> ServiceURL ` set (regsOf s n)"
  shows "\<exists>s' w'. registryServeHTTP d regkey uuid now r s newWriter = Ret s' w' \<and>
    finalStatus w' = StatusOK \<and> regsOf s' n = filter (\<lambda>x. ServiceURL x \<noteq> url) (regsOf s n)"
proof -
  have dist: "distinct (map ServiceURL (regsOf s n))" by (rule reg_invD(2) [OF reg_reach_inv [OF assms(1)]])
  have "snd (removeReg d n url s)"
    using assms(6) findURL_None [of url "regsOf s n"] by (auto simp: removeReg_result split: option.split)
  then obtain s' where s': "removeReg d n url s = (s', True)" by (metis prod.collapse)
  with removeReg_regsOf(1) [OF dist, of d url] assms(2-5) show ?thesis
    by (simp add: registryServeHTTP_def registryDelete_def http_simps)
qed

section \<open>Concrete runs\<close>

definition nodeReg :: "string \<Rightarrow> string \<Rightarrow> Registration" where
  "nodeReg url i = \<lparr>ServiceName = ''NodeService'', ServiceURL = url, ServiceID = i, PublicIP = url,
     PublicIPv6 = [], Description = [], RequiredServices = [''WebService''], ServiceUpdateURL = url @ ''/services''\<rparr>"

definition postRequest :: "string \<Rightarrow> Registration \<Rightarrow> request" where
  "postRequest key reg = \<lparr>rMethod = POST, rPath = ''/services'', rQuery = (\<lambda>_. []),
     rHeader = (\<lambda>k. if k = ''regkey'' then key else []), rRemoteAddr = [], rBody = Some [],
     rJson = Some (encodeRegistration reg)\<rparr>"

definition deleteRequest :: "string \<Rightarrow> string \<Rightarrow> request" where
  "deleteRequest name url = \<lparr>rMethod = DELETE, rPath = ''/services'',
     rQuery = (\<lambda>k. if k = ''serviceName'' then name else []), rHeader = (\<lambda>_. []), rRemoteAddr = [],
     rBody = Some url, rJson = None\<rparr>"

definition oneNode :: registry where
  "oneNode = runState (registryServeHTTP (\<lambda>_. True) ''k'' ''id1'' 0 (postRequest ''k'' (nodeReg ''u1'' [])) newRegistry newWriter)"

definition twoNodes :: registry where
  "twoNodes = runState (registryServeHTTP (\<lambda>_. True) ''k'' ''id2'' 5 (postRequest ''k'' (nodeReg ''u2'' [])) oneNode newWriter)"

lemmas registry_eval = registryServeHTTP_def registryPost_def postRequest_def addReg_def dropDuplicates.simps
  sendRequiredServices_def notify_def allRegs_def setRegs_def regsOf_def Let_def

lemma oneNode_eq:
  "oneNode = \<lparr>registrationsMap = [(''NodeService'', [nodeReg ''u1'' ''id1''])],
     heartbeatServer = NewHeartBeatServer\<lparr>LastHeartBeat := [''id1'' \<mapsto> 0]\<rparr>, outbox = []\<rparr>"
  by (simp add: oneNode_def registry_eval newRegistry_def nodeReg_def NewHeartBeatServer_def)

lemma twoNodes_eq:
  "twoNodes = \<lparr>registrationsMap = [(''NodeService'', [nodeReg ''u1'' ''id1'', nodeReg ''u2'' ''id2''])],
     heartbeatServer = NewHeartBeatServer\<lparr>LastHeartBeat := [''id1'' \<mapsto> 0, ''id2'' \<mapsto> 5]\<rparr>, outbox = []\<rparr>"
  by (simp add: twoNodes_def oneNode_eq registry_eval nodeReg_def NewHeartBeatServer_def)

lemma twoNodes_reach: "reg_reach ''k'' twoNodes"
proof -
  have one: "reg_reach ''k'' oneNode"
    unfolding oneNode_def
    by (rule reg_reach.step [OF reg_reach.init], rule reg_step.http) (simp_all add: freshID_def allRegs_def newRegistry_def)
  show ?thesis
    unfolding twoNodes_def
    by (rule reg_reach.step [OF one], rule reg_step.http) (simp_all add: freshID_def allRegs_def oneNode_eq nodeReg_def)
qed

lemma twoNodes_regsOf: "regsOf twoNodes ''NodeService'' = [nodeReg ''u1'' ''id1'', nodeReg ''u2'' ''id2'']"
  by (simp add: twoNodes_eq regsOf_def)

theorem registry_invariant_witness:
  "reg_reach ''k'' twoNodes \<and> distinct (map ServiceURL (regsOf twoNodes ''NodeService''))"
  using registry_invariant [OF twoNodes_reach] twoNodes_reach by blast

theorem add_outcome_witness:
  "\<exists>s'. addReg (\<lambda>_. True) (nodeReg ''u1'' ''id3'') twoNodes = Panic s' \<and>
     regsOf s' ''NodeService'' = [nodeReg ''u2'' ''id2'']"
  using add_outcome [OF twoNodes_reach, where reg = "nodeReg ''u1'' ''id3''" and d = "\<lambda>_. True"]
  by (auto simp: twoNodes_regsOf nodeReg_def)

theorem add_retry_succeeds_witness:
  "\<exists>s' s'' err. addReg (\<lambda>_. True) (nodeReg ''u1'' ''id3'') twoNodes = Panic s' \<and>
     addReg (\<lambda>_. True) (nodeReg ''u1'' ''id4'') s' = Ret s'' err \<and>
     nodeReg ''u1'' ''id4'' \<in> set (regsOf s'' ''NodeService'')"
proof -
  have dist: "distinct (map ServiceURL (regsOf twoNodes (ServiceName (nodeReg ''u1'' ''id3''))))"
    by (simp add: nodeReg_def twoNodes_regsOf)
  obtain s' where "addReg (\<lambda>_. True) (nodeReg ''u1'' ''id3'') twoNodes = Panic s'"
    using addReg_result(1) [OF dist, of "\<lambda>_. True"] by (auto simp: twoNodes_regsOf nodeReg_def)
  from add_retry_succeeds [OF twoNodes_reach this, where reg' = "nodeReg ''u1'' ''id4''" and d' = "\<lambda>_. True"] this
  show ?thesis by (simp add: nodeReg_def)
qed

theorem sweep_keeps_active_witness:
  "regsOf (removeInactiveServices (\<lambda>_. True) rev (\<lambda>_. 20 * second + 3) twoNodes) ''NodeService'' =
   [nodeReg ''u2'' ''id2'']"
  using sweep_keeps_active [OF twoNodes_reach, where order = rev and d = "\<lambda>_. True" and
      clock = "\<lambda>_. 20 * second + 3" and n = "''NodeService''"]
  by (simp add: twoNodes_eq regsOf_def nodeReg_def second_def)

theorem notify_sends_exactly_witness:
  "outbox (notify (\<lambda>_. True) \<lparr>Added = [(nodeReg ''w'' ''i'')\<lparr>ServiceName := ''WebService''\<rparr>], Removed = []\<rparr> twoNodes) =
   [(''u1/services'', \<lparr>Added = [(nodeReg ''w'' ''i'')\<lparr>ServiceName := ''WebService''\<rparr>], Removed = []\<rparr>),
    (''u2/services'', \<lparr>Added = [(nodeReg ''w'' ''i'')\<lparr>ServiceName := ''WebService''\<rparr>], Removed = []\<rparr>)]"
  by (subst notify_sends_exactly)
    (simp_all add: twoNodes_eq allRegs_def patchesFor_def touches_def restrictPatch_def nodeReg_def)

theorem post_refused_witness:
  "\<exists>w'. registryServeHTTP (\<lambda>_. True) ''k'' ''id3'' 9 (postRequest ''x'' (nodeReg ''u3'' [])) twoNodes newWriter = Ret twoNodes w' \<and>
     finalStatus w' = StatusUnauthorized"
  using post_refused [where r = "postRequest ''x'' (nodeReg ''u3'' [])" and w = newWriter and regkey = "''k''" and
      d = "\<lambda>_. True" and uuid = "''id3''" and now = 9 and s = twoNodes]
  by (simp add: postRequest_def)

theorem post_registers_witness:
  "\<exists>s' w'. registryServeHTTP (\<lambda>_. True) ''k'' ''id3'' 9 (postRequest ''k'' (nodeReg ''u3'' [])) twoNodes newWriter = Ret s' w' \<and>
     wBody w' = [RText ''id3''] \<and> IsServiceRegistered s' ''id3''"
  using post_registers [OF twoNodes_reach, where uuid = "''id3''" and d = "\<lambda>_. True" and
      r = "postRequest ''k'' (nodeReg ''u3'' [])" and reg = "nodeReg ''u3'' []" and now = 9]
  by (auto simp: postRequest_def nodeReg_def twoNodes_regsOf freshID_def allRegs_def twoNodes_eq regsOf_def)

theorem delete_needs_no_key_witness:
  "\<exists>s' w'. registryServeHTTP (\<lambda>_. True) ''k'' ''x'' 9 (deleteRequest ''NodeService'' ''u1'') twoNodes newWriter = Ret s' w' \<and>
     finalStatus w' = StatusOK \<and> regsOf s' ''NodeService'' = [nodeReg ''u2'' ''id2'']"
  using delete_needs_no_key [OF twoNodes_reach, where r = "deleteRequest ''NodeService'' ''u1''" and url = "''u1''" and
      n = "''NodeService''" and d = "\<lambda>_. True" and uuid = "''x''" and now = 9]
  by (simp add: deleteRequest_def twoNodes_regsOf nodeReg_def)

end
