(* ===== verification/Registry_Client.thy ===== *)
theory Registry_Client
  imports Registry_Server
begin

text \<open>
  Model of src/registry/client.go: the cache of providers a service keeps (\<open>Prov\<close>), the handler
  that applies the registry's patches to it, registration with its retries, the heartbeat loop
  with re-registration, and deregistration at shutdown.
\<close>

section \<open>The provider cache\<close>

record providers =
  services :: "string \<rightharpoonup> Registration list"

definition noProviders :: providers where
  "noProviders = \<lparr>services = Map.empty\<rparr>"

fun addProviders :: "Registration list \<Rightarrow> providers \<Rightarrow> providers" where
  "addProviders [] p = p"
| "addProviders (reg # regs) p =
     (let s1 = (case services p (ServiceName reg) of
                  None \<Rightarrow> (services p)(ServiceName reg \<mapsto> [])
                | Some _ \<Rightarrow> services p)
      in addProviders regs
           (p\<lparr>services := s1(ServiceName reg \<mapsto> the (s1 (ServiceName reg)) @ [reg])\<rparr>))"

text \<open>The inner loop: the first provider with the given id is cut out.\<close>

fun removeProvider :: "string \<Rightarrow> Registration list \<Rightarrow> Registration list" where
  "removeProvider serviceID [] = []"
| "removeProvider serviceID (r # rs) =
     (if ServiceID r = serviceID then rs else r # removeProvider serviceID rs)"

fun removeProviders :: "Registration list \<Rightarrow> providers \<Rightarrow> providers" where
  "removeProviders [] p = p"
| "removeProviders (reg # regs) p =
     removeProviders regs
       (case services p (ServiceName reg) of
          None \<Rightarrow> p
        | Some rs \<Rightarrow> p\<lparr>services := (services p)(ServiceName reg \<mapsto> removeProvider (ServiceID reg) rs)\<rparr>)"

definition Update :: "patch \<Rightarrow> providers \<Rightarrow> providers" where
  "Update pat p = removeProviders (Removed pat) (addProviders (Added pat) p)"

text \<open>\<open>GetProviders\<close>: \<open>None\<close> is the error that the service is not found.\<close>

definition GetProviders :: "providers \<Rightarrow> string \<Rightarrow> Registration list option" where
  "GetProviders p name = services p name"

definition serviceUpdateServeHTTP ::
  "string \<Rightarrow> request \<Rightarrow> providers \<Rightarrow> string writer \<Rightarrow> providers \<times> string writer" where
  "serviceUpdateServeHTTP regkey r p w =
     (if rHeader r ''regkey'' \<noteq> regkey then (p, writeHeader StatusUnauthorized w)
      else if rMethod r \<noteq> POST then (p, writeHeader StatusMethodNotAllowed w)
      else
        (case (case rJson r of None \<Rightarrow> None | Some j \<Rightarrow> decodePatch j) of
           None \<Rightarrow> (p, writeHeader StatusBadRequest w)
         | Some pat \<Rightarrow> (Update pat p, w)))"

text \<open>The request \<open>sendPatch\<close> of the registry makes to a service's update URL.\<close>

definition patchRequest :: "string \<Rightarrow> patch \<Rightarrow> request" where
  "patchRequest regkey pat = \<lparr>rMethod = POST, rPath = [], rQuery = (\<lambda>_. []),
     rHeader = (\<lambda>k. if k = ''regkey'' then regkey else if k = ''Content-Type'' then ''application/json'' else []),
     rRemoteAddr = [], rBody = None, rJson = Some (encodePatch pat)\<rparr>"

section \<open>Registration and the heartbeat loop\<close>

text \<open>One attempt to register: the registry cannot be dialled, the request is sent and no answer comes, or
  an answer with its status and body (\<open>None\<close> when reading it fails).\<close>

datatype attempt = Unreachable | NoAnswer | Answer status "string option"

text \<open>The loop of \<open>RegisterRequest\<close> against the attempts to come. All attempts share one \<open>http.Request\<close>,
  whose body is a buffer: sending it drains the buffer (\<open>full\<close> is then \<open>False\<close>), and from then on \<open>Do\<close> fails,
  because the body is shorter than the content length of the request.\<close>

fun registerLoop :: "bool \<Rightarrow> attempt list \<Rightarrow> Registration \<Rightarrow> (Registration \<times> bool) option" where
  "registerLoop full [] r = None"
| "registerLoop full (Unreachable # as) r = registerLoop full as r"
| "registerLoop full (NoAnswer # as) r = registerLoop False as r"
| "registerLoop full (Answer code body # as) r =
     (if full \<and> code = StatusOK
      then (case body of None \<Rightarrow> Some (r, False) | Some b \<Rightarrow> Some (r\<lparr>ServiceID := b\<rparr>, True))
      else registerLoop False as r)"

text \<open>\<open>None\<close> while it is still retrying, otherwise the registration and whether the error is nil.\<close>

definition RegisterRequest :: "attempt list \<Rightarrow> Registration \<Rightarrow> (Registration \<times> bool) option" where
  "RegisterRequest attempts r = registerLoop True attempts r"

record client_state =
  clReg :: Registration
  clHeartbeat :: BasicHeartbeat
  clProv :: providers

text \<open>One round of the loop in \<open>RegisterService\<close>: a heartbeat and, when it is refused as not
  authorized, a new registration with an emptied cache. \<open>meanwhile\<close> are the patches that the update
  handler applies after the cache was emptied and before the registration has its answer. \<open>None\<close>: still
  retrying to register.\<close>

definition heartbeatRound ::
  "status option \<Rightarrow> patch list \<Rightarrow> attempt list \<Rightarrow> client_state \<Rightarrow> client_state option" where
  "heartbeatRound response meanwhile attempts c =
     (case SendHeartbeat response of
        Some NotAuthorized \<Rightarrow>
          (let c1 = c\<lparr>clProv := noProviders\<rparr>;
               c2 = c1\<lparr>clProv := fold Update meanwhile (clProv c1)\<rparr>
           in case RegisterRequest attempts (clReg c2) of
                None \<Rightarrow> None
              | Some (r, ok) \<Rightarrow>
                  Some (c2\<lparr>clReg := r, clHeartbeat := (clHeartbeat c2)\<lparr>hbServiceID := ServiceID r\<rparr>\<rparr>))
      | _ \<Rightarrow> Some c)"

section \<open>Deregistration\<close>

text \<open>The request of \<open>ShutdownService\<close>: DELETE on the registry's URL with the service's URL as body,
  and no query. Its result is whether the error is nil.\<close>

definition shutdownRequest :: "string \<Rightarrow> request" where
  "shutdownRequest url = \<lparr>rMethod = DELETE, rPath = ''/services'', rQuery = (\<lambda>_. []),
     rHeader = (\<lambda>k. if k = ''Content-Type'' then ''text/plain'' else []),
     rRemoteAddr = [], rBody = Some url, rJson = None\<rparr>"

definition ShutdownService :: "status option \<Rightarrow> bool" where
  "ShutdownService response = (case response of None \<Rightarrow> False | Some code \<Rightarrow> code = StatusOK)"

section \<open>Lemmas\<close>

text \<open>The list a cache holds for a name; a missing entry is an empty list.\<close>

definition cached :: "providers \<Rightarrow> string \<Rightarrow> Registration list" where
  "cached p n = (case services p n of None \<Rightarrow> [] | Some rs \<Rightarrow> rs)"

lemma cached_addProviders: "cached (addProviders regs p) n = cached p n @ filter (\<lambda>r. ServiceName r = n) regs"
proof (induction regs arbitrary: p)
  case (Cons r regs)
  then show ?case by (auto simp: cached_def Let_def split: option.split)
qed simp

lemma cached_removeProviders:
  "cached (removeProviders regs p) n =
   foldl (\<lambda>rs i. removeProvider i rs) (cached p n) (map ServiceID (filter (\<lambda>r. ServiceName r = n) regs))"
proof (induction regs arbitrary: p)
  case (Cons r regs)
  then show ?case by (auto simp: cached_def split: option.split)
qed simp

lemma cached_Update:
  "cached (Update pat p) n = foldl (\<lambda>rs i. removeProvider i rs)
     (cached p n @ filter (\<lambda>r. ServiceName r = n) (Added pat))
     (map ServiceID (filter (\<lambda>r. ServiceName r = n) (Removed pat)))"
  by (simp add: Update_def cached_removeProviders cached_addProviders)

lemma removeProvider_delAt:
  "distinct (map ServiceID rs) \<Longrightarrow> i < length rs \<Longrightarrow> removeProvider (ServiceID (rs ! i)) rs = delAt i rs"
proof (induction rs arbitrary: i)
  case (Cons r rs)
  then show ?case by (cases i) auto
qed simp

lemma removeProvider_notin: "i \<notin> ServiceID ` set rs \<Longrightarrow> removeProvider i rs = rs"
  by (induction rs) auto

lemma set_removeProvider: "distinct (map ServiceID rs) \<Longrightarrow> set (removeProvider i rs) = {r \<in> set rs. ServiceID r \<noteq> i}"
  by (induction rs) (auto simp: image_iff)

lemma RegisterRequest_retries [simp]:
  "RegisterRequest (replicate k Unreachable @ as) r = RegisterRequest as r"
  by (induction k) (simp_all add: RegisterRequest_def)

lemma RegisterRequest_answer [simp]: "RegisterRequest [Answer StatusOK (Some b)] r = Some (r\<lparr>ServiceID := b\<rparr>, True)"
  by (simp add: RegisterRequest_def)

lemma registerLoop_drained: "registerLoop False as r = None"
  by (induction False as r rule: registerLoop.induct) simp_all

section \<open>Properties\<close>

text \<open>
  C35: the update handler of a service applies a patch the registry sends with the shared key to the
  cache, with nothing lost on the wire; with any other key it answers 401 and keeps the cache.
\<close>

theorem patch_request_applied:
  "serviceUpdateServeHTTP key (patchRequest key' pat) p newWriter =
   (if key' = key then (Update pat p, newWriter) else (p, writeHeader StatusUnauthorized newWriter))"
  by (simp add: serviceUpdateServeHTTP_def patchRequest_def)

text \<open>
  A patch moves the cache, for each service name, by appending the added registrations of that
  name and then dropping those with the id of a removed one, when the ids of the list are distinct.
  Other names keep their list.
\<close>

theorem update_effect:
  assumes "distinct (map ServiceID (cached p n @ filter (\<lambda>r. ServiceName r = n) (Added pat)))"
  shows "set (cached (Update pat p) n) =
    {r \<in> set (cached p n) \<union> {a \<in> set (Added pat). ServiceName a = n}.
       \<forall>d \<in> set (Removed pat). ServiceName d = n \<longrightarrow> ServiceID d \<noteq> ServiceID r}"
proof -
  have "set (foldl (\<lambda>rs i. removeProvider i rs) rs is) = {r \<in> set rs. ServiceID r \<notin> set is}"
    if "distinct (map ServiceID rs)" for rs "is"
    using that
  proof (induction "is" arbitrary: rs)
    case (Cons i "is")
    have "distinct (map ServiceID (removeProvider i rs))"
      using Cons.prems set_removeProvider by (induction rs) auto
    with Cons show ?case by (auto simp: set_removeProvider)
  qed simp
  from this [OF assms] show ?thesis by (auto simp: cached_Update image_iff)
qed

theorem update_effect_witness:
  "set (cached (Update \<lparr>Added = [nodeReg ''u1'' ''a'', nodeReg ''u2'' ''b''], Removed = [nodeReg ''x'' ''a'']\<rparr> noProviders)
     ''NodeService'') = {nodeReg ''u2'' ''b''}"
  by (subst update_effect) (auto simp: nodeReg_def cached_def noProviders_def)

text \<open>
  The request \<open>ShutdownService\<close> makes names no service, so the registry refuses it (400) with
  its table unchanged and \<open>ShutdownService\<close> returns an error: a service never deregisters itself.
\<close>

theorem shutdown_never_deregisters:
  "\<exists>w'. registryServeHTTP d regkey uuid now (shutdownRequest url) s newWriter = Ret s w' \<and>
     finalStatus w' = StatusBadRequest \<and> \<not> ShutdownService (Some (finalStatus w'))"
  by (simp add: registryServeHTTP_def registryDelete_def shutdownRequest_def ShutdownService_def http_simps)

text \<open>
  An attempt that was sent and did not succeed spoils all later ones: the request's body is used up, so
  \<open>RegisterRequest\<close> goes on forever, whatever the registry would answer.
\<close>

theorem drained_request_never_registers:
  assumes "a = NoAnswer \<or> (\<exists>code body. a = Answer code body \<and> code \<noteq> StatusOK)"
  shows "RegisterRequest (replicate k Unreachable @ a # as) r = None"
  unfolding RegisterRequest_retries using assms by (auto simp: RegisterRequest_def registerLoop_drained)

theorem drained_request_never_registers_witness:
  "RegisterRequest [Unreachable, Answer 500 None, Answer StatusOK (Some ''id'')] emptyRegistration = None"
  using drained_request_never_registers [of "Answer 500 None" 1 "[Answer StatusOK (Some ''id'')]" emptyRegistration] by simp

text \<open>
  A service that the registry does not know (after a restart or a sweep) recovers in one round:
  its heartbeat is refused as not authorized without a trace, the round empties its cache and, when
  the registry answers after any number of failed connections, takes the new id; the cache then holds what patches came meanwhile, the registry
  lists the service, and the next heartbeat is accepted.
\<close>

theorem unknown_service_recovers:
  assumes "reg_reach regkey s" "freshID s uuid" "uuid \<noteq> []" "\<forall>k. d k"
    and "fst (urlTarget (hbURL (clHeartbeat c) @ ''basic'')) = ''/heartbeat/basic''"
    and "hbServiceID (clHeartbeat c) \<noteq> []" "\<not> IsServiceRegistered s (hbServiceID (clHeartbeat c))"
    and "rMethod r = POST" "rHeader r ''regkey'' = regkey" "rJson r = Some (encodeRegistration (clReg c))"
    and "ServiceName (clReg c) \<noteq> []" "ServiceURL (clReg c) \<noteq> []"
    and "ServiceURL (clReg c) \<notin> ServiceURL ` set (regsOf s (ServiceName (clReg c)))"
  shows "\<exists>w0 s' w' c' h. 
    heartbeatServeHTTP (Some (IsServiceRegistered s)) now (heartbeatRequest (clHeartbeat c)) (heartbeatServer s) newWriter =
      (heartbeatServer s, w0) \<and>
    registryServeHTTP d regkey uuid now r s newWriter = Ret s' w' \<and> wBody w' = [RText uuid] \<and>
    heartbeatRound (Some (finalStatus w0)) meanwhile (replicate k Unreachable @ [Answer (finalStatus w') (Some uuid)]) c = Some c' \<and>
    clProv c' = fold Update meanwhile noProviders \<and> clReg c' = (clReg c)\<lparr>ServiceID := uuid\<rparr> \<and> clReg c' \<in> set (regsOf s' (ServiceName (clReg c))) \<and>
    heartbeatServeHTTP (Some (IsServiceRegistered s')) now' (heartbeatRequest (clHeartbeat c')) (heartbeatServer s') newWriter =
      (h, writeHeader StatusOK newWriter) \<and> LastHeartBeat h uuid = Some now'"
proof -
  obtain s' w' where post: "registryServeHTTP d regkey uuid now r s newWriter = Ret s' w'" "finalStatus w' = StatusOK"
      "wBody w' = [RText uuid]" "(clReg c)\<lparr>ServiceID := uuid\<rparr> \<in> set (regsOf s' (ServiceName (clReg c)))"
      "IsServiceRegistered s' uuid"
    using registryPost_new [OF assms(1-4,8-13), of now] by fastforce
  have "reg_reach regkey s'"
    using reg_reach.step [OF assms(1) reg_step.http [OF assms(2,3), where delivered = d and now = now and r = r and w = newWriter]] post(1) by simp
  with assms(1) have types: "HeartBeatTypeMap (heartbeatServer t) ''/heartbeat/basic'' = Some BasicHeartbeatHandler"
    if "t = s \<or> t = s'" for t using that by (auto simp: reg_reach_types NewHeartBeatServer_def)
  show ?thesis
    using post assms(3,5-7) types
    by (simp add: heartbeatServeHTTP_def heartbeatRequest_def HandleCommonLogic_def heartbeatRound_def
        SendHeartbeat_def http_simps Let_def)
qed

definition lostClient :: client_state where
  "lostClient = \<lparr>clReg = nodeReg ''u3'' ''old'', clHeartbeat = \<lparr>hbServiceID = ''old'', hbURL = ''http://1.1.1.1:80/heartbeat/''\<rparr>,
     clProv = noProviders\<rparr>"

theorem unknown_service_recovers_witness:
  "\<exists>s' w' c'. registryServeHTTP (\<lambda>_. True) ''k'' ''id3'' 9 (postRequest ''k'' (clReg lostClient)) twoNodes newWriter = Ret s' w' \<and>
     heartbeatRound (Some StatusUnauthorized) [] [Unreachable, Unreachable, Answer (finalStatus w') (Some ''id3'')] lostClient = Some c' \<and>
     clReg c' \<in> set (regsOf s' ''NodeService'')"
proof -
  note unknown_service_recovers [OF twoNodes_reach, where uuid = "''id3''" and d = "\<lambda>_. True" and c = lostClient and
      r = "postRequest ''k'' (clReg lostClient)" and k = 2 and now = 9 and meanwhile = "[]"]
  from this [where now' = 12] show ?thesis
    by (auto simp: lostClient_def postRequest_def nodeReg_def twoNodes_regsOf freshID_def allRegs_def twoNodes_eq regsOf_def
        registered.isRegistered_iff numeral_2_eq_2 urlTarget_def cut_def heartbeatServeHTTP_def heartbeatRequest_def HandleCommonLogic_def
        NewHeartBeatServer_def http_simps)
qed

end
