(* ===== verification/Cache_Coherence.thy ===== *)
theory Cache_Coherence
  imports Registry_Client
begin

text \<open>
  The contract between the registry and its clients: while patches are delivered, the cache a
  registered service builds from the patches sent to its update URL is, for each service it
  requires, the registry's own list. \<open>viewFrom\<close> replays the patches for one URL;
  \<open>table_step\<close> are the changes of the table while the subscriber stays registered.
\<close>

section \<open>Definitions\<close>

fun viewFrom :: "string \<Rightarrow> (string \<times> patch) list \<Rightarrow> providers \<Rightarrow> providers" where
  "viewFrom u [] p = p"
| "viewFrom u ((u', pat) # msgs) p = viewFrom u msgs (if u' = u then Update pat p else p)"

text \<open>The patches sent to an update URL, in the order of the calls.\<close>

definition sentPatches :: "string \<Rightarrow> (string \<times> patch) list \<Rightarrow> patch list" where
  "sentPatches u msgs = map snd (filter (\<lambda>m. fst m = u) msgs)"

definition subscribed :: "Registration \<Rightarrow> registry \<Rightarrow> bool" where
  "subscribed sub s \<longleftrightarrow> sub \<in> set (allRegs s) \<and> distinct (RequiredServices sub) \<and>
     (\<forall>r \<in> set (allRegs s). ServiceUpdateURL r = ServiceUpdateURL sub \<longrightarrow> r = sub)"

text \<open>\<open>k\<close> is the number of patches that were sent before the subscriber's registration.\<close>

definition coherent :: "Registration \<Rightarrow> nat \<Rightarrow> registry \<Rightarrow> bool" where
  "coherent sub k s \<longleftrightarrow> k \<le> length (outbox s) \<and>
     (\<forall>n \<in> set (RequiredServices sub).
        cached (viewFrom (ServiceUpdateURL sub) (drop k (outbox s)) noProviders) n = regsOf s n)"

inductive table_step :: "Registration \<Rightarrow> registry \<Rightarrow> registry \<Rightarrow> bool" for sub where
  add: "freshID s (ServiceID r) \<Longrightarrow> LastHeartBeat (heartbeatServer s) (ServiceID r) \<noteq> None \<Longrightarrow>
    ServiceUpdateURL r \<noteq> ServiceUpdateURL sub \<Longrightarrow> s' = runState (addReg (\<lambda>_. True) r s) \<Longrightarrow>
    sub \<in> set (allRegs s') \<Longrightarrow> table_step sub s s'"
| remove: "s' = fst (removeReg (\<lambda>_. True) n url s) \<Longrightarrow> sub \<in> set (allRegs s') \<Longrightarrow> table_step sub s s'"
| heard: "dom (LastHeartBeat (heartbeatServer s)) \<subseteq> dom (LastHeartBeat h) \<Longrightarrow>
    table_step sub s (s\<lparr>heartbeatServer := h\<rparr>)"

section \<open>Lemmas\<close>

lemma viewFrom_fold: "viewFrom u msgs p = fold Update (sentPatches u msgs) p"
  by (induction u msgs p rule: viewFrom.induct) (auto simp: sentPatches_def)

lemma viewFrom_append: "viewFrom u (xs @ ys) p = viewFrom u ys (viewFrom u xs p)"
  by (induction u xs p rule: viewFrom.induct) auto

lemma viewFrom_other: "\<forall>m \<in> set msgs. fst m \<noteq> u \<Longrightarrow> viewFrom u msgs p = p"
  by (induction u msgs p rule: viewFrom.induct) auto

lemma distinct_allRegs:
  assumes inv: "reg_inv s"
  shows "distinct (allRegs s)"
proof -
  have "regsOf s (fst e) = snd e" if "e \<in> set (registrationsMap s)" for e
    using that map_of_is_SomeI [OF reg_invD(1) [OF inv], of "fst e" "snd e"] by (simp add: regsOf_def)
  then have "\<forall>e \<in> set (registrationsMap s). distinct (snd e) \<and> (\<forall>r \<in> set (snd e). ServiceName r = fst e)"
    using reg_invD(3,4) [OF inv] by (metis distinct_map)
  then show ?thesis
    unfolding allRegs_def by (rule distinct_concat_keyed [OF reg_invD(1) [OF inv]])
qed

text \<open>Of all the patches \<open>notify\<close> sends, the subscriber sees those made for it.\<close>

lemma viewFrom_patchesFor:
  "ServiceUpdateURL r \<noteq> u \<Longrightarrow> viewFrom u (patchesFor p r) v = v"
  by (rule viewFrom_other) (auto simp: patchesFor_def)

lemma viewFrom_notify:
  assumes "distinct regs" "sub \<in> set regs" "\<forall>r \<in> set regs. ServiceUpdateURL r = ServiceUpdateURL sub \<longrightarrow> r = sub"
  shows "viewFrom (ServiceUpdateURL sub) (concat (map (patchesFor p) regs)) v =
    viewFrom (ServiceUpdateURL sub) (patchesFor p sub) v"
proof -
  obtain A B where regs: "regs = A @ sub # B" using assms(2) by (meson split_list)
  have none: "viewFrom (ServiceUpdateURL sub) (concat (map (patchesFor p) C)) w = w"
    if "\<forall>r \<in> set C. ServiceUpdateURL r \<noteq> ServiceUpdateURL sub" for C w
    using that by (induction C arbitrary: w) (simp_all add: viewFrom_append viewFrom_patchesFor)
  have "\<forall>r \<in> set A \<union> set B. ServiceUpdateURL r \<noteq> ServiceUpdateURL sub" using assms regs by auto
  with none [of A] none [of B] show ?thesis by (simp add: regs viewFrom_append)
qed

lemma cached_restrict:
  "cached (Update (restrictPatch p m) v) n = (if n = m then cached (Update p v) n else cached v n)"
proof -
  have "filter (\<lambda>r. ServiceName r = n \<and> ServiceName r = m) xs = (if n = m then filter (\<lambda>r. ServiceName r = n) xs else [])" for xs
    by (auto simp: filter_empty_conv)
  then show ?thesis by (simp add: cached_Update restrictPatch_def)
qed

lemma cached_untouched: "\<not> touches p n \<Longrightarrow> cached (Update p v) n = cached v n"
proof -
  assume "\<not> touches p n"
  then have "filter (\<lambda>r. ServiceName r = n) (Added p) = []" "filter (\<lambda>r. ServiceName r = n) (Removed p) = []"
    by (auto simp: touches_def filter_empty_conv)
  then show ?thesis by (simp add: cached_Update)
qed

lemma cached_patches:
  assumes "distinct ns"
  shows "cached (viewFrom u (map (\<lambda>n. (u, restrictPatch p n)) (filter (touches p) ns)) v) n =
    (if n \<in> set ns then cached (Update p v) n else cached v n)"
  using assms
proof (induction ns arbitrary: v)
  case (Cons m ns)
  show ?case
  proof (cases "touches p m")
    case True
    let ?w = "Update (restrictPatch p m) v"
    have "n \<noteq> m \<Longrightarrow> cached (Update p ?w) n = cached (Update p v) n"
      using cached_restrict [of p m v n] by (simp add: cached_Update)
    with Cons.IH [of ?w] Cons.prems True cached_restrict [of p m v n] show ?thesis by (cases "n = m") simp_all
  next
    case False
    with Cons.IH [of v] Cons.prems cached_untouched [of p n v] show ?thesis by (cases "n = m") simp_all
  qed
qed simp

lemma notify_view:
  assumes "reg_inv s" "subscribed sub s" "k \<le> length (outbox s)" "n \<in> set (RequiredServices sub)"
  shows "cached (viewFrom (ServiceUpdateURL sub) (drop k (outbox (notify (\<lambda>_. True) p s))) noProviders) n =
    cached (Update p (viewFrom (ServiceUpdateURL sub) (drop k (outbox s)) noProviders)) n"
proof -
  have "notify (\<lambda>_. True) p s = s\<lparr>outbox := outbox s @ concat (map (patchesFor p) (allRegs s))\<rparr>"
    unfolding notify_def by (rule notifyAll_delivered) simp
  then have "viewFrom (ServiceUpdateURL sub) (drop k (outbox (notify (\<lambda>_. True) p s))) noProviders =
      viewFrom (ServiceUpdateURL sub) (patchesFor p sub) (viewFrom (ServiceUpdateURL sub) (drop k (outbox s)) noProviders)"
    using assms(2,3) viewFrom_notify [OF distinct_allRegs [OF assms(1)], of sub p]
    by (simp add: subscribed_def viewFrom_append)
  then show ?thesis
    using cached_patches assms(2,4) by (simp add: patchesFor_def subscribed_def)
qed

lemma reg_inv_cong:
  "registrationsMap s = registrationsMap t \<Longrightarrow> heartbeatServer s = heartbeatServer t \<Longrightarrow> reg_inv s = reg_inv t"
  by (simp add: reg_inv_def regsOf_def)

lemma outbox_setRegs [simp]: "outbox (setRegs n regs s) = outbox s"
  by (simp add: setRegs_def)

lemma outbox_notify: "length (outbox s) \<le> length (outbox (notify d p s))"
  using notifyAll_frame [of d p "allRegs s" s] by (auto simp: notify_def)

lemma subscribed_mono:
  assumes "subscribed sub s" "reg_inv s" "reg_inv t" "sub \<in> set (allRegs t)"
    and "\<And>n r. r \<in> set (regsOf t n) \<Longrightarrow> r \<in> set (regsOf s n) \<or> ServiceUpdateURL r \<noteq> ServiceUpdateURL sub"
  shows "subscribed sub t"
proof -
  have "r = sub" if r: "r \<in> set (allRegs t)" and u: "ServiceUpdateURL r = ServiceUpdateURL sub" for r
  proof -
    obtain n where "r \<in> set (regsOf t n)"
      using r set_allRegs [OF reg_invD(1) [OF assms(3)], of r] by auto
    with assms(5) u have "\<exists>n. r \<in> set (regsOf s n)" by blast
    then have "r \<in> set (allRegs s)" by (simp add: set_allRegs [OF reg_invD(1) [OF assms(2)]])
    then show ?thesis using assms(1) u by (simp add: subscribed_def)
  qed
  then show ?thesis using assms(1,4) by (simp add: subscribed_def)
qed

text \<open>A removal that is announced and then made.\<close>

lemma coherent_removed:
  assumes inv: "reg_inv s" and sub: "subscribed sub s" and co: "coherent sub k s" and i: "i < length (regsOf s n)"
  shows "coherent sub k (setRegs n (delAt i (regsOf s n))
    (notify (\<lambda>_. True) \<lparr>Added = [], Removed = [regsOf s n ! i]\<rparr> s))"
proof -
  let ?p = "\<lparr>Added = [], Removed = [regsOf s n ! i]\<rparr>"
  let ?view = "viewFrom (ServiceUpdateURL sub) (drop k (outbox s)) noProviders"
  have name: "ServiceName (regsOf s n ! i) = n" using reg_invD(4) [OF inv] i by simp
  have "cached (Update ?p ?view) m = (if m = n then delAt i (regsOf s n) else regsOf s m)"
    if "m \<in> set (RequiredServices sub)" for m
    using co that removeProvider_delAt [OF reg_invD(3) [OF inv] i] name
    by (auto simp: cached_Update coherent_def)
  moreover have "k \<le> length (outbox (notify (\<lambda>_. True) ?p s))"
    using co le_trans [OF _ outbox_notify] by (simp add: coherent_def)
  ultimately show ?thesis
    using co notify_view [OF inv sub, of k _ ?p] by (simp add: coherent_def)
qed

text \<open>The end of \<open>add\<close>: append, send the required services, announce.\<close>

definition enlist :: "(nat \<Rightarrow> bool) \<Rightarrow> Registration \<Rightarrow> registry \<Rightarrow> (registry, bool) run" where
  "enlist d reg s =
     (let s2 = setRegs (ServiceName reg) (regsOf s (ServiceName reg) @ [reg]) s;
          (s3, err) = sendRequiredServices d reg s2
      in Ret (notify d \<lparr>Added = [reg], Removed = []\<rparr> s3) err)"

lemma addReg_cases:
  assumes "distinct (map ServiceURL (regsOf s (ServiceName reg)))"
  shows "addReg d reg s =
    (case findURL (ServiceURL reg) (regsOf s (ServiceName reg)) of
       None \<Rightarrow> enlist d reg s
     | Some j \<Rightarrow>
         (let s1 = setRegs (ServiceName reg) (delAt j (regsOf s (ServiceName reg)))
                (notify d \<lparr>Added = [], Removed = [regsOf s (ServiceName reg) ! j]\<rparr> s)
          in if Suc j = length (regsOf s (ServiceName reg)) then enlist d reg s1 else Panic s1))"
  by (simp add: addReg_def dropDuplicates_result [OF assms] enlist_def Let_def split: option.split)

lemma coherent_enlist:
  assumes co: "coherent sub k s" and sub: "subscribed sub s" and inv: "reg_inv s"
    and fin: "reg_inv (runState (enlist (\<lambda>_. True) r s))" "sub \<in> set (allRegs (runState (enlist (\<lambda>_. True) r s)))"
    and url: "ServiceUpdateURL r \<noteq> ServiceUpdateURL sub"
  shows "coherent sub k (runState (enlist (\<lambda>_. True) r s))"
proof -
  let ?n = "ServiceName r"
  let ?s2 = "setRegs ?n (regsOf s ?n @ [r]) s"
  define s3 where "s3 = fst (sendRequiredServices (\<lambda>_. True) r ?s2)"
  have s4: "runState (enlist (\<lambda>_. True) r s) = notify (\<lambda>_. True) \<lparr>Added = [r], Removed = []\<rparr> s3"
    by (simp add: enlist_def Let_def s3_def case_prod_beta)
  have frame: "registrationsMap s3 = registrationsMap ?s2" by (simp add: s3_def)
  have regs: "regsOf s3 m = (if m = ?n then regsOf s ?n @ [r] else regsOf s m)" for m
    using regsOf_cong [OF frame, of m] by simp
  have out: "k \<le> length (outbox s3)" "viewFrom (ServiceUpdateURL sub) (drop k (outbox s3)) noProviders =
      viewFrom (ServiceUpdateURL sub) (drop k (outbox s)) noProviders"
    using co url by (auto simp: s3_def sendRequiredServices_def sendPatch_def Let_def coherent_def viewFrom_append)
  have inv3: "reg_inv s3" using fin(1) by (simp add: s4 reg_inv_cong [of s3 "notify _ _ s3"])
  have sub3: "subscribed sub s3"
    by (rule subscribed_mono [OF sub inv inv3]) (use fin(2) regs url in \<open>auto simp: s4 allRegs_def split: if_splits\<close>)
  have "cached (viewFrom (ServiceUpdateURL sub) (drop k (outbox (runState (enlist (\<lambda>_. True) r s)))) noProviders) m =
      regsOf (runState (enlist (\<lambda>_. True) r s)) m" if "m \<in> set (RequiredServices sub)" for m
    using notify_view [OF inv3 sub3 out(1) that, of "\<lparr>Added = [r], Removed = []\<rparr>"] co that out(2) regs
    by (simp add: s4 cached_Update coherent_def)
  moreover have "k \<le> length (outbox (runState (enlist (\<lambda>_. True) r s)))"
    unfolding s4 by (rule le_trans [OF out(1) outbox_notify])
  ultimately show ?thesis by (simp add: coherent_def)
qed

lemma runState_addReg_inv:
  "reg_inv s \<Longrightarrow> freshID s (ServiceID r) \<Longrightarrow> LastHeartBeat (heartbeatServer s) (ServiceID r) \<noteq> None \<Longrightarrow>
   addReg d r s = res \<Longrightarrow> reg_inv (runState res)"
  using addReg_inv by blast

lemma reg_inv_heard:
  assumes "reg_inv s" "s' = s\<lparr>heartbeatServer := h\<rparr>" "dom (LastHeartBeat (heartbeatServer s)) \<subseteq> dom (LastHeartBeat h)"
  shows "reg_inv s'"
  using assms unfolding reg_inv_def by (fastforce simp: regsOf_def dom_def)

text \<open>One change of the table keeps the cache coherent.\<close>

lemma coherent_add:
  assumes inv: "reg_inv s" and sub: "subscribed sub s" and co: "coherent sub k s"
    and url: "ServiceUpdateURL r \<noteq> ServiceUpdateURL sub" and new: "s' = runState (addReg (\<lambda>_. True) r s)"
    and fin: "reg_inv s'" "sub \<in> set (allRegs s')"
  shows "coherent sub k s'"
proof (cases "findURL (ServiceURL r) (regsOf s (ServiceName r))")
  case None
  then have "addReg (\<lambda>_. True) r s = enlist (\<lambda>_. True) r s" by (simp add: addReg_cases [OF reg_invD(2) [OF inv]])
  with coherent_enlist [OF co sub inv _ _ url] fin(1) new fin(2) show ?thesis by simp
next
  case (Some j)
  note dist = reg_invD(2) [OF inv, of "ServiceName r"]
  let ?s1 = "setRegs (ServiceName r) (delAt j (regsOf s (ServiceName r))) (notify (\<lambda>_. True) \<lparr>Added = [], Removed = [regsOf s (ServiceName r) ! j]\<rparr> s)"
  have j: "j < length (regsOf s (ServiceName r))" using Some by (simp add: findURL_Some)
  have co1: "coherent sub k ?s1" by (rule coherent_removed [OF inv sub co j])
  have rem: "?s1 = fst (removeReg (\<lambda>_. True) (ServiceName r) (ServiceURL r) s)" using Some by (simp add: removeReg_result)
  then have inv1: "reg_inv ?s1" using removeReg_inv [OF inv] by metis
  have step: "addReg (\<lambda>_. True) r s =
      (if Suc j = length (regsOf s (ServiceName r)) then enlist (\<lambda>_. True) r ?s1 else Panic ?s1)"
    using Some by (simp add: addReg_cases [OF dist] Let_def)
  show ?thesis
  proof (cases "Suc j = length (regsOf s (ServiceName r))")
    case False
    with step new co1 show ?thesis by simp
  next
    case True
    have regs: "regsOf s' m = regsOf ?s1 m @ (if m = (ServiceName r) then [r] else [])" for m
      using addReg_result(1,2) [OF dist, of "\<lambda>_. True"] new Some True butlast_delAt [OF True]
      by (auto split: if_splits)
    obtain m where "sub \<in> set (regsOf s' m)" using fin(2) set_allRegs [OF reg_invD(1) [OF fin(1)], of sub] by blast
    then have "\<exists>m. sub \<in> set (regsOf ?s1 m)" using regs [of m] url by (auto split: if_splits)
    then have in1: "sub \<in> set (allRegs ?s1)" by (simp only: set_allRegs [OF reg_invD(1) [OF inv1]])
    have "subscribed sub ?s1"
      by (rule subscribed_mono [OF sub inv inv1 in1]) (auto split: if_splits dest: in_set_delAtD)
    with step True url new fin(2) fin(1) inv1 co1 show ?thesis using coherent_enlist [of sub k ?s1 r] by simp
  qed
qed

lemma table_step_coherent:
  assumes "table_step sub s s'" "reg_inv s" "subscribed sub s" "coherent sub k s"
  shows "reg_inv s' \<and> subscribed sub s' \<and> coherent sub k s'"
  using assms(1)
proof cases
  case (heard h)
  have "reg_inv s'" using assms(2) heard by (rule_tac reg_inv_heard) auto
  then show ?thesis using assms(3,4) heard by (simp add: subscribed_def coherent_def allRegs_def regsOf_def)
next
  case (remove n url)
  have inv': "reg_inv s'" using removeReg_inv [OF assms(2)] remove(1) by blast
  have "coherent sub k s'"
    using remove(1) assms(4) coherent_removed [OF assms(2-4)]
    by (auto simp: removeReg_result findURL_Some split: option.splits)
  moreover have "r \<in> set (regsOf s' m) \<Longrightarrow> r \<in> set (regsOf s m)" for m r
    using remove(1) by (auto simp: removeReg_result split: option.splits if_splits dest: in_set_delAtD)
  then have "subscribed sub s'" using subscribed_mono [OF assms(3,2) inv' remove(2)] by blast
  ultimately show ?thesis using inv' by blast
next
  case (add r)
  let ?n = "ServiceName r"
  have dist: "distinct (map ServiceURL (regsOf s ?n))" by (rule reg_invD(2) [OF assms(2)])
  have inv': "reg_inv s'" using addReg_inv [OF assms(2) add(1,2)] add(4) by blast
  have "x \<in> set (regsOf s m) \<or> ServiceUpdateURL x \<noteq> ServiceUpdateURL sub" if "x \<in> set (regsOf s' m)" for m x
  proof -
    have "set (regsOf s' ?n) \<subseteq> insert r (set (regsOf s ?n))"
      using addReg_result(1) [OF dist, of "\<lambda>_. True"] add(4)
      by (auto split: option.splits if_splits dest: in_set_butlastD in_set_delAtD)
    with addReg_result(2) [OF dist, of "\<lambda>_. True"] add(3,4) that show ?thesis by (cases "m = ?n") auto
  qed
  then have sub': "subscribed sub s'" using subscribed_mono [OF assms(3,2) inv' add(5)] by blast
  have "coherent sub k s'" by (rule coherent_add [OF assms(2-4) add(3,4) inv' add(5)])
  then show ?thesis using inv' sub' by blast
qed

lemma table_steps_coherent:
  assumes "(table_step sub)\<^sup>*\<^sup>* s s'" "reg_inv s" "subscribed sub s" "coherent sub k s"
  shows "reg_inv s' \<and> subscribed sub s' \<and> coherent sub k s'"
  using assms by (induction rule: rtranclp_induct) (auto dest: table_step_coherent)

lemma cached_noProviders [simp]: "cached noProviders n = []"
  by (simp add: cached_def noProviders_def)

text \<open>What the patch of \<open>sendRequiredServices\<close> holds for each required service.\<close>

lemma filter_requiredRegs:
  assumes inv: "\<forall>m. \<forall>r \<in> set (regsOf s m). ServiceName r = m" and "distinct ns"
  shows "filter (\<lambda>r. ServiceName r = n) (requiredRegs s ns) = (if n \<in> set ns then regsOf s n else [])"
  using assms(2)
proof (induction ns)
  case (Cons m ns)
  have "filter (\<lambda>r. ServiceName r = n) (regsOf s m) = (if n = m then regsOf s m else [])"
    using inv by (auto simp: filter_empty_conv filter_id_conv)
  with Cons show ?case by (auto simp: regsOf_def split: option.splits)
qed simp

text \<open>The first patch a service gets holds the current lists of the services it requires.\<close>

lemma first_patch_view:
  assumes "\<forall>m. \<forall>r \<in> set (regsOf s m). ServiceName r = m" "distinct (RequiredServices sub)" "m \<in> set (RequiredServices sub)"
  shows "cached (viewFrom (ServiceUpdateURL sub) (drop (length (outbox s)) (outbox (fst (sendRequiredServices (\<lambda>_. True) sub s)))) noProviders) m = regsOf s m"
  using filter_requiredRegs [OF assms(1,2), of m] assms(3)
  by (auto simp: sendRequiredServices_def sendPatch_def Let_def cached_Update)

lemma coherent_start:
  assumes inv: "reg_inv s" and fresh: "freshID s (ServiceID sub)" "LastHeartBeat (heartbeatServer s) (ServiceID sub) \<noteq> None"
    and req: "distinct (RequiredServices sub)" "ServiceName sub \<notin> set (RequiredServices sub)"
    and url: "\<forall>r \<in> set (allRegs s). ServiceURL r \<noteq> ServiceURL sub \<and> ServiceUpdateURL r \<noteq> ServiceUpdateURL sub"
    and s': "s' = runState (addReg (\<lambda>_. True) sub s)"
  shows "reg_inv s' \<and> subscribed sub s' \<and> coherent sub (length (outbox s)) s'"
proof -
  let ?n = "ServiceName sub" and ?u = "ServiceUpdateURL sub"
  let ?s2 = "setRegs ?n (regsOf s ?n @ [sub]) s"
  define s3 where "s3 = fst (sendRequiredServices (\<lambda>_. True) sub ?s2)"
  have inS: "r \<in> set (regsOf s m) \<Longrightarrow> r \<in> set (allRegs s)" for r m
    using set_allRegs [OF reg_invD(1) [OF inv]] by blast
  have none: "findURL (ServiceURL sub) (regsOf s ?n) = None"
    using url inS by (auto simp: findURL_None)
  have enl: "addReg (\<lambda>_. True) sub s = enlist (\<lambda>_. True) sub s"
    by (simp add: addReg_cases [OF reg_invD(2) [OF inv]] none)
  have s4: "s' = notify (\<lambda>_. True) \<lparr>Added = [sub], Removed = []\<rparr> s3"
    by (simp add: s' enl enlist_def Let_def s3_def case_prod_beta)
  have inv': "reg_inv s'" using addReg_inv [OF inv fresh] s' by blast
  have inv3: "reg_inv s3" using inv' by (simp add: s4 reg_inv_cong [of s3 "notify _ _ s3"])
  have maps: "registrationsMap s3 = registrationsMap ?s2" by (simp add: s3_def)
  have regs: "regsOf s3 m = (if m = ?n then regsOf s ?n @ [sub] else regsOf s m)" for m
    using regsOf_cong [OF maps, of m] by simp
  have in3: "r \<in> set (allRegs s3) \<longleftrightarrow> r = sub \<or> r \<in> set (allRegs s)" for r
  proof -
    have "(\<exists>m. r \<in> set (regsOf s3 m)) \<longleftrightarrow> r = sub \<or> (\<exists>m. r \<in> set (regsOf s m))"
      by (simp add: regs) (metis Un_iff)
    then show ?thesis by (simp add: set_allRegs [OF reg_invD(1) [OF inv3]] set_allRegs [OF reg_invD(1) [OF inv]])
  qed
  have sub3: "subscribed sub s3" using in3 url req by (auto simp: subscribed_def)
  then have sub': "subscribed sub s'" by (simp add: s4 subscribed_def allRegs_def)
  have name2: "\<forall>m. \<forall>r \<in> set (regsOf ?s2 m). ServiceName r = m" using reg_invD(4) [OF inv] by simp
  have first: "cached (viewFrom ?u (drop (length (outbox s)) (outbox s3)) noProviders) m = regsOf s3 m"
    if "m \<in> set (RequiredServices sub)" for m
    using first_patch_view [OF name2 req(1) that] regsOf_cong [OF maps] by (simp add: s3_def)
  have len3: "length (outbox s) \<le> length (outbox s3)"
    by (simp add: s3_def sendRequiredServices_def sendPatch_def Let_def)
  have "cached (viewFrom ?u (drop (length (outbox s)) (outbox s')) noProviders) m = regsOf s' m"
    if m: "m \<in> set (RequiredServices sub)" for m
    using notify_view [OF inv3 sub3 len3 m, of "\<lparr>Added = [sub], Removed = []\<rparr>"] first [OF m] m req(2) s4
    by (auto simp: cached_Update)
  then have "coherent sub (length (outbox s)) s'"
    using len3 le_trans [OF _ outbox_notify] by (simp add: coherent_def s4)
  then show ?thesis using inv' sub' by blast
qed

text \<open>The subscriber's registration by a POST, and any changes of the table after it.\<close>

lemma registered_coherent:
  assumes "reg_reach regkey s" "freshID s uuid" "uuid \<noteq> []"
    and "rMethod r = POST" "rHeader r ''regkey'' = regkey" "rJson r = Some (encodeRegistration reg)"
    and "ServiceName reg \<noteq> []" "ServiceURL reg \<noteq> []"
    and "distinct (RequiredServices reg)" "ServiceName reg \<notin> set (RequiredServices reg)"
    and "\<forall>x \<in> set (allRegs s). ServiceURL x \<noteq> ServiceURL reg \<and> ServiceUpdateURL x \<noteq> ServiceUpdateURL reg"
    and "(table_step (reg\<lparr>ServiceID := uuid\<rparr>))\<^sup>*\<^sup>* (runState (registryServeHTTP (\<lambda>_. True) regkey uuid now r s w)) s'"
  shows "reg_inv s' \<and> subscribed (reg\<lparr>ServiceID := uuid\<rparr>) s' \<and> coherent (reg\<lparr>ServiceID := uuid\<rparr>) (length (outbox s)) s'"
proof -
  let ?sub = "reg\<lparr>ServiceID := uuid\<rparr>"
  let ?s1 = "s\<lparr>heartbeatServer := (heartbeatServer s)\<lparr>LastHeartBeat :=
     (LastHeartBeat (heartbeatServer s))(uuid \<mapsto> now)\<rparr>\<rparr>"
  have inv: "reg_inv ?s1" using reg_inv_heartbeat reg_reach_inv [OF assms(1)] by blast
  have post: "runState (registryServeHTTP (\<lambda>_. True) regkey uuid now r s w) = runState (addReg (\<lambda>_. True) ?sub ?s1)"
    using assms(3-8) by (simp add: registryServeHTTP_def registryPost_def Let_def split: run.split)
  have "reg_inv (runState (addReg (\<lambda>_. True) ?sub ?s1)) \<and> subscribed ?sub (runState (addReg (\<lambda>_. True) ?sub ?s1)) \<and>
      coherent ?sub (length (outbox ?s1)) (runState (addReg (\<lambda>_. True) ?sub ?s1))"
    by (rule coherent_start [OF inv]) (use assms in \<open>simp_all add: freshID_def allRegs_def\<close>)
  then show ?thesis using table_steps_coherent [OF assms(12) [unfolded post], of "length (outbox s)"] by simp
qed

text \<open>A sweep with delivered patches is a sequence of such changes, when the subscriber survives it.\<close>

lemma removeReg_shrinks:
  assumes "reg_inv s"
  shows "set (allRegs (fst (removeReg d n url s))) \<subseteq> set (allRegs s)"
proof
  have inv': "reg_inv (fst (removeReg d n url s))" by (rule removeReg_inv [OF assms])
  fix r assume "r \<in> set (allRegs (fst (removeReg d n url s)))"
  then obtain m where "r \<in> set (regsOf (fst (removeReg d n url s)) m)"
    using set_allRegs [OF reg_invD(1) [OF inv']] by blast
  then have "r \<in> set (regsOf s m)"
    by (auto simp: removeReg_result split: option.splits if_splits dest: in_set_delAtD)
  then show "r \<in> set (allRegs s)" using set_allRegs [OF reg_invD(1) [OF assms]] by blast
qed

lemma removeInactiveRegs_steps:
  assumes "reg_inv s" "sub \<in> set (allRegs (removeInactiveRegs (\<lambda>_. True) l c n regs s))"
  shows "(table_step sub)\<^sup>*\<^sup>* s (removeInactiveRegs (\<lambda>_. True) l c n regs s) \<and> sub \<in> set (allRegs s)"
  using assms
proof (induction regs arbitrary: s)
  case (Cons r regs)
  define s1 where "s1 = (if inactive l c r then fst (removeReg (\<lambda>_. True) n (ServiceURL r) s) else s)"
  have inv1: "reg_inv s1" using Cons.prems(1) removeReg_inv by (simp add: s1_def)
  have rest: "(table_step sub)\<^sup>*\<^sup>* s1 (removeInactiveRegs (\<lambda>_. True) l c n (r # regs) s)" and sub1: "sub \<in> set (allRegs s1)"
    using Cons.IH [OF inv1] Cons.prems(2) by (simp_all add: s1_def)
  have "(table_step sub)\<^sup>*\<^sup>* s s1"
    using sub1 table_step.remove [of s1 n "ServiceURL r" s sub] by (auto simp: s1_def)
  moreover have "sub \<in> set (allRegs s)"
    using sub1 removeReg_shrinks [OF Cons.prems(1)] by (auto simp: s1_def split: if_splits)
  ultimately show ?case using rest by (meson rtranclp_trans)
qed simp

lemma sweep_steps:
  assumes "reg_inv s" "sub \<in> set (allRegs (removeInactiveServices (\<lambda>_. True) order clock s))"
  shows "(table_step sub)\<^sup>*\<^sup>* s (removeInactiveServices (\<lambda>_. True) order clock s)"
proof -
  have "(table_step sub)\<^sup>*\<^sup>* s (removeInactiveFrom (\<lambda>_. True) l clock snap s) \<and> sub \<in> set (allRegs s)"
    if "reg_inv s" "sub \<in> set (allRegs (removeInactiveFrom (\<lambda>_. True) l clock snap s))" for l snap s
    using that
  proof (induction snap arbitrary: s)
    case (Cons e snap)
    obtain n regs where e: "e = (n, regs)" by fastforce
    let ?s1 = "removeInactiveRegs (\<lambda>_. True) l clock n regs s"
    have "reg_inv ?s1" using Cons.prems(1) by (rule removeInactiveRegs_inv)
    with Cons.IH [of ?s1] Cons.prems(2) e
    have "(table_step sub)\<^sup>*\<^sup>* ?s1 (removeInactiveFrom (\<lambda>_. True) l clock (e # snap) s)" "sub \<in> set (allRegs ?s1)" by simp_all
    with removeInactiveRegs_steps [OF Cons.prems(1)] show ?case by (meson rtranclp_trans)
  qed simp
  with assms show ?thesis unfolding removeInactiveServices_def by blast
qed

section \<open>Property\<close>

text \<open>
  C1: a service registers by a POST with the right key, under URLs no other service uses, and the
  patches sent from then on are delivered. After any sequence of registrations, removals and
  heartbeats of other services, the cache it builds from the patches sent to its update URL holds
  for every service it requires exactly the registry's list, in the registry's order.
\<close>

theorem provider_cache_coherent:
  assumes "reg_reach regkey s" "freshID s uuid" "uuid \<noteq> []"
    and "rMethod r = POST" "rHeader r ''regkey'' = regkey" "rJson r = Some (encodeRegistration reg)"
    and "ServiceName reg \<noteq> []" "ServiceURL reg \<noteq> []"
    and "distinct (RequiredServices reg)" "ServiceName reg \<notin> set (RequiredServices reg)"
    and "\<forall>x \<in> set (allRegs s). ServiceURL x \<noteq> ServiceURL reg \<and> ServiceUpdateURL x \<noteq> ServiceUpdateURL reg"
    and "(table_step (reg\<lparr>ServiceID := uuid\<rparr>))\<^sup>*\<^sup>* (runState (registryServeHTTP (\<lambda>_. True) regkey uuid now r s w)) s'"
    and "n \<in> set (RequiredServices reg)"
  shows "cached (viewFrom (ServiceUpdateURL reg) (drop (length (outbox s)) (outbox s')) noProviders) n = regsOf s' n"
  using registered_coherent [OF assms(1-12)] assms(13) by (simp add: coherent_def)

definition webReg :: Registration where
  "webReg = \<lparr>ServiceName = ''WebService'', ServiceURL = ''w'', ServiceID = [], PublicIP = ''w'',
     PublicIPv6 = [], Description = [], RequiredServices = [''NodeService''], ServiceUpdateURL = ''w/services''\<rparr>"

definition withWeb :: registry where
  "withWeb = runState (registryServeHTTP (\<lambda>_. True) ''k'' ''id3'' 9 (postRequest ''k'' webReg) twoNodes newWriter)"

text \<open>The web server joins two nodes, then one of them is removed.\<close>

theorem provider_cache_coherent_witness:
  "cached (viewFrom ''w/services'' (outbox (fst (removeReg (\<lambda>_. True) ''NodeService'' ''u1'' withWeb))) noProviders)
     ''NodeService'' = [nodeReg ''u2'' ''id2'']"
proof -
  let ?s' = "fst (removeReg (\<lambda>_. True) ''NodeService'' ''u1'' withWeb)"
  have regs: "registrationsMap withWeb = [(''NodeService'', [nodeReg ''u1'' ''id1'', nodeReg ''u2'' ''id2'']),
      (''WebService'', [webReg\<lparr>ServiceID := ''id3''\<rparr>])]"
    by (simp add: withWeb_def registry_eval twoNodes_eq webReg_def nodeReg_def sendPatch_def)
  then have regs': "registrationsMap ?s' = [(''NodeService'', [nodeReg ''u2'' ''id2'']),
      (''WebService'', [webReg\<lparr>ServiceID := ''id3''\<rparr>])]"
    by (simp add: removeReg_def regsOf_def setRegs_def nodeReg_def delAt_def Let_def)
  then have "table_step (webReg\<lparr>ServiceID := ''id3''\<rparr>) withWeb ?s'"
    by (intro table_step.remove [where n = "''NodeService''" and url = "''u1''"]) (simp_all add: allRegs_def)
  then have steps: "(table_step (webReg\<lparr>ServiceID := ''id3''\<rparr>))\<^sup>*\<^sup>*
      (runState (registryServeHTTP (\<lambda>_. True) ''k'' ''id3'' 9 (postRequest ''k'' webReg) twoNodes newWriter)) ?s'"
    by (simp add: withWeb_def)
  have "outbox twoNodes = []" by (simp add: twoNodes_eq)
  with provider_cache_coherent [OF twoNodes_reach _ _ _ _ _ _ _ _ _ _ steps, where n = "''NodeService''"] regs'
  show ?thesis
    by (simp add: postRequest_def webReg_def freshID_def allRegs_def twoNodes_eq nodeReg_def regsOf_def)
qed

end
