(* ===== verification/Node_Failure.thy ===== *)
theory Node_Failure
  imports Cache_Coherence Web_Connections
begin

text \<open>
  From a silent node to its users: the sweep of the registry (src/registry/server.go), the patches it
  sends, the provider cache of the web server (src/registry/client.go) and the heartbeat monitor of the
  web server (src/web/controllers/clientHeartbeatMonitor.go) together.
\<close>

text \<open>
  C16: the web server registers and its patches are delivered. After any changes of the table the
  registry sweeps; then the monitor, with the providers the cache gives, keeps for every user exactly
  the connections to nodes the registry heard of at most 20 seconds before the sweep, whose client
  was heard of at most 30 seconds ago. So a node that falls silent loses its users' entries, and a
  node that does not keeps them.
\<close>

theorem silent_node_loses_connections:
  assumes "reg_reach regkey s" "freshID s uuid" "uuid \<noteq> []"
    and "rMethod r = POST" "rHeader r ''regkey'' = regkey" "rJson r = Some (encodeRegistration reg)"
    and "ServiceName reg \<noteq> []" "ServiceURL reg \<noteq> []"
    and "distinct (RequiredServices reg)" "ServiceName reg \<notin> set (RequiredServices reg)"
    and "\<forall>x \<in> set (allRegs s). ServiceURL x \<noteq> ServiceURL reg \<and> ServiceUpdateURL x \<noteq> ServiceUpdateURL reg"
    and "(table_step (reg\<lparr>ServiceID := uuid\<rparr>))\<^sup>*\<^sup>* (runState (registryServeHTTP (\<lambda>_. True) regkey uuid now r s w)) s1"
    and "set (order (registrationsMap s1)) = set (registrationsMap s1)" "distinct (map fst (order (registrationsMap s1)))"
    and "clock (reg\<lparr>ServiceID := uuid\<rparr>) - the (LastHeartBeat (heartbeatServer s1) uuid) \<le> 20 * second"
    and "s2 = removeInactiveServices (\<lambda>_. True) order clock s1" "n \<in> set (RequiredServices reg)"
    and "providers = GetProviders (viewFrom (ServiceUpdateURL reg) (drop (length (outbox s)) (outbox s2)) noProviders) n"
    and "distinct order1" "set order1 = dom m" "distinct order2" "set order2 = dom (pruneUsers providers order1 m)"
    and "heartbeatMonitorRound providers nodePort t order1 order2 m = (m', batches)"
  shows "m' u = keep (\<lambda>c. (\<exists>node \<in> set (regsOf s1 n).
      clock node - the (LastHeartBeat (heartbeatServer s1) (ServiceID node)) \<le> 20 * second \<and>
      ucServiceID c = ServiceID node \<and> ucNodeIP c = PublicIP node) \<and> t - ucLastHeartBeat c \<le> 30 * second) (m u)"
proof -
  let ?sub = "reg\<lparr>ServiceID := uuid\<rparr>"
  let ?view = "viewFrom (ServiceUpdateURL reg) (drop (length (outbox s)) (outbox s2)) noProviders"
  have start: "reg_inv s1" "subscribed ?sub s1"
    using registered_coherent [OF assms(1-12)] by blast+
  note swept = sweep_regsOf [where order = order and d = "\<lambda>_. True" and clock = clock, OF start(1) assms(13,14)]
  have inv2: "reg_inv s2"
    unfolding assms(16) removeInactiveServices_def by (rule removeInactiveFrom_inv [OF start(1)])
  have "?sub \<in> set (allRegs s1)" using start(2) unfolding subscribed_def by blast
  then obtain k where k: "?sub \<in> set (regsOf s1 k)" using set_allRegs [OF reg_invD(1) [OF start(1)]] by blast
  with reg_invD(4) [OF start(1) k] have "?sub \<in> set (regsOf s1 (ServiceName reg))" by simp
  then have "?sub \<in> set (regsOf s2 (ServiceName reg))" using assms(15) by (simp add: assms(16) swept)
  then have "?sub \<in> set (allRegs s2)" using set_allRegs [OF reg_invD(1) [OF inv2]] by blast
  then have "(table_step ?sub)\<^sup>*\<^sup>* s1 s2" using sweep_steps [OF start(1)] assms(16) by blast
  with assms(12) have "(table_step ?sub)\<^sup>*\<^sup>* (runState (registryServeHTTP (\<lambda>_. True) regkey uuid now r s w)) s2"
    by (rule rtranclp_trans)
  from registered_coherent [OF assms(1-11) this] assms(17) have "cached ?view n = regsOf s2 n"
    by (simp add: coherent_def)
  then have known: "nodeKnown providers c \<longleftrightarrow> (\<exists>node \<in> set (regsOf s1 n).
      clock node - the (LastHeartBeat (heartbeatServer s1) (ServiceID node)) \<le> 20 * second \<and>
      ucServiceID c = ServiceID node \<and> ucNodeIP c = PublicIP node)" for c
    by (auto simp: nodeKnown_def assms(16,18) GetProviders_def cached_def swept)
  show ?thesis
    using heartbeatMonitorRound_result [OF assms(19-23)] by (simp add: freshConn_iff known)
qed

section \<open>Concrete run\<close>

text \<open>Two nodes and the web server; the first node is silent for longer than the second.\<close>

lemma withWeb_eq:
  "registrationsMap withWeb = [(''NodeService'', [nodeReg ''u1'' ''id1'', nodeReg ''u2'' ''id2'']),
     (''WebService'', [webReg\<lparr>ServiceID := ''id3''\<rparr>])]"
  "LastHeartBeat (heartbeatServer withWeb) = (LastHeartBeat (heartbeatServer twoNodes))(''id3'' \<mapsto> 9)"
  by (simp_all add: withWeb_def registry_eval twoNodes_eq webReg_def nodeReg_def sendPatch_def)

definition connTo :: "string \<Rightarrow> string \<Rightarrow> UserConnection" where
  "connTo ip i = \<lparr>ucNodeIP = ip, ucServiceID = i, ucNodePort = ''10000'', ucClientIP = ''5.5.5.5'', ucLastHeartBeat = 0\<rparr>"

definition sweptWeb :: registry where
  "sweptWeb = removeInactiveServices (\<lambda>_. True) rev (\<lambda>_. 20 * second + 3) withWeb"

lemma sweptWeb_providers:
  "GetProviders (viewFrom ''w/services'' (outbox sweptWeb) noProviders) ''NodeService'' = Some [nodeReg ''u2'' ''id2'']"
proof -
  have box: "outbox withWeb = [(''w/services'', \<lparr>Added = [nodeReg ''u1'' ''id1'', nodeReg ''u2'' ''id2''], Removed = []\<rparr>),
      (''u1/services'', \<lparr>Added = [webReg\<lparr>ServiceID := ''id3''\<rparr>], Removed = []\<rparr>),
      (''u2/services'', \<lparr>Added = [webReg\<lparr>ServiceID := ''id3''\<rparr>], Removed = []\<rparr>)]"
    by (simp add: withWeb_def registry_eval twoNodes_eq webReg_def nodeReg_def sendPatch_def)
  have "outbox sweptWeb = outbox withWeb @ [(''w/services'', \<lparr>Added = [], Removed = [nodeReg ''u1'' ''id1'']\<rparr>)]"
    by (simp add: sweptWeb_def removeInactiveServices_def withWeb_eq inactive_def timeSub_def second_def removeReg_def
        regsOf_def notify_def allRegs_def setRegs_def nodeReg_def webReg_def sendPatch_def delAt_def twoNodes_eq Let_def minInt64_def maxInt64_def)
  then show ?thesis
    by (simp add: box Update_def GetProviders_def noProviders_def nodeReg_def webReg_def)
qed

theorem silent_node_loses_connections_witness:
  "let providers = GetProviders (viewFrom ''w/services'' (outbox sweptWeb) noProviders) ''NodeService'';
       (m', _) = heartbeatMonitorRound providers ''80'' 7 [''u''] [''u''] [''u'' \<mapsto> [connTo ''u1'' ''id1'', connTo ''u2'' ''id2'']]
   in m' ''u'' = Some [connTo ''u2'' ''id2'']"
proof -
  let ?p = "Some [nodeReg ''u2'' ''id2'']" and ?m = "[''u'' \<mapsto> [connTo ''u1'' ''id1'', connTo ''u2'' ''id2'']]"
  obtain m' batches where run: "heartbeatMonitorRound ?p ''80'' 7 [''u''] [''u''] ?m = (m', batches)" by fastforce
  have dom: "set [''u''] = dom (pruneUsers ?p [''u''] ?m)" "set [''u''] = dom ?m"
    by (simp_all add: keepConns_def nodeKnown_def nodeReg_def connTo_def)
  have box: "outbox twoNodes = []" by (simp add: twoNodes_eq)
  have post: "rMethod (postRequest ''k'' webReg) = POST" "rHeader (postRequest ''k'' webReg) ''regkey'' = ''k''"
      "rJson (postRequest ''k'' webReg) = Some (encodeRegistration webReg)"
    by (simp_all add: postRequest_def)
  have reg: "freshID twoNodes ''id3''" "ServiceName webReg \<noteq> []" "ServiceURL webReg \<noteq> []" "distinct (RequiredServices webReg)"
      "ServiceName webReg \<notin> set (RequiredServices webReg)" "''NodeService'' \<in> set (RequiredServices webReg)"
      "\<forall>x \<in> set (allRegs twoNodes). ServiceURL x \<noteq> ServiceURL webReg \<and> ServiceUpdateURL x \<noteq> ServiceUpdateURL webReg"
    by (simp_all add: freshID_def allRegs_def twoNodes_eq nodeReg_def webReg_def)
  have steps: "(table_step (webReg\<lparr>ServiceID := ''id3''\<rparr>))\<^sup>*\<^sup>*
      (runState (registryServeHTTP (\<lambda>_. True) ''k'' ''id3'' 9 (postRequest ''k'' webReg) twoNodes newWriter)) withWeb"
    by (simp add: withWeb_def)
  have prov: "?p = GetProviders (viewFrom (ServiceUpdateURL webReg) (drop (length (outbox twoNodes)) (outbox sweptWeb)) noProviders) ''NodeService''"
    using sweptWeb_providers by (simp add: box webReg_def)
  have "m' ''u'' = keep (\<lambda>c. (\<exists>node \<in> set (regsOf withWeb ''NodeService'').
      20 * second + 3 - the (LastHeartBeat (heartbeatServer withWeb) (ServiceID node)) \<le> 20 * second \<and>
      ucServiceID c = ServiceID node \<and> ucNodeIP c = PublicIP node) \<and> 7 - ucLastHeartBeat c \<le> 30 * second) (?m ''u'')"
    by (rule silent_node_loses_connections [OF twoNodes_reach reg(1) _ post reg(2-5,7) steps _ _ _ sweptWeb_def reg(6) prov _ dom(2) _ dom(1) run])
      (auto simp: withWeb_eq)
  also have "\<dots> = Some [connTo ''u2'' ''id2'']"
    by (simp add: keep_def withWeb_eq regsOf_def twoNodes_eq nodeReg_def connTo_def second_def)
  finally show ?thesis by (simp add: sweptWeb_providers run)
qed

end
