(* ===== verification/Provider_Slices.thy ===== *)
theory Provider_Slices
  imports Registry_Client
begin

text \<open>
  The provider cache of src/registry/client.go with its slices. Registry_Client keeps a list for each
  service; the Go code keeps a slice, that is an array and a length, hands that very slice out in
  \<open>GetProviders\<close>, and changes the array in place: \<open>append\<close> writes behind the slice while the array has
  room and moves to a new array otherwise, and \<open>append(a[:i], a[i+1:]...)\<close> shifts the rest of the array
  by one. Here the arrays are an explicit store, an address is an index into it, and \<open>grow\<close> is the
  spare room the runtime gives a new array.

  The operations on the store refine the operations on lists, and a slice that a caller still holds
  after later patches keeps every provider that has not been removed.
\<close>

section \<open>The cache as an interface\<close>

text \<open>A cache that is built from patches and behaves as the lists of \<open>Update\<close>.\<close>

locale provider_cache =
  fixes update :: "patch \<Rightarrow> 'c \<Rightarrow> 'c"
    and start :: 'c
    and inv :: "'c \<Rightarrow> bool"
    and view :: "'c \<Rightarrow> providers"
  assumes start_inv: "inv start"
    and start_view: "view start = noProviders"
    and update_inv: "inv c \<Longrightarrow> inv (update pat c)"
    and update_view: "inv c \<Longrightarrow> view (update pat c) = Update pat (view c)"
begin

lemma updates: "inv c \<Longrightarrow> inv (fold update pats c) \<and> view (fold update pats c) = fold Update pats (view c)"
  by (induction pats arbitrary: c) (simp_all add: update_inv update_view)

lemma built: "inv (fold update pats start)" "view (fold update pats start) = fold Update pats noProviders"
  using updates [OF start_inv, of pats] by (simp_all add: start_view)

end

section \<open>Model\<close>

record slice =
  sArr :: nat
  sLen :: nat

type_synonym array_store = "Registration list list"

record heap_providers =
  hArrays :: array_store
  hServices :: "string \<rightharpoonup> slice"

definition readSlice :: "array_store \<Rightarrow> slice \<Rightarrow> Registration list" where
  "readSlice A sl = take (sLen sl) (A ! sArr sl)"

text \<open>\<open>append(sl, x)\<close>.\<close>

definition appendSlice :: "(nat \<Rightarrow> nat) \<Rightarrow> Registration \<Rightarrow> slice \<Rightarrow> array_store \<Rightarrow> array_store \<times> slice" where
  "appendSlice grow x sl A =
     (if sLen sl < length (A ! sArr sl)
      then (A[sArr sl := (A ! sArr sl)[sLen sl := x]], sl\<lparr>sLen := Suc (sLen sl)\<rparr>)
      else (A @ [readSlice A sl @ [x] @ replicate (grow (sLen sl)) emptyRegistration],
            \<lparr>sArr = length A, sLen = Suc (sLen sl)\<rparr>))"

text \<open>\<open>append(sl[:i], sl[i+1:]...)\<close>: the array always has room for it.\<close>

definition cutSlice :: "nat \<Rightarrow> slice \<Rightarrow> array_store \<Rightarrow> array_store \<times> slice" where
  "cutSlice i sl A =
     (let arr = A ! sArr sl
      in (A[sArr sl := take i arr @ drop (Suc i) (take (sLen sl) arr) @ drop (sLen sl - 1) arr],
          sl\<lparr>sLen := sLen sl - 1\<rparr>))"

fun indexOfID :: "string \<Rightarrow> Registration list \<Rightarrow> nat option" where
  "indexOfID serviceID [] = None"
| "indexOfID serviceID (r # rs) = (if ServiceID r = serviceID then Some 0 else map_option Suc (indexOfID serviceID rs))"

text \<open>One turn of each loop of \<open>Update\<close>.\<close>

definition heapAdd :: "(nat \<Rightarrow> nat) \<Rightarrow> Registration \<Rightarrow> heap_providers \<Rightarrow> heap_providers" where
  "heapAdd grow reg p =
     (let (A1, sl) = (case hServices p (ServiceName reg) of
                        None \<Rightarrow> (hArrays p @ [[]], \<lparr>sArr = length (hArrays p), sLen = 0\<rparr>)
                      | Some sl \<Rightarrow> (hArrays p, sl));
          (A2, sl') = appendSlice grow reg sl A1
      in p\<lparr>hArrays := A2, hServices := (hServices p)(ServiceName reg \<mapsto> sl')\<rparr>)"

definition heapRemove :: "Registration \<Rightarrow> heap_providers \<Rightarrow> heap_providers" where
  "heapRemove reg p =
     (case hServices p (ServiceName reg) of
        None \<Rightarrow> p
      | Some sl \<Rightarrow>
          (case indexOfID (ServiceID reg) (readSlice (hArrays p) sl) of
             None \<Rightarrow> p
           | Some i \<Rightarrow>
               (let (A1, sl') = cutSlice i sl (hArrays p)
                in p\<lparr>hArrays := A1, hServices := (hServices p)(ServiceName reg \<mapsto> sl')\<rparr>)))"

definition heapUpdate :: "(nat \<Rightarrow> nat) \<Rightarrow> patch \<Rightarrow> heap_providers \<Rightarrow> heap_providers" where
  "heapUpdate grow pat p = fold heapRemove (Removed pat) (fold (heapAdd grow) (Added pat) p)"

definition noHeapProviders :: heap_providers where
  "noHeapProviders = \<lparr>hArrays = [], hServices = Map.empty\<rparr>"

section \<open>Abstraction and invariant\<close>

definition absProviders :: "heap_providers \<Rightarrow> providers" where
  "absProviders p = \<lparr>services = (\<lambda>n. map_option (readSlice (hArrays p)) (hServices p n))\<rparr>"

text \<open>Slices lie within their arrays, and no two services share an array.\<close>

definition slices_ok :: "heap_providers \<Rightarrow> bool" where
  "slices_ok p \<longleftrightarrow>
     (\<forall>n sl. hServices p n = Some sl \<longrightarrow> sArr sl < length (hArrays p) \<and> sLen sl \<le> length (hArrays p ! sArr sl)) \<and>
     (\<forall>n m sl sl'. hServices p n = Some sl \<longrightarrow> hServices p m = Some sl' \<longrightarrow> sArr sl = sArr sl' \<longrightarrow> n = m)"

lemma slices_okD:
  assumes "slices_ok p" "hServices p n = Some sl"
  shows "sArr sl < length (hArrays p)" "sLen sl \<le> length (hArrays p ! sArr sl)"
    and "hServices p m = Some sl' \<Longrightarrow> m \<noteq> n \<Longrightarrow> sArr sl' \<noteq> sArr sl"
  using assms unfolding slices_ok_def by metis+

text \<open>What one operation does to the store: one service gets a slice in its old array or in a new
  one, and no array of another service changes.\<close>

definition replaces :: "heap_providers \<Rightarrow> string \<Rightarrow> slice \<Rightarrow> array_store \<Rightarrow> bool" where
  "replaces p n sl A \<longleftrightarrow> length (hArrays p) \<le> length A \<and> sArr sl < length A \<and> sLen sl \<le> length (A ! sArr sl) \<and>
     (case hServices p n of
        None \<Rightarrow> length (hArrays p) \<le> sArr sl
      | Some old \<Rightarrow> sArr sl = sArr old \<or> length (hArrays p) \<le> sArr sl) \<and>
     (\<forall>a < length (hArrays p). (\<forall>old. hServices p n = Some old \<longrightarrow> a \<noteq> sArr old) \<longrightarrow> A ! a = hArrays p ! a)"

lemma replaces_effect:
  assumes ok: "slices_ok p" and new: "replaces p n sl A" and q: "q = p\<lparr>hArrays := A, hServices := (hServices p)(n \<mapsto> sl)\<rparr>"
  shows "slices_ok q" "services (absProviders q) = (services (absProviders p))(n \<mapsto> readSlice A sl)"
proof -
  have other: "sArr sm < length (hArrays p) \<and> sArr sm \<noteq> sArr sl \<and> A ! sArr sm = hArrays p ! sArr sm"
    if "hServices p m = Some sm" "m \<noteq> n" for m sm
    using slices_okD(1) [OF ok that(1)] slices_okD(3) [OF ok _ that] new
    by (fastforce simp: replaces_def split: option.splits)
  have fits: "sArr sl < length A" "sLen sl \<le> length (A ! sArr sl)" "length (hArrays p) \<le> length A"
    using new by (simp_all add: replaces_def)
  show "slices_ok q" unfolding slices_ok_def q
  proof (intro conjI allI impI)
    fix k sk assume k: "hServices (p\<lparr>hArrays := A, hServices := (hServices p)(n \<mapsto> sl)\<rparr>) k = Some sk"
    then show "sArr sk < length (hArrays (p\<lparr>hArrays := A, hServices := (hServices p)(n \<mapsto> sl)\<rparr>))"
      "sLen sk \<le> length (hArrays (p\<lparr>hArrays := A, hServices := (hServices p)(n \<mapsto> sl)\<rparr>) ! sArr sk)"
      using fits other [of k sk] slices_okD(2) [OF ok, of k sk] by (auto split: if_splits)
    fix m sm assume m: "hServices (p\<lparr>hArrays := A, hServices := (hServices p)(n \<mapsto> sl)\<rparr>) m = Some sm" "sArr sk = sArr sm"
    have kv: "k \<noteq> n \<Longrightarrow> hServices p k = Some sk" "k = n \<Longrightarrow> sk = sl" using k by auto
    have mv: "m \<noteq> n \<Longrightarrow> hServices p m = Some sm" "m = n \<Longrightarrow> sm = sl" using m(1) by auto
    show "k = m"
    proof (cases "k = n \<or> m = n")
      case True
      then show ?thesis using other [OF kv(1)] other [OF mv(1)] kv(2) mv(2) m(2) by metis
    next
      case False
      then show ?thesis using slices_okD(3) [OF ok kv(1) mv(1)] m(2) by metis
    qed
  qed
  show "services (absProviders q) = (services (absProviders p))(n \<mapsto> readSlice A sl)"
  proof
    fix m show "services (absProviders q) m = ((services (absProviders p))(n \<mapsto> readSlice A sl)) m"
      using other [of m] by (cases "hServices p m") (auto simp: absProviders_def q readSlice_def)
  qed
qed

section \<open>The operations on the store\<close>

lemma readSlice_append:
  assumes "sArr sl < length A" "sLen sl \<le> length (A ! sArr sl)" "appendSlice grow x sl A = (A', sl')"
  shows "readSlice A' sl' = readSlice A sl @ [x]"
  using assms by (auto simp: appendSlice_def readSlice_def take_Suc_conv_app_nth split: if_splits)

lemma cut_list:
  assumes "i < n" "n \<le> length xs"
  shows "take (n - 1) (take i xs @ drop (Suc i) (take n xs) @ drop (n - 1) xs) = delAt i (take n xs)"
    and "length (take i xs @ drop (Suc i) (take n xs) @ drop (n - 1) xs) = length xs"
proof -
  have "take (n - 1) (take i xs @ drop (Suc i) (take n xs) @ drop (n - 1) xs) = take i xs @ drop (Suc i) (take n xs)"
    using assms by (subst append_assoc [symmetric], subst take_append) simp
  then show "take (n - 1) (take i xs @ drop (Suc i) (take n xs) @ drop (n - 1) xs) = delAt i (take n xs)"
    using assms by (simp add: delAt_def min_def)
  show "length (take i xs @ drop (Suc i) (take n xs) @ drop (n - 1) xs) = length xs" using assms by simp
qed

lemma readSlice_cut:
  assumes "sArr sl < length A" "sLen sl \<le> length (A ! sArr sl)" "i < sLen sl" "cutSlice i sl A = (A', sl')"
  shows "readSlice A' sl' = delAt i (readSlice A sl)" "length (A' ! sArr sl) = length (A ! sArr sl)"
  using assms cut_list [OF assms(3,2)] by (auto simp: cutSlice_def readSlice_def Let_def)

lemma indexOfID_Some: "indexOfID i rs = Some k \<Longrightarrow> k < length rs \<and> ServiceID (rs ! k) = i \<and> removeProvider i rs = delAt k rs"
  by (induction rs arbitrary: k) (auto simp: delAt_def split: if_splits)

lemma indexOfID_None: "indexOfID i rs = None \<Longrightarrow> removeProvider i rs = rs"
  by (induction rs) (auto split: if_splits)

lemma length_readSlice: "sLen sl \<le> length (A ! sArr sl) \<Longrightarrow> length (readSlice A sl) = sLen sl"
  by (simp add: readSlice_def)

lemma heapAdd_effect:
  assumes ok: "slices_ok p"
  shows "slices_ok (heapAdd grow reg p) \<and>
    services (absProviders (heapAdd grow reg p)) =
      (services (absProviders p))(ServiceName reg \<mapsto> cached (absProviders p) (ServiceName reg) @ [reg])"
proof (cases "hServices p (ServiceName reg)")
  case None
  let ?A1 = "hArrays p @ [[]]" and ?sl = "\<lparr>sArr = length (hArrays p), sLen = 0\<rparr>"
  obtain A2 sl' where app: "appendSlice grow reg ?sl ?A1 = (A2, sl')" by fastforce
  have "replaces p (ServiceName reg) sl' A2"
    using app None by (auto simp: appendSlice_def replaces_def nth_append readSlice_def)
  from replaces_effect [OF ok this refl] readSlice_append [OF _ _ app] app None show ?thesis
    by (simp add: heapAdd_def cached_def absProviders_def nth_append readSlice_def)
next
  case (Some sl)
  obtain A2 sl' where app: "appendSlice grow reg sl (hArrays p) = (A2, sl')" by fastforce
  note D = slices_okD(1,2) [OF ok Some]
  have "replaces p (ServiceName reg) sl' A2"
    using app Some D by (auto simp: appendSlice_def replaces_def nth_append readSlice_def split: if_splits)
  from replaces_effect [OF ok this refl] readSlice_append [OF D app] app Some show ?thesis
    by (simp add: heapAdd_def cached_def absProviders_def)
qed

lemma heapRemove_effect:
  assumes ok: "slices_ok p"
  shows "slices_ok (heapRemove reg p) \<and>
    absProviders (heapRemove reg p) = removeProviders [reg] (absProviders p)"
proof (cases "hServices p (ServiceName reg)")
  case None
  with ok show ?thesis by (simp add: heapRemove_def absProviders_def)
next
  case (Some sl)
  note D = slices_okD(1,2) [OF ok Some]
  show ?thesis
  proof (cases "indexOfID (ServiceID reg) (readSlice (hArrays p) sl)")
    case None
    then have same: "removeProvider (ServiceID reg) (readSlice (hArrays p) sl) = readSlice (hArrays p) sl" by (rule indexOfID_None)
    have "(\<lambda>n. map_option (readSlice (hArrays p)) (hServices p n))(ServiceName reg \<mapsto> readSlice (hArrays p) sl) =
        (\<lambda>n. map_option (readSlice (hArrays p)) (hServices p n))" using Some by auto
    with None Some ok same show ?thesis by (simp add: heapRemove_def absProviders_def)
  next
    case i: (Some i)
    obtain A1 sl' where cut: "cutSlice i sl (hArrays p) = (A1, sl')" by fastforce
    have lt: "i < sLen sl" using indexOfID_Some [OF i] length_readSlice [OF D(2)] by simp
    have "replaces p (ServiceName reg) sl' A1"
      using cut Some D readSlice_cut(2) [OF D lt cut] by (auto simp: cutSlice_def replaces_def Let_def)
    from replaces_effect [OF ok this refl] readSlice_cut(1) [OF D lt cut] indexOfID_Some [OF i] cut Some i
    show ?thesis by (simp add: heapRemove_def absProviders_def)
  qed
qed

lemma heapAdds_effect:
  "slices_ok p \<Longrightarrow> slices_ok (fold (heapAdd grow) regs p) \<and>
   absProviders (fold (heapAdd grow) regs p) = addProviders regs (absProviders p)"
proof (induction regs arbitrary: p)
  case (Cons r regs)
  have "absProviders (heapAdd grow r p) = (absProviders p)\<lparr>services := (services (absProviders p))
      (ServiceName r \<mapsto> cached (absProviders p) (ServiceName r) @ [r])\<rparr>"
    using heapAdd_effect [OF Cons.prems, of grow r] by (cases "absProviders (heapAdd grow r p)") simp
  then have "addProviders (r # regs) (absProviders p) = addProviders regs (absProviders (heapAdd grow r p))"
    by (simp add: cached_def Let_def split: option.split)
  with Cons heapAdd_effect [OF Cons.prems, of grow r] show ?case by simp
qed simp

lemma heapRemoves_effect:
  "slices_ok p \<Longrightarrow> slices_ok (fold heapRemove regs p) \<and>
   absProviders (fold heapRemove regs p) = removeProviders regs (absProviders p)"
proof (induction regs arbitrary: p)
  case (Cons r regs)
  then show ?case using heapRemove_effect [OF Cons.prems, of r] by simp
qed simp

section \<open>A slice that is still held\<close>

text \<open>The provider is in the part of the array the holder sees: the slice is still the service's
  own, or its array was left behind and no service writes to it any more.\<close>

definition holds :: "heap_providers \<Rightarrow> string \<Rightarrow> slice \<Rightarrow> Registration \<Rightarrow> bool" where
  "holds p n sl x \<longleftrightarrow> sArr sl < length (hArrays p) \<and>
     (\<exists>i < sLen sl. i < length (hArrays p ! sArr sl) \<and> hArrays p ! sArr sl ! i = x \<and>
       (\<forall>m cur. hServices p m = Some cur \<longrightarrow> sArr cur = sArr sl \<longrightarrow> m = n \<and> i < sLen cur))"

lemma holds_read: "holds p n sl x \<Longrightarrow> x \<in> set (readSlice (hArrays p) sl)"
  by (auto simp: holds_def readSlice_def in_set_conv_nth)

lemma holds_start:
  assumes "slices_ok p" "hServices p n = Some sl" "x \<in> set (readSlice (hArrays p) sl)"
  shows "holds p n sl x"
proof -
  obtain i where "i < sLen sl" "hArrays p ! sArr sl ! i = x"
    using assms(3) by (auto simp: readSlice_def in_set_conv_nth)
  moreover note D = slices_okD [OF assms(1,2)]
  moreover have "m = n \<and> cur = sl" if "hServices p m = Some cur" "sArr cur = sArr sl" for m cur
    using D(3) [OF that(1)] that assms(2) by (cases "m = n") auto
  ultimately show ?thesis unfolding holds_def by (metis order_less_le_trans)
qed

text \<open>An operation on another array leaves the held part alone.\<close>

lemma holds_untouched:
  assumes "holds p n sl x" "length (hArrays p) \<le> length A" "A ! sArr sl = hArrays p ! sArr sl"
    and "sArr new = sArr sl \<Longrightarrow> k = n \<and> (\<exists>cur. hServices p n = Some cur \<and> sArr cur = sArr sl \<and> sLen cur \<le> sLen new)"
  shows "holds (p\<lparr>hArrays := A, hServices := (hServices p)(k \<mapsto> new)\<rparr>) n sl x"
proof -
  obtain i where i: "sArr sl < length (hArrays p)" "i < sLen sl" "i < length (hArrays p ! sArr sl)" "hArrays p ! sArr sl ! i = x"
      "\<forall>m cur. hServices p m = Some cur \<longrightarrow> sArr cur = sArr sl \<longrightarrow> m = n \<and> i < sLen cur"
    using assms(1) unfolding holds_def by blast
  have "m = n \<and> i < sLen cur" if "((hServices p)(k \<mapsto> new)) m = Some cur" "sArr cur = sArr sl" for m cur
  proof (cases "m = k")
    case True
    note cur = that
    with True have "cur = new" by simp
    then obtain old where old: "k = n" "hServices p n = Some old" "sArr old = sArr sl" "sLen old \<le> sLen cur"
      using assms(4) cur(2) by blast
    have "i < sLen old" using i(5) old(2,3) by blast
    with old True show ?thesis by simp
  next
    case False
    then have "hServices p m = Some cur" using that(1) by simp
    then show ?thesis using i(5) that(2) by blast
  qed
  then show ?thesis
    unfolding holds_def using i(1-4) assms(2,3) by (intro conjI exI [of _ i]) simp_all
qed

text \<open>Appending and cutting keep what is not removed.\<close>

lemma heapAdd_holds:
  assumes ok: "slices_ok p" and h: "holds p n sl x"
  shows "holds (heapAdd grow reg p) n sl x"
proof (cases "hServices p (ServiceName reg)")
  case None
  let ?A1 = "hArrays p @ [[]]" and ?new = "\<lparr>sArr = length (hArrays p), sLen = 0\<rparr>"
  obtain A2 sl' where app: "appendSlice grow reg ?new ?A1 = (A2, sl')" by fastforce
  have "sArr sl < length (hArrays p)" using h by (simp add: holds_def)
  then have "holds (p\<lparr>hArrays := A2, hServices := (hServices p)(ServiceName reg \<mapsto> sl')\<rparr>) n sl x"
    using app by (intro holds_untouched [OF h]) (auto simp: appendSlice_def nth_append readSlice_def)
  with app None show ?thesis by (simp add: heapAdd_def)
next
  case (Some cur)
  note D = slices_okD(1,2) [OF ok Some]
  obtain A2 sl' where app: "appendSlice grow reg cur (hArrays p) = (A2, sl')" by fastforce
  have lt: "sArr sl < length (hArrays p)" using h by (simp add: holds_def)
  have "holds (p\<lparr>hArrays := A2, hServices := (hServices p)(ServiceName reg \<mapsto> sl')\<rparr>) n sl x"
  proof (cases "sLen cur < length (hArrays p ! sArr cur) \<and> sArr cur = sArr sl")
    case False
    with app Some lt show ?thesis
      by (intro holds_untouched [OF h]) (auto simp: appendSlice_def nth_append split: if_splits)
  next
    case True
    obtain i where i: "i < sLen sl" "i < length (hArrays p ! sArr sl)" "hArrays p ! sArr sl ! i = x"
        "\<forall>m c. hServices p m = Some c \<longrightarrow> sArr c = sArr sl \<longrightarrow> m = n \<and> i < sLen c"
      using h unfolding holds_def by blast
    then have own: "ServiceName reg = n" "i < sLen cur" using Some True by blast+
    have res: "A2 = (hArrays p)[sArr sl := (hArrays p ! sArr sl)[sLen cur := reg]]" "sl' = cur\<lparr>sLen := Suc (sLen cur)\<rparr>"
      using app True by (auto simp: appendSlice_def)
    have "m = n \<and> i < sLen c" if "((hServices p)(ServiceName reg \<mapsto> sl')) m = Some c" "sArr c = sArr sl" for m c
    proof (cases "m = n")
      case True
      with that(1) own res(2) show ?thesis by auto
    next
      case False
      then have "hServices p m = Some c" using that(1) own(1) by simp
      with i(4) that(2) show ?thesis by blast
    qed
    then show ?thesis
      unfolding holds_def using i(1-3) own(2) lt res(1) by (intro conjI exI [of _ i]) simp_all
  qed
  with app Some show ?thesis by (simp add: heapAdd_def)
qed

text \<open>Where an element that stays is after the cut.\<close>

lemma cut_stays:
  assumes "k < n" "i < n" "i \<noteq> k" "n \<le> length arr"
  obtains j where "j \<le> i" "j < n - 1" "(take k arr @ drop (Suc k) (take n arr) @ drop (n - 1) arr) ! j = arr ! i"
  using assms by (intro that [of "if i < k then i else i - 1"]) (auto simp: nth_append)

lemma heapRemove_holds:
  assumes ok: "slices_ok p" and h: "holds p n sl x" and other: "ServiceName reg \<noteq> n \<or> ServiceID reg \<noteq> ServiceID x"
  shows "holds (heapRemove reg p) n sl x"
proof (cases "\<exists>cur k. hServices p (ServiceName reg) = Some cur \<and> indexOfID (ServiceID reg) (readSlice (hArrays p) cur) = Some k")
  case False
  then have "heapRemove reg p = p" by (auto simp: heapRemove_def split: option.split)
  with h show ?thesis by simp
next
  case True
  then obtain cur k where cur: "hServices p (ServiceName reg) = Some cur"
    and k: "indexOfID (ServiceID reg) (readSlice (hArrays p) cur) = Some k" by blast
  note D = slices_okD(1,2) [OF ok cur]
  obtain A1 sl' where cut: "cutSlice k cur (hArrays p) = (A1, sl')" by fastforce
  have q: "heapRemove reg p = p\<lparr>hArrays := A1, hServices := (hServices p)(ServiceName reg \<mapsto> sl')\<rparr>"
    using cur k cut by (simp add: heapRemove_def)
  have lt: "sArr sl < length (hArrays p)" using h by (simp add: holds_def)
  show ?thesis
  proof (cases "sArr cur = sArr sl")
    case False
    with cut lt show ?thesis unfolding q
      by (intro holds_untouched [OF h]) (auto simp: cutSlice_def Let_def)
  next
    case same: True
    let ?arr = "hArrays p ! sArr sl"
    obtain i where i: "i < sLen sl" "i < length ?arr" "?arr ! i = x"
        "\<forall>m c. hServices p m = Some c \<longrightarrow> sArr c = sArr sl \<longrightarrow> m = n \<and> i < sLen c"
      using h unfolding holds_def by blast
    then have own: "ServiceName reg = n" "i < sLen cur" using cur same by blast+
    have kk: "k < sLen cur" "ServiceID (?arr ! k) = ServiceID reg"
      using indexOfID_Some [OF k] length_readSlice [OF D(2)] same by (auto simp: readSlice_def)
    with other own i(3) have "i \<noteq> k" by auto
    let ?new = "take k ?arr @ drop (Suc k) (take (sLen cur) ?arr) @ drop (sLen cur - 1) ?arr"
    obtain j where j: "j \<le> i" "j < sLen cur - 1" "?new ! j = x"
      using cut_stays [OF kk(1) own(2) \<open>i \<noteq> k\<close> D(2)] i(3) same by metis
    have res: "A1 = (hArrays p)[sArr sl := ?new]" "sl' = cur\<lparr>sLen := sLen cur - 1\<rparr>"
      using cut same by (auto simp: cutSlice_def Let_def)
    have len: "length ?new = length ?arr" using cut_list(2) [OF kk(1) D(2)] same by simp
    have "m = n \<and> j < sLen c" if "((hServices p)(ServiceName reg \<mapsto> sl')) m = Some c" "sArr c = sArr sl" for m c
    proof (cases "m = n")
      case True
      with that(1) own res(2) j(2) show ?thesis by auto
    next
      case False
      then have "hServices p m = Some c" using that(1) own(1) by simp
      with i(4) that(2) False show ?thesis by blast
    qed
    then show ?thesis
      unfolding holds_def q using lt res(1) i(1,2) j len by (intro conjI exI [of _ j]) simp_all
  qed
qed

lemma heapUpdate_holds:
  assumes "slices_ok p" "holds p n sl x" "\<forall>reg \<in> set (Removed pat). ServiceName reg \<noteq> n \<or> ServiceID reg \<noteq> ServiceID x"
  shows "holds (heapUpdate grow pat p) n sl x"
proof -
  have "slices_ok (fold (heapAdd grow) regs p) \<and> holds (fold (heapAdd grow) regs p) n sl x" for regs
    using assms(1,2) by (induction regs rule: rev_induct) (simp_all add: heapAdd_effect heapAdd_holds)
  moreover have "slices_ok q \<Longrightarrow> holds q n sl x \<Longrightarrow> \<forall>reg \<in> set regs. ServiceName reg \<noteq> n \<or> ServiceID reg \<noteq> ServiceID x \<Longrightarrow>
      slices_ok (fold heapRemove regs q) \<and> holds (fold heapRemove regs q) n sl x" for q regs
    by (induction regs rule: rev_induct) (auto simp: heapRemove_effect heapRemove_holds)
  ultimately show ?thesis using assms(3) unfolding heapUpdate_def by blast
qed

lemma heapUpdate_ok: "slices_ok p \<Longrightarrow> slices_ok (heapUpdate grow pat p) \<and> absProviders (heapUpdate grow pat p) = Update pat (absProviders p)"
  unfolding heapUpdate_def Update_def using heapAdds_effect heapRemoves_effect by metis

interpretation slices: provider_cache "heapUpdate grow" noHeapProviders slices_ok absProviders for grow
proof
  show "slices_ok noHeapProviders" "absProviders noHeapProviders = noProviders"
    by (simp_all add: slices_ok_def noHeapProviders_def absProviders_def noProviders_def)
qed (simp_all add: heapUpdate_ok)

section \<open>Properties\<close>

text \<open>
  C21: the cache with its shared arrays behaves as the cache with lists. From the empty cache and
  through any sequence of patches, whatever room the runtime leaves when an array grows, no two
  services come to share an array, every slice stays within its array, and reading the slices gives
  exactly the lists that \<open>Update\<close> on lists computes, each service's own.
\<close>

theorem slices_refine_lists:
  "slices_ok (fold (heapUpdate grow) pats noHeapProviders) \<and>
   absProviders (fold (heapUpdate grow) pats noHeapProviders) = fold Update pats noProviders"
  by (simp add: slices.built)

text \<open>
  C22: a slice that \<open>GetProviders\<close> returned stays usable without the lock: after any further patches
  it still holds every provider of that service that was in it and that no patch has removed, though
  patches have moved it in the array.
\<close>

theorem held_slice_keeps_providers:
  assumes "p = fold (heapUpdate grow) before noHeapProviders" "hServices p n = Some sl"
    and "x \<in> set (readSlice (hArrays p) sl)"
    and "\<forall>pat \<in> set after. \<forall>reg \<in> set (Removed pat). ServiceName reg \<noteq> n \<or> ServiceID reg \<noteq> ServiceID x"
  shows "x \<in> set (readSlice (hArrays (fold (heapUpdate grow) after p)) sl)"
proof -
  have ok: "slices_ok p" unfolding assms(1) by (rule slices.built)
  have "slices_ok (fold (heapUpdate grow) after p) \<and> holds (fold (heapUpdate grow) after p) n sl x"
    using assms(4)
  proof (induction after rule: rev_induct)
    case Nil
    with ok holds_start [OF ok assms(2,3)] show ?case by simp
  next
    case (snoc pat pats)
    then show ?case using heapUpdate_ok heapUpdate_holds by auto
  qed
  then show ?thesis by (blast intro: holds_read)
qed

section \<open>Concrete runs\<close>

definition added :: "Registration list \<Rightarrow> patch" where
  "added regs = \<lparr>Added = regs, Removed = []\<rparr>"

definition removed :: "Registration list \<Rightarrow> patch" where
  "removed regs = \<lparr>Added = [], Removed = regs\<rparr>"

definition threeNodes :: "Registration list" where
  "threeNodes = [nodeReg ''u1'' ''id1'', nodeReg ''u2'' ''id2'', nodeReg ''u3'' ''id3'']"

text \<open>The capacities 1, 2 and 4 of the Go runtime.\<close>

definition goGrow :: "nat \<Rightarrow> nat" where
  "goGrow n = n - 1"

definition threeCached :: heap_providers where
  "threeCached = fold (heapUpdate goGrow) [added threeNodes] noHeapProviders"

lemmas slice_eval = heapUpdate_def heapAdd_def heapRemove_def appendSlice_def cutSlice_def readSlice_def noHeapProviders_def
  goGrow_def added_def removed_def threeNodes_def nodeReg_def Let_def

lemma threeCached_slice:
  "hServices threeCached ''NodeService'' = Some \<lparr>sArr = 3, sLen = 3\<rparr>" "readSlice (hArrays threeCached) \<lparr>sArr = 3, sLen = 3\<rparr> = threeNodes"
  by (simp_all add: threeCached_def slice_eval eval_nat_numeral)

theorem held_slice_keeps_providers_witness:
  "nodeReg ''u3'' ''id3'' \<in> set (readSlice (hArrays (fold (heapUpdate goGrow)
     [removed [nodeReg ''u1'' ''id1''], added [nodeReg ''u4'' ''id4''], removed [nodeReg ''u2'' ''id2'']] threeCached)) \<lparr>sArr = 3, sLen = 3\<rparr>)"
  by (rule held_slice_keeps_providers [OF threeCached_def threeCached_slice(1)])
    (simp_all add: threeCached_slice(2) threeNodes_def removed_def added_def nodeReg_def)

text \<open>
  The slice is shared, not copied: a caller that holds the list of three nodes while the first is
  removed finds the last node twice in it, and after a later registration a node that it was never
  given.
\<close>

theorem held_slice_shifts:
  "readSlice (hArrays (heapUpdate goGrow (removed [nodeReg ''u1'' ''id1'']) threeCached)) \<lparr>sArr = 3, sLen = 3\<rparr> =
     [nodeReg ''u2'' ''id2'', nodeReg ''u3'' ''id3'', nodeReg ''u3'' ''id3''] \<and>
   readSlice (hArrays (fold (heapUpdate goGrow) [removed [nodeReg ''u1'' ''id1''], added [nodeReg ''u4'' ''id4'']] threeCached))
     \<lparr>sArr = 3, sLen = 3\<rparr> = [nodeReg ''u2'' ''id2'', nodeReg ''u3'' ''id3'', nodeReg ''u4'' ''id4'']"
  by (simp add: threeCached_def slice_eval eval_nat_numeral)

end
