(* ===== verification/Patch_Delivery.thy ===== *)
theory Patch_Delivery
  imports Node_Failure Provider_Slices "HOL-Library.Multiset"
begin

text \<open>
  Patches in any order. In src/registry/server.go, \<open>notify\<close> sends each patch from a goroutine of its
  own, so patches for one service can overtake each other; the receiver applies them one at a time
  under its lock (src/registry/client.go, \<open>Update\<close>). Cache_Coherence replays them in the order of the
  calls. Here a service receives them in another order: what the cache holds of one provider depends
  only on the patches that mention that provider's id, so it is enough that these keep their order.
  When they do not, the cache keeps a provider that is gone.
\<close>

section \<open>Definitions\<close>

definition mentions :: "string \<Rightarrow> string \<Rightarrow> patch \<Rightarrow> bool" where
  "mentions n i pat \<longleftrightarrow> (\<exists>r \<in> set (Added pat) \<union> set (Removed pat). ServiceName r = n \<and> ServiceID r = i)"

definition withID :: "string \<Rightarrow> Registration list \<Rightarrow> Registration list" where
  "withID i = filter (\<lambda>r. ServiceID r = i)"

section \<open>Lemmas\<close>

lemma withID_append [simp]: "withID i (xs @ ys) = withID i xs @ withID i ys"
  by (simp add: withID_def)

lemma withID_removeProvider:
  "withID i (removeProvider j rs) = (if i = j then removeProvider j (withID i rs) else withID i rs)"
  by (induction rs) (auto simp: withID_def)

lemma withID_removes:
  "withID i (foldl (\<lambda>rs j. removeProvider j rs) rs js) = foldl (\<lambda>rs j. removeProvider j rs) (withID i rs) (filter (\<lambda>j. j = i) js)"
  by (induction js arbitrary: rs) (auto simp: withID_removeProvider)

text \<open>What a patch does to the providers with one id is determined by the providers with that id.\<close>

lemma withID_Update:
  "withID i (cached (Update pat p) n) =
   foldl (\<lambda>rs j. removeProvider j rs) (withID i (cached p n) @ withID i (filter (\<lambda>r. ServiceName r = n) (Added pat)))
     (filter (\<lambda>j. j = i) (map ServiceID (filter (\<lambda>r. ServiceName r = n) (Removed pat))))"
  by (simp add: cached_Update withID_removes)

lemma withID_unmentioned: "\<not> mentions n i pat \<Longrightarrow> withID i (cached (Update pat p) n) = withID i (cached p n)"
  unfolding withID_Update by (auto simp: mentions_def withID_def filter_empty_conv)

lemma withID_deliver:
  "withID i (cached p n) = withID i (cached q n) \<Longrightarrow>
   withID i (cached (fold Update ps p) n) = withID i (cached (fold Update (filter (mentions n i) ps) q) n)"
proof (induction ps arbitrary: p q)
  case (Cons pat ps)
  show ?case
  proof (cases "mentions n i pat")
    case True
    have "withID i (cached (Update pat p) n) = withID i (cached (Update pat q) n)"
      unfolding withID_Update Cons.prems ..
    with Cons.IH True show ?thesis by simp
  next
    case False
    with Cons.IH [of "Update pat p" q] Cons.prems show ?thesis by (simp add: withID_unmentioned)
  qed
qed simp

lemma mset_by_ID:
  assumes "\<And>i. withID i xs = withID i ys"
  shows "mset xs = mset ys"
proof (rule multiset_eqI)
  fix x
  have "count (mset zs) x = count (mset (withID (ServiceID x) zs)) x" for zs
    by (induction zs) (auto simp: withID_def)
  with assms show "count (mset xs) x = count (mset ys) x" by metis
qed

lemma reordered_cache:
  assumes "\<And>i. filter (mentions n i) received = filter (mentions n i) sent"
  shows "mset (cached (fold Update received p) n) = mset (cached (fold Update sent p) n)"
  by (rule mset_by_ID) (metis assms withID_deliver)

text \<open>Any cache with the contract of Provider_Slices, fed with the patches of a registered service.\<close>

context provider_cache
begin

lemma delivered_cache:
  assumes "reg_reach regkey s" "freshID s uuid" "uuid \<noteq> []"
    and "rMethod r = POST" "rHeader r ''regkey'' = regkey" "rJson r = Some (encodeRegistration reg)"
    and "ServiceName reg \<noteq> []" "ServiceURL reg \<noteq> []"
    and "distinct (RequiredServices reg)" "ServiceName reg \<notin> set (RequiredServices reg)"
    and "\<forall>x \<in> set (allRegs s). ServiceURL x \<noteq> ServiceURL reg \<and> ServiceUpdateURL x \<noteq> ServiceUpdateURL reg"
    and "(table_step (reg\<lparr>ServiceID := uuid\<rparr>))\<^sup>*\<^sup>* (runState (registryServeHTTP (\<lambda>_. True) regkey uuid now r s w)) s'"
    and "n \<in> set (RequiredServices reg)"
    and "\<forall>i. filter (mentions n i) received =
      filter (mentions n i) (sentPatches (ServiceUpdateURL reg) (drop (length (outbox s)) (outbox s')))"
  shows "mset (cached (view (fold update received start)) n) = mset (regsOf s' n)"
proof -
  let ?sent = "sentPatches (ServiceUpdateURL reg) (drop (length (outbox s)) (outbox s'))"
  have "mset (cached (fold Update received noProviders) n) = mset (cached (fold Update ?sent noProviders) n)"
    using assms(14) by (intro reordered_cache) blast
  also have "cached (fold Update ?sent noProviders) n = regsOf s' n"
    using registered_coherent [OF assms(1-12)] assms(13) by (simp add: coherent_def viewFrom_fold)
  finally show ?thesis by (simp add: built)
qed

end

section \<open>Properties\<close>

text \<open>
  C19: a service registers and its patches all arrive, but in any order in which the patches that
  mention the same provider id stay in the order in which they were sent. When all have arrived the
  slices of the cache hold for every required service exactly the registrations of the registry, each
  as often as the registry has it; only their order may differ.
\<close>

theorem reordered_patches_converge:
  assumes "reg_reach regkey s" "freshID s uuid" "uuid \<noteq> []"
    and "rMethod r = POST" "rHeader r ''regkey'' = regkey" "rJson r = Some (encodeRegistration reg)"
    and "ServiceName reg \<noteq> []" "ServiceURL reg \<noteq> []"
    and "distinct (RequiredServices reg)" "ServiceName reg \<notin> set (RequiredServices reg)"
    and "\<forall>x \<in> set (allRegs s). ServiceURL x \<noteq> ServiceURL reg \<and> ServiceUpdateURL x \<noteq> ServiceUpdateURL reg"
    and "(table_step (reg\<lparr>ServiceID := uuid\<rparr>))\<^sup>*\<^sup>* (runState (registryServeHTTP (\<lambda>_. True) regkey uuid now r s w)) s'"
    and "n \<in> set (RequiredServices reg)"
    and "\<forall>i. filter (mentions n i) received =
      filter (mentions n i) (sentPatches (ServiceUpdateURL reg) (drop (length (outbox s)) (outbox s')))"
  shows "mset (cached (absProviders (fold (heapUpdate grow) received noHeapProviders)) n) = mset (regsOf s' n)"
  by (rule slices.delivered_cache [OF assms])

section \<open>Concrete runs\<close>

definition oneRemoved :: registry where
  "oneRemoved = fst (removeReg (\<lambda>_. True) ''NodeService'' ''u1'' withWeb)"

definition bothRemoved :: registry where
  "bothRemoved = fst (removeReg (\<lambda>_. True) ''NodeService'' ''u2'' oneRemoved)"

definition joined :: registry where
  "joined = runState (addReg (\<lambda>_. True) (nodeReg ''u4'' ''id4'') withWeb)"

definition left :: registry where
  "left = fst (removeReg (\<lambda>_. True) ''NodeService'' ''u4'' joined)"

lemma withWeb_outbox:
  "outbox withWeb = [(''w/services'', \<lparr>Added = [nodeReg ''u1'' ''id1'', nodeReg ''u2'' ''id2''], Removed = []\<rparr>),
     (''u1/services'', \<lparr>Added = [webReg\<lparr>ServiceID := ''id3''\<rparr>], Removed = []\<rparr>),
     (''u2/services'', \<lparr>Added = [webReg\<lparr>ServiceID := ''id3''\<rparr>], Removed = []\<rparr>)]"
  by (simp add: withWeb_def registry_eval twoNodes_eq webReg_def nodeReg_def sendPatch_def)

lemmas table_eval = removeReg_def regsOf_def notify_def allRegs_def setRegs_def nodeReg_def webReg_def sendPatch_def delAt_def
  sendRequiredServices_def addReg_def dropDuplicates.simps Let_def

text \<open>The two removals arrive in the opposite order.\<close>

theorem reordered_patches_converge_witness:
  "mset (cached (absProviders (fold (heapUpdate goGrow) [\<lparr>Added = [nodeReg ''u1'' ''id1'', nodeReg ''u2'' ''id2''], Removed = []\<rparr>,
     \<lparr>Added = [], Removed = [nodeReg ''u2'' ''id2'']\<rparr>, \<lparr>Added = [], Removed = [nodeReg ''u1'' ''id1'']\<rparr>] noHeapProviders)) ''NodeService'') =
   mset (regsOf bothRemoved ''NodeService'')"
proof -
  let ?sub = "webReg\<lparr>ServiceID := ''id3''\<rparr>" 
  have one: "registrationsMap oneRemoved = [(''NodeService'', [nodeReg ''u2'' ''id2'']), (''WebService'', [?sub])]"
      "outbox oneRemoved = outbox withWeb @ [(''w/services'', \<lparr>Added = [], Removed = [nodeReg ''u1'' ''id1'']\<rparr>)]"
    by (simp_all add: oneRemoved_def table_eval withWeb_eq)
  have two: "registrationsMap bothRemoved = [(''NodeService'', []), (''WebService'', [?sub])]"
      "outbox bothRemoved = outbox oneRemoved @ [(''w/services'', \<lparr>Added = [], Removed = [nodeReg ''u2'' ''id2'']\<rparr>)]"
    by (simp_all add: bothRemoved_def removeReg_def regsOf_def one) (simp_all add: table_eval one)
  have "table_step ?sub withWeb oneRemoved" "table_step ?sub oneRemoved bothRemoved"
    by (rule table_step.remove [OF oneRemoved_def], simp add: allRegs_def one)
      (rule table_step.remove [OF bothRemoved_def], simp add: allRegs_def two)
  then have steps: "(table_step ?sub)\<^sup>*\<^sup>*
      (runState (registryServeHTTP (\<lambda>_. True) ''k'' ''id3'' 9 (postRequest ''k'' webReg) twoNodes newWriter)) bothRemoved"
    unfolding withWeb_def [symmetric] by simp
  have box: "sentPatches (ServiceUpdateURL webReg) (drop (length (outbox twoNodes)) (outbox bothRemoved)) =
      [\<lparr>Added = [nodeReg ''u1'' ''id1'', nodeReg ''u2'' ''id2''], Removed = []\<rparr>,
       \<lparr>Added = [], Removed = [nodeReg ''u1'' ''id1'']\<rparr>, \<lparr>Added = [], Removed = [nodeReg ''u2'' ''id2'']\<rparr>]"
    by (simp add: two one withWeb_outbox sentPatches_def twoNodes_eq webReg_def)
  have fifo: "\<forall>i. filter (mentions ''NodeService'' i) [\<lparr>Added = [nodeReg ''u1'' ''id1'', nodeReg ''u2'' ''id2''], Removed = []\<rparr>,
     \<lparr>Added = [], Removed = [nodeReg ''u2'' ''id2'']\<rparr>, \<lparr>Added = [], Removed = [nodeReg ''u1'' ''id1'']\<rparr>] =
     filter (mentions ''NodeService'' i) (sentPatches (ServiceUpdateURL webReg) (drop (length (outbox twoNodes)) (outbox bothRemoved)))"
    by (simp add: box mentions_def nodeReg_def)
  show ?thesis
    by (rule reordered_patches_converge [OF twoNodes_reach _ _ _ _ _ _ _ _ _ _ steps _ fifo])
      (auto simp: postRequest_def webReg_def freshID_def allRegs_def twoNodes_eq nodeReg_def)
qed

text \<open>
  A node registers and deregisters, and the patch that removes it overtakes the one that adds it:
  the registry no longer has the node, the web server's cache keeps it.
\<close>

theorem overtaking_patch_leaves_stale_provider:
  "sentPatches ''w/services'' (drop (length (outbox withWeb)) (outbox left)) =
     [\<lparr>Added = [nodeReg ''u4'' ''id4''], Removed = []\<rparr>, \<lparr>Added = [], Removed = [nodeReg ''u4'' ''id4'']\<rparr>] \<and>
   nodeReg ''u4'' ''id4'' \<notin> set (regsOf left ''NodeService'') \<and>
   nodeReg ''u4'' ''id4'' \<in> set (cached (fold Update [\<lparr>Added = [], Removed = [nodeReg ''u4'' ''id4'']\<rparr>,
     \<lparr>Added = [nodeReg ''u4'' ''id4''], Removed = []\<rparr>] (viewFrom ''w/services'' (outbox withWeb) noProviders)) ''NodeService'')"
proof -
  let ?sub = "webReg\<lparr>ServiceID := ''id3''\<rparr>"
  have j: "registrationsMap joined = [(''NodeService'', [nodeReg ''u1'' ''id1'', nodeReg ''u2'' ''id2'', nodeReg ''u4'' ''id4'']), (''WebService'', [?sub])]"
      "outbox joined = outbox withWeb @ [(''u4/services'', \<lparr>Added = [?sub], Removed = []\<rparr>), (''w/services'', \<lparr>Added = [nodeReg ''u4'' ''id4''], Removed = []\<rparr>)]"
    by (simp_all add: joined_def table_eval withWeb_eq)
  have l: "registrationsMap left = [(''NodeService'', [nodeReg ''u1'' ''id1'', nodeReg ''u2'' ''id2'']), (''WebService'', [?sub])]"
      "outbox left = outbox joined @ [(''w/services'', \<lparr>Added = [], Removed = [nodeReg ''u4'' ''id4'']\<rparr>)]"
    by (simp_all add: left_def j removeReg_def regsOf_def) (simp_all add: table_eval j)
  show ?thesis
    by (simp add: l j sentPatches_def regsOf_def cached_Update) (simp add: nodeReg_def)
qed

end
