(* ===== verification/Recovery.thy ===== *)
theory Recovery
  imports Cache_Coherence
begin

text \<open>
  The way back of a service that the registry has forgotten: the heartbeat loop of
  src/registry/client.go, the heartbeat server and the registry together, up to the provider cache,
  which the loop empties and which the patches of the new registration fill again.
\<close>

section \<open>Lemmas\<close>

text \<open>The registry's messages are only ever appended to.\<close>

lemma notify_outbox: "\<exists>ms. outbox (notify d p s) = outbox s @ ms"
  using notifyAll_frame [of d p "allRegs s" s] by (auto simp: notify_def)

lemma dropDuplicates_outbox: "\<exists>ms. outbox (runState (dropDuplicates d reg i n s)) = outbox s @ ms"
proof (induction d reg i n s rule: dropDuplicates.induct)
  case (1 d reg i n s)
  let ?regs = "regsOf s (ServiceName reg)"
  obtain ms where ms: "outbox (notify d \<lparr>Added = [], Removed = [?regs ! i]\<rparr> s) = outbox s @ ms" using notify_outbox by blast
  show ?case using 1 ms by (auto simp: dropDuplicates.simps [of d reg i] Let_def) blast
qed

lemma addReg_outbox: "\<exists>ms. outbox (runState (addReg d reg s)) = outbox s @ ms"
proof -
  obtain ms where ms: "outbox (runState (dropDuplicates d reg 0 (length (regsOf s (ServiceName reg))) s)) = outbox s @ ms"
    using dropDuplicates_outbox by blast
  show ?thesis
  proof (cases "dropDuplicates d reg 0 (length (regsOf s (ServiceName reg))) s")
    case (Ret s1 u)
    define s3 where "s3 = fst (sendRequiredServices d reg (setRegs (ServiceName reg) (regsOf s1 (ServiceName reg) @ [reg]) s1))"
    have "\<exists>ms. outbox s3 = outbox s1 @ ms" by (auto simp: s3_def sendRequiredServices_def sendPatch_def Let_def)
    moreover have "outbox (runState (addReg d reg s)) = outbox (notify d \<lparr>Added = [reg], Removed = []\<rparr> s3)"
      by (simp add: addReg_def Ret s3_def Let_def case_prod_beta)
    ultimately show ?thesis using ms notify_outbox [of d "\<lparr>Added = [reg], Removed = []\<rparr>" s3] Ret by auto
  qed (use ms in \<open>simp add: addReg_def\<close>)
qed

lemma table_steps_outbox: "(table_step sub)\<^sup>*\<^sup>* s s' \<Longrightarrow> \<exists>ms. outbox s' = outbox s @ ms"
proof (induction rule: rtranclp_induct)
  case (step t t')
  from step(2) have "\<exists>ms. outbox t' = outbox t @ ms"
  proof cases
    case (remove n url)
    then show ?thesis
      using notify_outbox by (auto simp: removeReg_def Let_def split: option.split)
  qed (use addReg_outbox in auto)
  with step.IH show ?case by auto
qed simp

section \<open>Property\<close>

text \<open>
  C20: a service whose heartbeat is refused because the registry no longer has it empties its cache and
  registers again, with any number of failed dials before; its next heartbeat is accepted. From then
  on, whatever else registers or leaves, the cache that its patches build holds for every required
  service exactly the registry's list: nothing is left of the time before. It makes no difference how
  many of the patches of the new registration arrive before the answer to it does.
\<close>

theorem recovery_restores_cache:
  assumes "reg_reach regkey s" "freshID s uuid" "uuid \<noteq> []"
    and "fst (urlTarget (hbURL (clHeartbeat c) @ ''basic'')) = ''/heartbeat/basic''"
    and "hbServiceID (clHeartbeat c) \<noteq> []" "\<not> IsServiceRegistered s (hbServiceID (clHeartbeat c))"
    and "rMethod r = POST" "rHeader r ''regkey'' = regkey" "rJson r = Some (encodeRegistration (clReg c))"
    and "ServiceName (clReg c) \<noteq> []" "ServiceURL (clReg c) \<noteq> []"
    and "distinct (RequiredServices (clReg c))" "ServiceName (clReg c) \<notin> set (RequiredServices (clReg c))"
    and "\<forall>x \<in> set (allRegs s). ServiceURL x \<noteq> ServiceURL (clReg c) \<and> ServiceUpdateURL x \<noteq> ServiceUpdateURL (clReg c)"
  shows "\<exists>w0 s1 w'.
    heartbeatServeHTTP (Some (IsServiceRegistered s)) now (heartbeatRequest (clHeartbeat c)) (heartbeatServer s) newWriter =
      (heartbeatServer s, w0) \<and>
    registryServeHTTP (\<lambda>_. True) regkey uuid now r s newWriter = Ret s1 w' \<and>
    (\<forall>j. length (outbox s) + j \<le> length (outbox s1) \<longrightarrow>
      (\<exists>c' h. heartbeatRound (Some (finalStatus w0))
          (sentPatches (ServiceUpdateURL (clReg c)) (take j (drop (length (outbox s)) (outbox s1))))
          (replicate k Unreachable @ [Answer (finalStatus w') (Some uuid)]) c = Some c' \<and>
        heartbeatServeHTTP (Some (IsServiceRegistered s1)) now' (heartbeatRequest (clHeartbeat c')) (heartbeatServer s1) newWriter =
          (h, writeHeader StatusOK newWriter) \<and>
        (\<forall>s' n. (table_step (clReg c'))\<^sup>*\<^sup>* s1 s' \<longrightarrow> n \<in> set (RequiredServices (clReg c)) \<longrightarrow>
           cached (viewFrom (ServiceUpdateURL (clReg c)) (drop (length (outbox s) + j) (outbox s')) (clProv c')) n = regsOf s' n)))"
proof -
  let ?u = "ServiceUpdateURL (clReg c)" and ?k = "length (outbox s)"
  have url: "ServiceURL (clReg c) \<notin> ServiceURL ` set (regsOf s (ServiceName (clReg c)))"
    using assms(14) set_allRegs [OF reg_invD(1) [OF reg_reach_inv [OF assms(1)]]] by fastforce
  note again = unknown_service_recovers [OF assms(1-3) _ assms(4-11) url, of "\<lambda>_. True" now _ k now', OF TrueI [THEN allI]]
  obtain w0 s1 w' where first:
      "heartbeatServeHTTP (Some (IsServiceRegistered s)) now (heartbeatRequest (clHeartbeat c)) (heartbeatServer s) newWriter =
        (heartbeatServer s, w0)"
      "registryServeHTTP (\<lambda>_. True) regkey uuid now r s newWriter = Ret s1 w'"
    using again [of "[]"] by blast
  have "\<exists>c' h. heartbeatRound (Some (finalStatus w0)) (sentPatches ?u (take j (drop ?k (outbox s1))))
          (replicate k Unreachable @ [Answer (finalStatus w') (Some uuid)]) c = Some c' \<and>
        heartbeatServeHTTP (Some (IsServiceRegistered s1)) now' (heartbeatRequest (clHeartbeat c')) (heartbeatServer s1) newWriter =
          (h, writeHeader StatusOK newWriter) \<and>
        (\<forall>s' n. (table_step (clReg c'))\<^sup>*\<^sup>* s1 s' \<longrightarrow> n \<in> set (RequiredServices (clReg c)) \<longrightarrow>
           cached (viewFrom ?u (drop (?k + j) (outbox s')) (clProv c')) n = regsOf s' n)"
    if j: "?k + j \<le> length (outbox s1)" for j
  proof -
    let ?early = "take j (drop ?k (outbox s1))"
    obtain c' h where c': "heartbeatRound (Some (finalStatus w0)) (sentPatches ?u ?early)
          (replicate k Unreachable @ [Answer (finalStatus w') (Some uuid)]) c = Some c'"
        "clProv c' = fold Update (sentPatches ?u ?early) noProviders" "clReg c' = (clReg c)\<lparr>ServiceID := uuid\<rparr>"
        "heartbeatServeHTTP (Some (IsServiceRegistered s1)) now' (heartbeatRequest (clHeartbeat c')) (heartbeatServer s1) newWriter =
          (h, writeHeader StatusOK newWriter)"
      using again [of "sentPatches ?u ?early"] first by auto
    have "cached (viewFrom ?u (drop (?k + j) (outbox s')) (clProv c')) n = regsOf s' n"
      if steps: "(table_step (clReg c'))\<^sup>*\<^sup>* s1 s'" and n: "n \<in> set (RequiredServices (clReg c))" for s' n
    proof -
      obtain ms where ms: "outbox s' = outbox s1 @ ms" using table_steps_outbox [OF steps] by blast
      have "drop ?k (outbox s') = ?early @ drop (?k + j) (outbox s')"
        using j by (simp add: ms) (metis append.assoc append_take_drop_id drop_drop add.commute)
      then have "viewFrom ?u (drop ?k (outbox s')) noProviders = viewFrom ?u (drop (?k + j) (outbox s')) (clProv c')"
        by (simp add: c'(2) viewFrom_append viewFrom_fold [symmetric])
      moreover have "cached (viewFrom ?u (drop ?k (outbox s')) noProviders) n = regsOf s' n"
        using registered_coherent [OF assms(1-3,7-14), of now newWriter s'] first(2) c'(3) steps n by (simp add: coherent_def)
      ultimately show ?thesis by simp
    qed
    with c' show ?thesis by blast
  qed
  with first show ?thesis by blast
qed

section \<open>Concrete run\<close>

text \<open>The web server, forgotten by the registry, with a stale node in its cache.\<close>

definition forgotten :: client_state where
  "forgotten = \<lparr>clReg = webReg\<lparr>ServiceID := ''old''\<rparr>, clHeartbeat = \<lparr>hbServiceID = ''old'', hbURL = ''http://r/heartbeat/''\<rparr>,
     clProv = Update \<lparr>Added = [nodeReg ''u9'' ''id9''], Removed = []\<rparr> noProviders\<rparr>"

theorem recovery_restores_cache_witness:
  "\<exists>s1 w' c'. registryServeHTTP (\<lambda>_. True) ''k'' ''id3'' 9 (postRequest ''k'' (clReg forgotten)) twoNodes newWriter = Ret s1 w' \<and>
     heartbeatRound (Some StatusUnauthorized) [] [Unreachable, Answer (finalStatus w') (Some ''id3'')] forgotten = Some c' \<and>
     cached (viewFrom ''w/services'' (outbox s1) (clProv c')) ''NodeService'' = regsOf s1 ''NodeService''"
proof -
  have target: "fst (urlTarget (hbURL (clHeartbeat forgotten) @ ''basic'')) = ''/heartbeat/basic''"
    by (simp add: forgotten_def urlTarget_def cut_def)
  have id: "freshID twoNodes ''id3''" "hbServiceID (clHeartbeat forgotten) \<noteq> []" "\<not> IsServiceRegistered twoNodes (hbServiceID (clHeartbeat forgotten))"
    by (simp_all add: forgotten_def freshID_def allRegs_def twoNodes_eq nodeReg_def registered.isRegistered_iff)
  have post: "rMethod (postRequest ''k'' x) = POST" "rHeader (postRequest ''k'' x) ''regkey'' = ''k''"
      "rJson (postRequest ''k'' x) = Some (encodeRegistration x)" for x
    by (simp_all add: postRequest_def)
  have reg: "ServiceName (clReg forgotten) \<noteq> []" "ServiceURL (clReg forgotten) \<noteq> []" "distinct (RequiredServices (clReg forgotten))"
      "ServiceName (clReg forgotten) \<notin> set (RequiredServices (clReg forgotten))"
      "\<forall>x \<in> set (allRegs twoNodes). ServiceURL x \<noteq> ServiceURL (clReg forgotten) \<and> ServiceUpdateURL x \<noteq> ServiceUpdateURL (clReg forgotten)"
    by (simp_all add: forgotten_def webReg_def allRegs_def twoNodes_eq nodeReg_def)
  have refused: "heartbeatServeHTTP (Some (IsServiceRegistered twoNodes)) 9 (heartbeatRequest (clHeartbeat forgotten)) (heartbeatServer twoNodes) newWriter =
      (heartbeatServer twoNodes, httpError ''Service not authorized'' StatusUnauthorized newWriter)"
    using id target by (simp add: heartbeatServeHTTP_def heartbeatRequest_def HandleCommonLogic_def twoNodes_eq NewHeartBeatServer_def)
  have vals: "outbox twoNodes = []" "ServiceUpdateURL (clReg forgotten) = ''w/services''" "''NodeService'' \<in> set (RequiredServices (clReg forgotten))"
    by (simp_all add: twoNodes_eq forgotten_def webReg_def)
  obtain s1 w' where again: "registryServeHTTP (\<lambda>_. True) ''k'' ''id3'' 9 (postRequest ''k'' (clReg forgotten)) twoNodes newWriter = Ret s1 w'"
      "\<forall>j. length (outbox twoNodes) + j \<le> length (outbox s1) \<longrightarrow>
        (\<exists>c'. heartbeatRound (Some (finalStatus (httpError ''Service not authorized'' StatusUnauthorized newWriter :: string writer)))
            (sentPatches (ServiceUpdateURL (clReg forgotten)) (take j (drop (length (outbox twoNodes)) (outbox s1))))
            (replicate 1 Unreachable @ [Answer (finalStatus w') (Some ''id3'')]) forgotten = Some c' \<and>
          cached (viewFrom (ServiceUpdateURL (clReg forgotten)) (drop (length (outbox twoNodes) + j) (outbox s1)) (clProv c')) ''NodeService'' =
            regsOf s1 ''NodeService'')"
    using recovery_restores_cache [OF twoNodes_reach id(1) _ target id(2,3) post reg, where now = 9 and k = 1 and now' = 12] vals(3)
    by (clarsimp simp: refused) (meson rtranclp.rtrancl_refl)
  from again(2) [rule_format, of 0] again(1) show ?thesis by (auto simp: vals http_simps sentPatches_def)
qed

end
