(* ===== verification/Node_Concurrency.thy ===== *)
theory Node_Concurrency
  imports Node_Service
begin

text \<open>
  Overlapping connect requests on a node (src/node/server.go). \<open>net/http\<close> runs every request in a
  goroutine of its own, and \<open>handleConnect\<close> takes \<open>connectionsLock\<close> only for its last assignments. Here
  the handler is split where another request can come between: after the check of \<open>connections\<close>,
  after the calls to xray, after the port was probed and its listener closed again, and the final
  entry in the tables. A goroutine in flight is a value of \<open>connect_thread\<close>. Run without interruption
  the phases are \<open>handleConnect\<close> of Node_Service. The goroutines of the proxies take their own steps.
\<close>

section \<open>Model\<close>

datatype connect_thread = Admitted request | XrayDone request | Probed request int

definition threadRequest :: "connect_thread \<Rightarrow> request" where
  "threadRequest t = (case t of Admitted r \<Rightarrow> r | XrayDone r \<Rightarrow> r | Probed r _ \<Rightarrow> r)"

definition threadUser :: "connect_thread \<Rightarrow> string" where
  "threadUser t = rQuery (threadRequest t) ''uuid''"

text \<open>The handler up to the successful \<open>xrayCtl.Init\<close>.\<close>

definition admitted :: "'x connect_env \<Rightarrow> request \<Rightarrow> 'x node_state \<Rightarrow> bool" where
  "admitted e r s \<longleftrightarrow>
     (case ceProviders e of
        None \<Rightarrow> False
      | Some providers \<Rightarrow>
          (case splitHostPort (rRemoteAddr r) of
             None \<Rightarrow> False
           | Some (srcIP, p) \<Rightarrow> \<exists>prov \<in> set providers. PublicIP prov = srcIP)) \<and>
     rQuery r ''uuid'' \<noteq> [] \<and> rQuery r ''email'' \<noteq> [] \<and> rQuery r ''clientip'' \<noteq> [] \<and>
     connections s (rQuery r ''uuid'') = None \<and> xrayInit (ceDial e) cfg"

definition addXrayUser :: "'x connect_env \<Rightarrow> request \<Rightarrow> 'x \<Rightarrow> 'x \<times> bool" where
  "addXrayUser e r x =
     (let userInfo = \<lparr>uiUuid = rQuery r ''uuid'', Level = 0, InTag = ''test'', uiEmail = rQuery r ''email'',
                      CipherType = [], Password = []\<rparr>;
          (x1, ok1) = addVlessUser (ceAlter e) userInfo x
      in if ok1 then (x1, True)
         else addVlessUser (ceAlter e) userInfo (fst (removeVlessUser (ceAlter e) userInfo x1)))"

text \<open>\<open>go NewProxy\<close> and the assignments under the lock.\<close>

definition commitProxy :: "request \<Rightarrow> int \<Rightarrow> 'x node_state \<Rightarrow> 'x node_state" where
  "commitProxy r port s =
     s\<lparr>proxies := proxies s @ [\<lparr>pxPort = port, pxSourceIP = rQuery r ''clientip'',
          pxRate = parseLimit (rQuery r ''rate'') (Rate defaultlimit),
          pxBurst = parseLimit (rQuery r ''burst'') (Burst defaultlimit), pxCancelled = False, pxPhase = Starting\<rparr>],
       connections := (connections s)(rQuery r ''uuid'' \<mapsto> port),
       proxyServices := (proxyServices s)(rQuery r ''uuid'' \<mapsto> length (proxies s))\<rparr>"

text \<open>With \<open>serial\<close>, the web server does not start a connect for a user while one is under way. The
  port probe finds some port that it can listen on. The variable \<open>xrayCtl\<close> is shared by all requests: in
  \<open>xray_lost\<close> another request has replaced it by one that is not connected yet, the call on its nil client
  panics and the request ends after some of its calls. \<open>listen\<close> and \<open>accept\<close> are as in \<open>node_step\<close>.\<close>

inductive conc_step ::
  "bool \<Rightarrow> 'x node_state \<times> connect_thread list \<Rightarrow> 'x node_state \<times> connect_thread list \<Rightarrow> bool" for serial where
  admit: "admitted e r s \<Longrightarrow> (serial \<longrightarrow> rQuery r ''uuid'' \<notin> threadUser ` set ts) \<Longrightarrow>
    conc_step serial (s, ts) (s, ts @ [Admitted r])"
| xray_added: "i < length ts \<Longrightarrow> ts ! i = Admitted r \<Longrightarrow> addXrayUser e r (xray s) = (x, True) \<Longrightarrow>
    conc_step serial (s, ts) (s\<lparr>xray := x\<rparr>, ts[i := XrayDone r])"
| xray_failed: "i < length ts \<Longrightarrow> ts ! i = Admitted r \<Longrightarrow> addXrayUser e r (xray s) = (x, False) \<Longrightarrow>
    conc_step serial (s, ts) (s\<lparr>xray := x\<rparr>, delAt i ts)"
| xray_lost: "i < length ts \<Longrightarrow> ts ! i = Admitted r \<Longrightarrow> conc_step serial (s, ts) (s\<lparr>xray := x\<rparr>, delAt i ts)"
| probe: "i < length ts \<Longrightarrow> ts ! i = XrayDone r \<Longrightarrow>
    pickPort free draws = Some port \<Longrightarrow> conc_step serial (s, ts) (s, ts[i := Probed r port])"
| commit: "i < length ts \<Longrightarrow> ts ! i = Probed r port \<Longrightarrow> conc_step serial (s, ts) (commitProxy r port s, delAt i ts)"
| disconnect: "conc_step serial (s, ts) (disconnectLoop us s, ts)"
| listen: "i < length (proxies s) \<Longrightarrow> pxPhase (proxies s ! i) = Starting \<Longrightarrow>
    (listening \<longrightarrow> \<not> portTaken s (pxPort (proxies s ! i))) \<Longrightarrow> conc_step serial (s, ts) (startProxy i listening s, ts)"
| accept: "i < length (proxies s) \<Longrightarrow> pxPhase (proxies s ! i) = Serving \<Longrightarrow>
    (\<forall>d. AcceptError d \<in> set evs \<longrightarrow> d = pxCancelled (proxies s ! i)) \<Longrightarrow> conc_step serial (s, ts) (serveProxy i evs s, ts)"
| count: "conc_step serial (s, ts) (s\<lparr>nStats := countBytes a up n (nStats s)\<rparr>, ts)"
| report: "conc_step serial (s, ts) (fst (trafficRound providers ginPort turns s), ts)"

inductive conc_reach :: "bool \<Rightarrow> 'x node_state \<times> connect_thread list \<Rightarrow> bool" for serial where
  init: "conc_reach serial (initNode x, [])"
| step: "conc_reach serial c \<Longrightarrow> conc_step serial c c' \<Longrightarrow> conc_reach serial c'"

section \<open>Invariant\<close>

text \<open>The two tables agree and lead to proxies that were not cancelled, one for each user, and listeners are
  apart.\<close>

definition tables_ok :: "'x node_state \<Rightarrow> bool" where
  "tables_ok s \<longleftrightarrow> dom (connections s) = dom (proxyServices s) \<and>
     (\<forall>u i. proxyServices s u = Some i \<longrightarrow> i < length (proxies s) \<and> \<not> pxCancelled (proxies s ! i) \<and>
        connections s u = Some (pxPort (proxies s ! i))) \<and>
     (\<forall>u v i. proxyServices s u = Some i \<longrightarrow> proxyServices s v = Some i \<longrightarrow> u = v) \<and> listenersApart (proxies s)"

text \<open>Every proxy that was not cancelled has a user.\<close>

definition owned :: "'x node_state \<Rightarrow> bool" where
  "owned s \<longleftrightarrow> (\<forall>i < length (proxies s). \<not> pxCancelled (proxies s ! i) \<longrightarrow> (\<exists>u. proxyServices s u = Some i))"

text \<open>With serial requests, a user with a request in flight is not connected and has only one.\<close>

definition threads_ok :: "'x node_state \<Rightarrow> connect_thread list \<Rightarrow> bool" where
  "threads_ok s ts \<longleftrightarrow> distinct (map threadUser ts) \<and> (\<forall>t \<in> set ts. connections s (threadUser t) = None)"

definition conc_inv :: "bool \<Rightarrow> 'x node_state \<times> connect_thread list \<Rightarrow> bool" where
  "conc_inv serial c \<longleftrightarrow> tables_ok (fst c) \<and> (serial \<longrightarrow> owned (fst c) \<and> threads_ok (fst c) (snd c))"

section \<open>Lemmas\<close>

lemma tables_okD:
  assumes "tables_ok s"
  shows "dom (connections s) = dom (proxyServices s)"
    "proxyServices s u = Some i \<Longrightarrow> i < length (proxies s)"
    "proxyServices s u = Some i \<Longrightarrow> \<not> pxCancelled (proxies s ! i)"
    "proxyServices s u = Some i \<Longrightarrow> connections s u = Some (pxPort (proxies s ! i))"
    "proxyServices s u = Some i \<Longrightarrow> proxyServices s v = Some i \<Longrightarrow> u = v"
    "listenersApart (proxies s)"
  using assms unfolding tables_ok_def by blast+

lemma commit_tables:
  assumes "tables_ok s"
  shows "tables_ok (commitProxy r port s)"
proof -
  note D = tables_okD [OF assms]
  have fresh: "proxyServices s u \<noteq> Some (length (proxies s))" for u using D(2) by blast
  show ?thesis unfolding tables_ok_def
  proof (intro conjI)
    show "dom (connections (commitProxy r port s)) = dom (proxyServices (commitProxy r port s))"
      using D(1) by (simp add: commitProxy_def)
    show "\<forall>u i. proxyServices (commitProxy r port s) u = Some i \<longrightarrow> i < length (proxies (commitProxy r port s)) \<and>
        \<not> pxCancelled (proxies (commitProxy r port s) ! i) \<and>
        connections (commitProxy r port s) u = Some (pxPort (proxies (commitProxy r port s) ! i))"
      using D(2-4) by (auto simp: commitProxy_def nth_append less_Suc_eq)
    show "\<forall>u v i. proxyServices (commitProxy r port s) u = Some i \<longrightarrow> proxyServices (commitProxy r port s) v = Some i \<longrightarrow> u = v"
      using D(5) fresh by (auto simp: commitProxy_def)
    show "listenersApart (proxies (commitProxy r port s))"
      using apart_append [OF D(6)] by (simp add: commitProxy_def listenerOpen_def)
  qed
qed

lemma commit_owned:
  assumes "owned s" "proxyServices s (rQuery r ''uuid'') = None"
  shows "owned (commitProxy r port s)"
  unfolding owned_def
proof (intro allI impI)
  fix i assume i: "i < length (proxies (commitProxy r port s))" "\<not> pxCancelled (proxies (commitProxy r port s) ! i)"
  show "\<exists>u. proxyServices (commitProxy r port s) u = Some i"
  proof (cases "i = length (proxies s)")
    case True
    then show ?thesis by (auto simp: commitProxy_def)
  next
    case False
    with i obtain u where "proxyServices s u = Some i"
      using assms(1) by (auto simp: owned_def commitProxy_def nth_append less_Suc_eq)
    with assms(2) show ?thesis by (intro exI [of _ u]) (auto simp: commitProxy_def)
  qed
qed

lemma disconnect_one:
  assumes "tables_ok s"
  shows "tables_ok (disconnectLoop [u] s) \<and> (owned s \<longrightarrow> owned (disconnectLoop [u] s))"
proof (cases "proxyServices s u")
  case None
  then have "connections s u = None" using tables_okD(1) [OF assms] by (metis domIff)
  then have "connections (disconnectLoop [u] s) = connections s" "proxyServices (disconnectLoop [u] s) = proxyServices s"
      "proxies (disconnectLoop [u] s) = proxies s" using None by (auto simp: Let_def)
  then show ?thesis using assms by (simp add: tables_ok_def owned_def)
next
  case (Some i)
  note D = tables_okD [OF assms]
  have i: "i < length (proxies s)" by (rule D(2) [OF Some])
  define t where "t = disconnectLoop [u] s"
  have new: "connections t = (connections s)(u := None)" "proxyServices t = (proxyServices s)(u := None)"
      "proxies t = (proxies s)[i := (proxies s ! i)\<lparr>pxCancelled := True\<rparr>]"
    using Some by (auto simp: t_def Let_def)
  have other: "j \<noteq> i" if "proxyServices s v = Some j" "v \<noteq> u" for v j using D(5) [OF Some] that by blast
  have keep: "j < length (proxies t) \<and> \<not> pxCancelled (proxies t ! j) \<and> connections t v = Some (pxPort (proxies t ! j))"
    if "proxyServices t v = Some j" for v j
  proof -
    have v: "v \<noteq> u" "proxyServices s v = Some j" using that by (auto simp: new(2) split: if_splits)
    with other have "j \<noteq> i" by blast
    with D(2-4) [OF v(2)] v(1) show ?thesis by (simp add: new)
  qed
  have "tables_ok t" unfolding tables_ok_def
  proof (intro conjI)
    show "dom (connections t) = dom (proxyServices t)" using D(1) by (simp add: new)
    show "\<forall>v w j. proxyServices t v = Some j \<longrightarrow> proxyServices t w = Some j \<longrightarrow> v = w"
      using D(5) by (auto simp: new(2) split: if_splits)
    show "listenersApart (proxies t)" unfolding new(3) by (rule apart_update [OF D(6) i]) simp_all
  qed (use keep in blast)
  moreover have "owned t" if "owned s"
    unfolding owned_def new
  proof (intro allI impI)
    fix j assume j: "j < length ((proxies s)[i := (proxies s ! i)\<lparr>pxCancelled := True\<rparr>])"
      "\<not> pxCancelled ((proxies s)[i := (proxies s ! i)\<lparr>pxCancelled := True\<rparr>] ! j)"
    then have "j \<noteq> i" using i by auto
    with j that obtain v where "proxyServices s v = Some j" by (auto simp: owned_def)
    with \<open>j \<noteq> i\<close> Some show "\<exists>v. ((proxyServices s)(u := None)) v = Some j" by (intro exI [of _ v]) auto
  qed
  ultimately show ?thesis unfolding t_def by blast
qed

lemma disconnect_tables:
  "tables_ok s \<Longrightarrow> tables_ok (disconnectLoop us s) \<and> (owned s \<longrightarrow> owned (disconnectLoop us s))"
proof (induction us arbitrary: s)
  case (Cons u us)
  then show ?case using disconnect_one [of s u] disconnectLoop_Cons [of u us s] by (metis (no_types))
qed simp

lemma threads_ok_users:
  "threads_ok s ts \<longleftrightarrow> distinct (map threadUser ts) \<and> (\<forall>u \<in> set (map threadUser ts). connections s u = None)"
  by (simp add: threads_ok_def)

lemma threadUser_simps [simp]:
  "threadUser (Admitted r) = rQuery r ''uuid''" "threadUser (XrayDone r) = rQuery r ''uuid''"
  "threadUser (Probed r port) = rQuery r ''uuid''"
  by (simp_all add: threadUser_def threadRequest_def)

lemma threads_advance:
  assumes "i < length ts" "threadUser t = threadUser (ts ! i)"
  shows "map threadUser (ts[i := t]) = map threadUser ts"
  using assms by (metis list_update_id length_map map_update nth_map)

lemma threads_leave:
  assumes "threads_ok s ts" "i < length ts"
  shows "distinct (map threadUser (delAt i ts))" "threadUser (ts ! i) \<notin> set (map threadUser (delAt i ts))"
    "\<forall>u \<in> set (map threadUser (delAt i ts)). connections s u = None"
proof -
  have parts: "ts = take i ts @ ts ! i # drop (Suc i) ts" using id_take_nth_drop [OF assms(2)] .
  have dist: "distinct (map threadUser (take i ts @ ts ! i # drop (Suc i) ts))"
    using assms(1) parts unfolding threads_ok_def by metis
  then show "distinct (map threadUser (delAt i ts))" "threadUser (ts ! i) \<notin> set (map threadUser (delAt i ts))"
    by (auto simp: delAt_def)
  show "\<forall>u \<in> set (map threadUser (delAt i ts)). connections s u = None"
    using assms(1) by (auto simp: threads_ok_def dest: in_set_delAtD)
qed

lemma threads_gone: "threads_ok s ts \<Longrightarrow> i < length ts \<Longrightarrow> threads_ok s (delAt i ts)"
  using threads_leave unfolding threads_ok_users by blast

lemma commit_threads:
  assumes "threads_ok s ts" "i < length ts" "ts ! i = Probed r port"
  shows "threads_ok (commitProxy r port s) (delAt i ts)"
proof -
  note L = threads_leave [OF assms(1,2)]
  have "\<forall>u \<in> set (map threadUser (delAt i ts)). connections (commitProxy r port s) u = None"
  proof
    fix u assume u: "u \<in> set (map threadUser (delAt i ts))"
    then have "u \<noteq> rQuery r ''uuid''" using L(2) [unfolded assms(3) threadUser_simps] by blast
    moreover have "connections s u = None" using L(3) u by blast
    ultimately show "connections (commitProxy r port s) u = None" by (simp add: commitProxy_def)
  qed
  with L(1) show ?thesis unfolding threads_ok_users by blast
qed

text \<open>Steps that leave the tables alone and of the proxies change at most the phase.\<close>

lemma conc_inv_frame:
  assumes inv: "conc_inv serial (s, ts)" and same: "connections s' = connections s" "proxyServices s' = proxyServices s"
      "map proxyKey (proxies s') = map proxyKey (proxies s)" and apart: "listenersApart (proxies s')"
    and threads: "serial \<Longrightarrow> threads_ok s ts \<Longrightarrow> threads_ok s ts'"
  shows "conc_inv serial (s', ts')"
proof -
  note K = same_keys [OF same(3)]
  have "tables_ok s" "serial \<longrightarrow> owned s \<and> threads_ok s ts" using inv by (simp_all add: conc_inv_def)
  note D = tables_okD [OF this(1)] and serial = this(2)
  have "\<forall>u i. proxyServices s u = Some i \<longrightarrow> i < length (proxies s') \<and> \<not> pxCancelled (proxies s' ! i) \<and>
      connections s u = Some (pxPort (proxies s' ! i))" using D(2-4) K by auto
  then have "tables_ok s'" unfolding tables_ok_def same(1,2) using D(1,5) apart by blast
  moreover have "owned s'" if "owned s" using that K by (auto simp: owned_def same(2))
  ultimately show ?thesis using serial threads by (auto simp: conc_inv_def threads_ok_def same(1))
qed

lemma conc_apart: "conc_inv serial (s, ts) \<Longrightarrow> listenersApart (proxies s)"
  by (auto simp: conc_inv_def dest: tables_okD(6))

lemma conc_step_inv: "conc_step serial c c' \<Longrightarrow> conc_inv serial c \<Longrightarrow> conc_inv serial c'"
proof (induction rule: conc_step.induct)
  case (admit e r s ts)
  then show ?case by (intro conc_inv_frame [OF admit(3)]) (auto simp: threads_ok_def admitted_def conc_apart)
next
  case (xray_added i ts r e s x)
  then show ?case
    by (intro conc_inv_frame [OF xray_added(4)]) (simp_all add: threads_ok_users threads_advance conc_apart)
next
  case (xray_failed i ts r e s x)
  then show ?case by (intro conc_inv_frame [OF xray_failed(4)]) (simp_all add: threads_gone conc_apart)
next
  case (xray_lost i ts r s x)
  then show ?case by (intro conc_inv_frame [OF xray_lost(3)]) (simp_all add: threads_gone conc_apart)
next
  case (probe i ts r free draws port s)
  then show ?case
    by (intro conc_inv_frame [OF probe(4)]) (simp_all add: threads_ok_users threads_advance conc_apart)
next
  case (commit i ts r port s)
  then have "proxyServices s (rQuery r ''uuid'') = None" if serial
  proof -
    have inv: "tables_ok s" "threads_ok s ts" using commit(3) that by (simp_all add: conc_inv_def)
    then have "connections s (threadUser (ts ! i)) = None"
      using nth_mem [OF commit(1)] unfolding threads_ok_def by blast
    then show ?thesis using commit(2) tables_okD(1) [OF inv(1)] by (metis domIff threadUser_simps(3))
  qed
  then show ?case
    using commit commit_tables commit_owned commit_threads by (auto simp: conc_inv_def)
next
  case (disconnect s ts us)
  then show ?case
    using disconnect_tables [of s us] disconnectLoop_maps [of us s]
    by (auto simp: conc_inv_def threads_ok_def)
next
  case (listen i s l ts)
  show ?case
    by (rule conc_inv_frame [OF listen(4) _ _ _ startProxy_apart [OF conc_apart [OF listen(4)] listen(1,3)]])
      (simp_all add: phase_keys listen(1))
next
  case (accept i s evs ts)
  show ?case
    by (rule conc_inv_frame [OF accept(4) _ _ _ serveProxy_apart [OF conc_apart [OF accept(4)] accept(1,2)]])
      (simp_all add: phase_keys accept(1))
next
  case (count s ts a up n)
  then show ?case by (intro conc_inv_frame [OF count]) (simp_all add: conc_apart)
next
  case (report s ts providers ginPort turns)
  then show ?case by (intro conc_inv_frame [OF report]) (simp_all add: trafficRound_frame conc_apart)
qed

interpretation conc_system: invariant_system "\<lambda>c. \<exists>x. c = (initNode x, [])" "conc_step serial" "conc_reach serial" "conc_inv serial"
  for serial :: bool
proof
  show "conc_reach serial c \<Longrightarrow> \<exists>c0. (\<exists>x. c0 = (initNode x, [])) \<and> (conc_step serial)\<^sup>*\<^sup>* c0 c" for c :: "'x node_state \<times> connect_thread list"
    by (induction rule: conc_reach.induct) (auto intro: rtranclp.rtrancl_into_rtrancl)
  show "\<exists>x. c = (initNode x, []) \<Longrightarrow> conc_inv serial c" for c :: "'x node_state \<times> connect_thread list"
    by (auto simp: conc_inv_def tables_ok_def owned_def threads_ok_def listenersApart_def initNode_def)
qed (auto intro: conc_reach.intros conc_step_inv)

lemmas conc_reach_inv = conc_system.reachable_inv

section \<open>Properties\<close>

text \<open>
  The phases, run without interruption, are the handler.
\<close>

theorem handleConnect_phases:
  assumes "admitted e r s"
  shows "handleConnect e r s w =
    (case addXrayUser e r (xray s) of
       (x, ok) \<Rightarrow>
         if \<not> ok then Some (Ret (s\<lparr>xray := x\<rparr>) (writeHeader StatusInternalServerError w))
         else (case pickPort (ceFree e) (ceDraws e) of
                 None \<Rightarrow> None
               | Some port \<Rightarrow> Some (Ret (commitProxy r port (s\<lparr>xray := x\<rparr>)) (portResponse port w))))"
proof -
  have "handleConnect e r s w = openProxy e r s w"
    using assms by (auto simp: admitted_def handleConnect_def split: option.splits)
  then show ?thesis
    by (simp add: openProxy_def addXrayUser_def commitProxy_def Let_def case_prod_beta split: option.split)
qed

text \<open>
  C12: however connect requests overlap with each other and with disconnects, reports and the goroutines
  of the proxies, both tables of a node name the same users, a connected user's port is that of a
  proxy which was not cancelled and which no other user has, and at most one proxy holds the listener
  of a port: when overlapping requests got the same port, at most one of their proxies can run. When
  besides the requests of one user never overlap, every proxy that was not cancelled, so every running
  one, has a connected user.
\<close>

theorem overlapping_connects_consistent:
  assumes "conc_reach serial (s, ts)"
  shows "dom (connections s) = dom (proxyServices s) \<and>
    (\<forall>u port. connections s u = Some port \<longrightarrow> (\<exists>i. proxyServices s u = Some i \<and> i < length (proxies s) \<and>
       \<not> pxCancelled (proxies s ! i) \<and> pxPort (proxies s ! i) = port \<and> (\<forall>v. proxyServices s v = Some i \<longrightarrow> v = u))) \<and>
    (\<forall>i < length (proxies s). \<forall>j < length (proxies s). listenerOpen (proxies s ! i) \<longrightarrow> listenerOpen (proxies s ! j) \<longrightarrow>
       pxPort (proxies s ! i) = pxPort (proxies s ! j) \<longrightarrow> i = j) \<and>
    (serial \<longrightarrow> (\<forall>i < length (proxies s). \<not> pxCancelled (proxies s ! i) \<longrightarrow> (\<exists>u. proxyServices s u = Some i)))"
proof -
  have inv: "tables_ok s" "serial \<longrightarrow> owned s" using conc_reach_inv [OF assms] by (simp_all add: conc_inv_def)
  note D = tables_okD [OF inv(1)]
  have conn: "\<exists>i. proxyServices s u = Some i \<and> i < length (proxies s) \<and> \<not> pxCancelled (proxies s ! i) \<and>
      pxPort (proxies s ! i) = port \<and> (\<forall>v. proxyServices s v = Some i \<longrightarrow> v = u)" if "connections s u = Some port" for u port
  proof -
    have "u \<in> dom (proxyServices s)" using that D(1) by (simp add: domI flip: D(1))
    then obtain i where i: "proxyServices s u = Some i" by (rule domD [THEN exE])
    have "pxPort (proxies s ! i) = port" using D(4) [OF i] that by simp
    with i D(2,3) [OF i] D(5) [OF _ i] show ?thesis by blast
  qed
  show ?thesis
    using D(1) inv(2) by (intro conjI allI impI conn listenersApartD [OF D(6)]) (simp_all add: owned_def)
qed

text \<open>A proxy that no user refers to is out of reach: no sequence of disconnects cancels it.\<close>

lemma disconnect_unowned:
  "\<forall>u. proxyServices s u \<noteq> Some i \<Longrightarrow> proxies (disconnectLoop us s) ! i = proxies s ! i"
proof (induction us arbitrary: s)
  case (Cons u us)
  define t where "t = disconnectLoop [u] s"
  have maps: "proxyServices t v = (if v = u then None else proxyServices s v)" for v
    using disconnectLoop_maps [of "[u]" s v] by (simp add: t_def)
  have "proxies t ! i = proxies s ! i"
  proof (cases "proxyServices s u")
    case (Some a)
    then have "a \<noteq> i" using Cons.prems by blast
    with Some show ?thesis by (simp add: t_def Let_def)
  qed (simp add: t_def Let_def)
  moreover have "\<forall>v. proxyServices t v \<noteq> Some i" using Cons.prems maps by simp
  ultimately show ?case using Cons.IH [of t] disconnectLoop_Cons [of u us s] by (simp add: t_def del: disconnectLoop.simps)
qed simp

section \<open>Concrete runs\<close>

definition threadOf :: "string \<Rightarrow> connect_thread" where
  "threadOf u = Admitted (connectRequest u)"

lemma demo_admitted: "u \<noteq> [] \<Longrightarrow> connections s u = None \<Longrightarrow> admitted (demoEnv draws True) (connectRequest u) s"
  by (simp add: admitted_def demoEnv_def connectRequest_def splitHostPort_def)

text \<open>Two requests are admitted, pass xray, and probe ports \<open>p\<close> and \<open>q\<close> before either opens its proxy.\<close>

definition committed :: "string \<Rightarrow> int \<Rightarrow> unit node_state \<Rightarrow> unit node_state" where
  "committed u port s = commitProxy (connectRequest u) port s"

lemma both_probed:
  assumes "u \<noteq> []" "v \<noteq> []" "serial \<longrightarrow> u \<noteq> v"
  shows "conc_reach serial (initNode (), [Probed (connectRequest u) (10000 + int d), Probed (connectRequest v) (10000 + int e)])"
proof -
  let ?s = "initNode ()"
  have none: "connections ?s w = None" for w by (simp add: initNode_def)
  have xr: "addXrayUser (demoEnv [] True) r (xray ?s) = ((), True)" for r
    by (simp add: addXrayUser_def addVlessUser_def demoEnv_def Let_def)
  have same: "?s\<lparr>xray := ()\<rparr> = ?s" by (simp add: initNode_def)
  have free: "pickPort (ceFree (demoEnv (k # ds) True)) (ceDraws (demoEnv (k # ds) True)) = Some (10000 + int k)" for ds k
    by (simp add: demoEnv_def)
  have "conc_reach serial (?s, [threadOf u])"
    using conc_reach.step [OF conc_reach.init conc_step.admit [OF demo_admitted [OF assms(1) none], of _ "[]"]] by (simp add: threadOf_def)
  then have "conc_reach serial (?s, [threadOf u, threadOf v])"
    using conc_reach.step [OF _ conc_step.admit [OF demo_admitted [OF assms(2) none], of serial "[threadOf u]"]] assms(3)
    by (auto simp: threadOf_def connectRequest_def)
  then have "conc_reach serial (?s, [XrayDone (connectRequest u), threadOf v])"
    using conc_reach.step [OF _ conc_step.xray_added [of 0 "[threadOf u, threadOf v]" "connectRequest u", OF _ _ xr]] by (simp add: threadOf_def same)
  then have "conc_reach serial (?s, [XrayDone (connectRequest u), XrayDone (connectRequest v)])"
    using conc_reach.step [OF _ conc_step.xray_added [of 1 "[XrayDone (connectRequest u), threadOf v]" "connectRequest v", OF _ _ xr]] by (simp add: threadOf_def same)
  then have "conc_reach serial (?s, [Probed (connectRequest u) (10000 + int d), XrayDone (connectRequest v)])"
    using conc_reach.step [OF _ conc_step.probe [of 0 "[XrayDone (connectRequest u), XrayDone (connectRequest v)]" "connectRequest u", OF _ _ free]] by simp
  then show ?thesis
    using conc_reach.step [OF _ conc_step.probe [of 1 "[Probed (connectRequest u) (10000 + int d), XrayDone (connectRequest v)]" "connectRequest v", OF _ _ free]]
    by simp
qed

lemma both_committed:
  assumes "u \<noteq> []" "v \<noteq> []" "serial \<longrightarrow> u \<noteq> v"
  shows "conc_reach serial (committed v (10000 + int e) (committed u (10000 + int d) (initNode ())), [])"
proof -
  let ?t = "Probed (connectRequest u) (10000 + int d)" and ?t' = "Probed (connectRequest v) (10000 + int e)"
  have "conc_step serial (initNode (), [?t, ?t']) (committed u (10000 + int d) (initNode ()), [?t'])"
    using conc_step.commit [of 0 "[?t, ?t']" "connectRequest u" "10000 + int d"] by (simp add: committed_def)
  with both_probed [OF assms] have one: "conc_reach serial (committed u (10000 + int d) (initNode ()), [?t'])"
    by (rule conc_reach.step)
  have "conc_step serial (committed u (10000 + int d) (initNode ()), [?t'])
      (committed v (10000 + int e) (committed u (10000 + int d) (initNode ())), [])"
    using conc_step.commit [of 0 "[?t']" "connectRequest v" "10000 + int e"] by (simp add: committed_def)
  with one show ?thesis by (rule conc_reach.step)
qed

theorem overlapping_connects_consistent_witness:
  "\<exists>s :: unit node_state. conc_reach True (s, []) \<and> connections s ''u1'' = Some 10000 \<and> connections s ''u2'' = Some 10007 \<and>
     (\<exists>i. proxyServices s ''u2'' = Some i \<and> pxPort (proxies s ! i) = 10007)"
proof -
  let ?s = "committed ''u2'' (10000 + int 7) (committed ''u1'' (10000 + int 0) (initNode ()))"
  have reach: "conc_reach True (?s, [])" by (rule both_committed) simp_all
  have c: "connections ?s ''u1'' = Some 10000" "connections ?s ''u2'' = Some 10007"
    by (simp_all add: committed_def commitProxy_def connectRequest_def)
  from overlapping_connects_consistent [OF reach] c(2) have "\<exists>i. proxyServices ?s ''u2'' = Some i \<and> pxPort (proxies ?s ! i) = 10007" by blast
  with reach c show ?thesis by blast
qed

text \<open>
  Two overlapping connects of one user open two proxies and remember one. The other is never
  cancelled: no sequence of disconnect requests, for any users, stops it.
\<close>

theorem overlapping_connects_leak_proxy:
  "\<exists>s :: unit node_state. conc_reach False (s, []) \<and> length (proxies s) = 2 \<and> dom (connections s) = {''u1''} \<and>
     (\<forall>us. \<not> pxCancelled (proxies (disconnectLoop us s) ! 0))"
proof -
  let ?s = "committed ''u1'' (10000 + int 7) (committed ''u1'' (10000 + int 0) (initNode ()))"
  have reach: "conc_reach False (?s, [])" by (rule both_committed) simp_all
  have "\<forall>u. proxyServices ?s u \<noteq> Some 0" by (simp add: committed_def commitProxy_def connectRequest_def initNode_def)
  from disconnect_unowned [OF this] have "proxies (disconnectLoop us ?s) ! 0 = proxies ?s ! 0" for us .
  moreover have "\<not> pxCancelled (proxies ?s ! 0)" by (simp add: committed_def commitProxy_def initNode_def)
  ultimately have "\<forall>us. \<not> pxCancelled (proxies (disconnectLoop us ?s) ! 0)" by simp
  moreover have "length (proxies ?s) = 2" "dom (connections ?s) = {''u1''}"
    by (simp_all add: committed_def commitProxy_def connectRequest_def initNode_def)
  ultimately show ?thesis using reach by blast
qed

text \<open>
  The probed port is free only until the probe's listener is closed: two users whose requests
  overlap can both be given the same port, even when no user's own requests overlap. One of the two
  proxies then runs, \<open>net.Listen\<close> fails for the other, and its user stays connected without a proxy.
\<close>

theorem overlapping_connects_share_port:
  "\<exists>s :: unit node_state. conc_reach True (s, []) \<and> connections s ''u1'' = Some 10000 \<and> connections s ''u2'' = Some 10000 \<and>
     proxyServices s ''u1'' = Some 0 \<and> proxyServices s ''u2'' = Some 1 \<and> running (proxies s ! 0) \<and> \<not> running (proxies s ! 1)"
proof -
  let ?s = "committed ''u2'' (10000 + int 0) (committed ''u1'' (10000 + int 0) (initNode ()))"
  let ?s1 = "startProxy 0 True ?s" and ?s2 = "startProxy 1 False (startProxy 0 True ?s)"
  have two: "proxies ?s ! 0 = proxies (committed ''u1'' 10000 (initNode ())) ! 0" "length (proxies ?s) = 2"
    "\<forall>p \<in> set (proxies ?s). pxPhase p = Starting \<and> pxPort p = 10000 \<and> \<not> pxCancelled p"
    by (simp_all add: committed_def commitProxy_def initNode_def)
  then have p: "pxPhase (proxies ?s ! 0) = Starting" "pxPhase (proxies ?s ! 1) = Starting" "\<not> pxCancelled (proxies ?s ! 0)"
    by (metis nth_mem one_less_numeral_iff semiring_norm(76) zero_less_numeral)+
  have "conc_reach True (?s, [])" by (rule both_committed) simp_all
  then have "conc_reach True (?s1, [])"
    by (rule conc_reach.step) (rule conc_step.listen, use two p in \<open>auto simp: portTaken_def listenerOpen_def\<close>)
  then have "conc_reach True (?s2, [])"
    by (rule conc_reach.step) (rule conc_step.listen, use two p in auto)
  moreover have "connections ?s ''u1'' = Some 10000" "connections ?s ''u2'' = Some 10000" "proxyServices ?s ''u1'' = Some 0"
      "proxyServices ?s ''u2'' = Some 1"
    by (simp_all add: committed_def commitProxy_def connectRequest_def initNode_def)
  moreover have "running (proxies ?s2 ! 0)" "\<not> running (proxies ?s2 ! 1)" using two(2) p(3) by (simp_all add: running_def)
  ultimately show ?thesis by (intro exI [of _ ?s2]) (simp only: startProxy_simps simp_thms)
qed

end
