(* ===== verification/Registry_Concurrency.thy ===== *)
theory Registry_Concurrency
  imports Registry_Server Transitions
begin

text \<open>
  The sweep of the registry while requests go on (src/registry/server.go). \<open>removeInactiveServices\<close>
  copies the table under one lock, copies the heartbeat times under another, and then checks the
  copied registrations one by one without a lock; a registration records its heartbeat first and is
  entered into the table later. Here every such part is a step of its own, so that requests,
  heartbeats and further registrations come in between anywhere. \<open>add\<close> and \<open>remove\<close> are single steps
  there; two overlapping calls of \<open>add\<close> are looked at apart.

  Because the table is copied before the times, and a time is recorded before the entry is made, a
  sweep never takes a service for silent that has only just registered. It can remove the successor
  of a silent registration at the same URL.
\<close>

section \<open>Model\<close>

text \<open>The goroutine of the ticker: between two sweeps, with a copy of the table, or with what it has
  still to check and its copy of the times.\<close>

datatype sweeper =
    Idle
  | TableCopied "(string \<times> Registration) list"
  | Checking "(string \<times> Registration) list" "string \<rightharpoonup> time"

definition copyTable :: "(string \<times> Registration list) list \<Rightarrow> (string \<times> Registration) list" where
  "copyTable table = concat (map (\<lambda>(serviceName, regs). map (Pair serviceName) regs) table)"

text \<open>The body of the inner loop.\<close>

definition checkOne ::
  "(nat \<Rightarrow> bool) \<Rightarrow> (Registration \<Rightarrow> time) \<Rightarrow> (string \<rightharpoonup> time) \<Rightarrow> string \<times> Registration \<Rightarrow> registry \<Rightarrow> registry" where
  "checkOne delivered clock lastHeartBeat entry s =
     (if inactive lastHeartBeat clock (snd entry)
      then fst (removeReg delivered (fst entry) (ServiceURL (snd entry)) s) else s)"

text \<open>The two parts of a POST that passes the checks: the heartbeat of the new id, and \<open>add\<close>.\<close>

definition recordID :: "string \<Rightarrow> time \<Rightarrow> registry \<Rightarrow> registry" where
  "recordID uuid now s = s\<lparr>heartbeatServer := (heartbeatServer s)\<lparr>LastHeartBeat :=
     (LastHeartBeat (heartbeatServer s))(uuid \<mapsto> now)\<rparr>\<rparr>"

text \<open>The state: the registry, the sweeping goroutine and the registrations between their two parts.\<close>

inductive sweep_step ::
  "registry \<times> sweeper \<times> Registration list \<Rightarrow> registry \<times> sweeper \<times> Registration list \<Rightarrow> bool" where
  recorded: "freshID s uuid \<Longrightarrow> uuid \<notin> ServiceID ` set pend \<Longrightarrow>
    sweep_step (s, sw, pend) (recordID uuid now s, sw, pend @ [reg\<lparr>ServiceID := uuid\<rparr>])"
| enter: "i < length pend \<Longrightarrow>
    sweep_step (s, sw, pend) (runState (addReg delivered (pend ! i) s), sw, delAt i pend)"
| delete: "sweep_step (s, sw, pend) (fst (registryDelete delivered r s w), sw, pend)"
| heartbeat: "heartbeatServeHTTP (Some (IsServiceRegistered s)) now r (heartbeatServer s) w = (h, w') \<Longrightarrow>
    sweep_step (s, sw, pend) (s\<lparr>heartbeatServer := h\<rparr>, sw, pend)"
| copy_table: "set (order (registrationsMap s)) = set (registrationsMap s) \<Longrightarrow>
    sweep_step (s, Idle, pend) (s, TableCopied (copyTable (order (registrationsMap s))), pend)"
| copy_times: "sweep_step (s, TableCopied todo, pend) (s, Checking todo (LastHeartBeat (heartbeatServer s)), pend)"
| check: "sweep_step (s, Checking (entry # todo) l, pend) (checkOne delivered clock l entry s, Checking todo l, pend)"
| finish: "sweep_step (s, Checking [] l, pend) (s, Idle, pend)"

inductive sweep_reach :: "registry \<times> sweeper \<times> Registration list \<Rightarrow> bool" where
  init: "sweep_reach (newRegistry, Idle, [])"
| step: "sweep_reach c \<Longrightarrow> sweep_step c c' \<Longrightarrow> sweep_reach c'"

inductive_cases sweep_checkE: "sweep_step (s, Checking todo l, pend) c"

section \<open>The parts make up the whole\<close>

lemma fold_checkOne_regs:
  "fold (checkOne d clock l) (map (Pair n) regs) s = removeInactiveRegs d l clock n regs s"
  by (induction regs arbitrary: s) (simp_all add: checkOne_def)

lemma fold_checkOne_from: "fold (checkOne d clock l) (copyTable table) s = removeInactiveFrom d l clock table s"
proof (induction table arbitrary: s)
  case (Cons e table)
  then show ?case by (cases e) (simp add: copyTable_def fold_checkOne_regs)
qed (simp add: copyTable_def)

text \<open>A sweep that nothing interrupts is the sweep of Registry_Server, and a POST likewise.\<close>

theorem sweep_phases:
  "removeInactiveServices d order clock s =
   fold (checkOne d clock (LastHeartBeat (heartbeatServer s))) (copyTable (order (registrationsMap s))) s"
  by (simp add: removeInactiveServices_def fold_checkOne_from)

theorem post_phases:
  assumes "rHeader r ''regkey'' = regkey" "rJson r = Some (encodeRegistration reg)"
    and "ServiceName reg \<noteq> []" "ServiceURL reg \<noteq> []" "uuid \<noteq> []"
  shows "runState (registryPost d regkey uuid now r s w) = runState (addReg d (reg\<lparr>ServiceID := uuid\<rparr>) (recordID uuid now s))"
  using assms by (simp add: registryPost_def recordID_def Let_def split: run.split)

section \<open>Invariant\<close>

definition heardOf :: "(string \<rightharpoonup> time) \<Rightarrow> (string \<times> Registration) list \<Rightarrow> bool" where
  "heardOf l todo \<longleftrightarrow> (\<forall>(n, r) \<in> set todo. ServiceName r = n \<and> l (ServiceID r) \<noteq> None)"

fun sweeper_ok :: "registry \<Rightarrow> sweeper \<Rightarrow> bool" where
  "sweeper_ok s Idle = True"
| "sweeper_ok s (TableCopied todo) = heardOf (LastHeartBeat (heartbeatServer s)) todo"
| "sweeper_ok s (Checking todo l) = heardOf l todo"

definition pending_ok :: "registry \<Rightarrow> Registration list \<Rightarrow> bool" where
  "pending_ok s pend \<longleftrightarrow> distinct (map ServiceID pend) \<and>
     (\<forall>r \<in> set pend. freshID s (ServiceID r) \<and> LastHeartBeat (heartbeatServer s) (ServiceID r) \<noteq> None)"

definition sweep_inv :: "registry \<times> sweeper \<times> Registration list \<Rightarrow> bool" where
  "sweep_inv c \<longleftrightarrow> (case c of (s, sw, pend) \<Rightarrow> reg_inv s \<and> sweeper_ok s sw \<and> pending_ok s pend)"

text \<open>No step forgets a heartbeat, and only \<open>enter\<close> adds an id to the table.\<close>

definition extends :: "registry \<Rightarrow> registry \<Rightarrow> bool" where
  "extends s s' \<longleftrightarrow> dom (LastHeartBeat (heartbeatServer s)) \<subseteq> dom (LastHeartBeat (heartbeatServer s'))"

lemma heardOf_mono: "heardOf l todo \<Longrightarrow> dom l \<subseteq> dom l' \<Longrightarrow> heardOf l' todo"
  unfolding heardOf_def by (fastforce simp: domIff)

lemma sweeper_ok_extends: "sweeper_ok s sw \<Longrightarrow> extends s s' \<Longrightarrow> sweeper_ok s' sw"
  by (cases sw) (auto simp: extends_def intro: heardOf_mono)

lemma pending_ok_extends:
  assumes "pending_ok s pend" "extends s s'" "ServiceID ` set (allRegs s') \<subseteq> ServiceID ` set (allRegs s)"
  shows "pending_ok s' pend"
  unfolding pending_ok_def
proof (intro conjI ballI)
  show "distinct (map ServiceID pend)" using assms(1) by (simp add: pending_ok_def)
  fix r assume "r \<in> set pend"
  with assms(1) have r: "freshID s (ServiceID r)" "ServiceID r \<in> dom (LastHeartBeat (heartbeatServer s))"
    unfolding pending_ok_def by blast+
  show "freshID s' (ServiceID r)" using r(1) assms(3) unfolding freshID_def by blast
  show "LastHeartBeat (heartbeatServer s') (ServiceID r) \<noteq> None" using r(2) assms(2) unfolding extends_def by blast
qed

text \<open>A step of another handler that keeps the invariant of the table, forgets no heartbeat and adds no id.\<close>

lemma sweep_inv_frame:
  assumes "sweep_inv (s, sw, pend)" "reg_inv s'" "extends s s'" "set (allRegs s') \<subseteq> set (allRegs s)"
  shows "sweep_inv (s', sw, pend)"
proof -
  have "sweeper_ok s sw" "pending_ok s pend" using assms(1) by (simp_all add: sweep_inv_def)
  then have "sweeper_ok s' sw" "pending_ok s' pend"
    using sweeper_ok_extends [OF _ assms(3)] pending_ok_extends [OF _ assms(3) image_mono [OF assms(4)]] by blast+
  with assms(2) show ?thesis by (simp add: sweep_inv_def)
qed

lemma allRegs_subset:
  assumes "reg_inv s" "reg_inv s'" "\<And>n. set (regsOf s' n) \<subseteq> set (regsOf s n) \<union> X"
  shows "set (allRegs s') \<subseteq> set (allRegs s) \<union> X"
  using assms(3) set_allRegs [OF reg_invD(1) [OF assms(1)]] set_allRegs [OF reg_invD(1) [OF assms(2)]] by blast

lemma removeReg_shrinks_regs: "reg_inv s \<Longrightarrow> set (allRegs (fst (removeReg d n url s))) \<subseteq> set (allRegs s)"
proof -
  assume inv: "reg_inv s"
  have "set (regsOf (fst (removeReg d n url s)) m) \<subseteq> set (regsOf s m) \<union> {}" for m
    using removeReg_regsOf(1) [OF reg_invD(2) [OF inv]] removeReg_regsOf(2) [OF reg_invD(2) [OF inv], of m] by (cases "m = n") auto
  from allRegs_subset [OF inv removeReg_inv [OF inv] this] show ?thesis by simp
qed

lemma removeReg_heartbeatServer [simp]: "heartbeatServer (fst (removeReg d n url s)) = heartbeatServer s"
  by (simp add: removeReg_result split: option.split)

lemma sweep_inv_remove:
  "sweep_inv (s, sw, pend) \<Longrightarrow> sweep_inv (fst (removeReg d n url s), sw, pend)"
proof -
  assume inv: "sweep_inv (s, sw, pend)"
  then have "reg_inv s" by (simp add: sweep_inv_def)
  then show ?thesis
    by (intro sweep_inv_frame [OF inv] removeReg_inv removeReg_shrinks_regs) (simp_all add: extends_def)
qed

text \<open>Entering a pending registration.\<close>

lemma addReg_regs:
  assumes inv: "reg_inv s" and inv': "reg_inv (runState (addReg d reg s))"
  shows "set (allRegs (runState (addReg d reg s))) \<subseteq> set (allRegs s) \<union> {reg}"
proof (rule allRegs_subset [OF inv inv'])
  fix m
  note dist = reg_invD(2) [OF inv]
  show "set (regsOf (runState (addReg d reg s)) m) \<subseteq> set (regsOf s m) \<union> {reg}"
  proof (cases "m = ServiceName reg")
    case True
    then show ?thesis using addReg_result(1) [OF dist, of d reg]
      by (auto split: option.splits if_splits dest: in_set_butlastD in_set_delAtD)
  next
    case False
    then show ?thesis using addReg_result(2) [OF dist] by auto
  qed
qed

lemma sweep_inv_enter:
  assumes "sweep_inv (s, sw, pend)" "i < length pend"
  shows "sweep_inv (runState (addReg d (pend ! i) s), sw, delAt i pend)"
proof -
  have inv: "reg_inv s" and sw: "sweeper_ok s sw" and pend: "pending_ok s pend"
    using assms(1) by (simp_all add: sweep_inv_def)
  let ?reg = "pend ! i" and ?s' = "runState (addReg d (pend ! i) s)"
  have mem: "?reg \<in> set pend" using assms(2) by simp
  have inv': "reg_inv ?s'"
    using addReg_inv [OF inv] pend mem unfolding pending_ok_def by blast
  have same: "heartbeatServer ?s' = heartbeatServer s" by (rule addReg_result(3) [OF reg_invD(2) [OF inv]])
  have parts: "pend = take i pend @ ?reg # drop (Suc i) pend" by (rule id_take_nth_drop [OF assms(2)])
  then have "distinct (map ServiceID (take i pend @ ?reg # drop (Suc i) pend))"
    using pend unfolding pending_ok_def by metis
  then have ids: "distinct (map ServiceID (delAt i pend))" "ServiceID ?reg \<notin> ServiceID ` set (delAt i pend)"
    by (auto simp: delAt_def)
  have "freshID ?s' (ServiceID r)" if "r \<in> set (delAt i pend)" for r
  proof -
    have "ServiceID r \<noteq> ServiceID ?reg" using ids(2) that by (metis imageI)
    moreover have "freshID s (ServiceID r)"
      using pend in_set_delAtD [OF that] unfolding pending_ok_def by blast
    ultimately show ?thesis using addReg_regs [OF inv inv'] unfolding freshID_def by blast
  qed
  then have "pending_ok ?s' (delAt i pend)"
    using ids(1) pend same by (auto simp: pending_ok_def dest: in_set_delAtD)
  moreover have "sweeper_ok ?s' sw" using sweeper_ok_extends [OF sw] same by (simp add: extends_def)
  ultimately show ?thesis using inv' by (simp add: sweep_inv_def)
qed

lemma copied_heard: "reg_inv s \<Longrightarrow> set table = set (registrationsMap s) \<Longrightarrow> heardOf (LastHeartBeat (heartbeatServer s)) (copyTable table)"
proof -
  assume inv: "reg_inv s" and table: "set table = set (registrationsMap s)"
  have "regsOf s n = regs" if "(n, regs) \<in> set table" for n regs
    using that table reg_invD(1) [OF inv] by (simp add: regsOf_def)
  then show ?thesis
    using reg_invD(4,5) [OF inv] unfolding heardOf_def copyTable_def by fastforce
qed

lemma heartbeat_extends:
  assumes "heartbeatServeHTTP v now r (heartbeatServer s) w = (h, w')"
  shows "extends s (s\<lparr>heartbeatServer := h\<rparr>)" "reg_inv s \<Longrightarrow> reg_inv (s\<lparr>heartbeatServer := h\<rparr>)"
proof -
  have "h = heartbeatServer s \<or> (\<exists>i. h = (heartbeatServer s)\<lparr>LastHeartBeat := (LastHeartBeat (heartbeatServer s))(i \<mapsto> now)\<rparr>)"
    using assms by (auto simp: heartbeatServeHTTP_def HandleCommonLogic_def
        split: option.splits if_splits heartbeat_handler.splits elim!: HandleHeartbeat.elims)
  then show "extends s (s\<lparr>heartbeatServer := h\<rparr>)" "reg_inv s \<Longrightarrow> reg_inv (s\<lparr>heartbeatServer := h\<rparr>)"
    by (auto simp: extends_def reg_inv_heartbeat)
qed

lemma sweep_step_inv: "sweep_step c c' \<Longrightarrow> sweep_inv c \<Longrightarrow> sweep_inv c'"
proof (induction rule: sweep_step.induct)
  case (recorded s uuid pend sw now reg)
  let ?s' = "recordID uuid now s"
  have frame: "sweep_inv (?s', sw, pend)"
    using recorded(3)
    by (intro sweep_inv_frame [OF recorded(3)]) (auto simp: extends_def recordID_def allRegs_def sweep_inv_def reg_inv_heartbeat)
  have "freshID ?s' uuid" using recorded(1) by (simp add: freshID_def recordID_def allRegs_def)
  moreover have "LastHeartBeat (heartbeatServer ?s') uuid \<noteq> None" by (simp add: recordID_def)
  ultimately show ?case using frame recorded(2) by (simp add: sweep_inv_def pending_ok_def)
next
  case (enter i pend s sw d)
  then show ?case by (rule sweep_inv_enter [rotated])
next
  case (delete s sw pend d r w)
  then show ?case
    using sweep_inv_remove [OF delete, of d] by (auto simp: registryDelete_def Let_def split: option.split prod.split) (metis fst_conv)+
next
  case (heartbeat s now r w h w' sw pend)
  have "reg_inv s" using heartbeat(2) by (simp add: sweep_inv_def)
  then show ?case
    by (intro sweep_inv_frame [OF heartbeat(2)] heartbeat_extends [OF heartbeat(1)]) (simp_all add: allRegs_def)
next
  case (copy_table order s pend)
  then show ?case by (simp add: sweep_inv_def copied_heard)
next
  case (check s e todo l pend d clock)
  have "sweep_inv (s, Checking todo l, pend)" using check by (simp add: sweep_inv_def heardOf_def)
  then show ?case by (simp add: checkOne_def sweep_inv_remove)
qed (simp_all add: sweep_inv_def)

interpretation sweep_system: invariant_system "\<lambda>c. c = (newRegistry, Idle, [])" sweep_step sweep_reach sweep_inv
proof
  show "sweep_reach c \<Longrightarrow> \<exists>c0. c0 = (newRegistry, Idle, []) \<and> sweep_step\<^sup>*\<^sup>* c0 c" for c
    by (induction rule: sweep_reach.induct) (auto intro: rtranclp.rtrancl_into_rtrancl)
  show "c = (newRegistry, Idle, []) \<Longrightarrow> sweep_inv c" for c
    by (simp add: sweep_inv_def reg_inv_new pending_ok_def)
qed (auto intro: sweep_reach.intros sweep_step_inv)

section \<open>Properties\<close>

text \<open>
  C10: whatever requests, heartbeats and registrations come between the parts of a sweep, each check of a
  copied registration finds its recorded heartbeat, also when the service has only just registered;
  and the check removes from the table exactly the registration with the checked URL, if any, and
  only when that heartbeat is more than 20 seconds old. Every other registration stays.
\<close>

theorem interleaved_sweep_exact:
  assumes "sweep_reach (s, Checking ((n, y) # todo) l, pend)" "x \<in> set (regsOf s m)"
  shows "\<exists>t. l (ServiceID y) = Some t \<and>
    (x \<in> set (regsOf (checkOne d clock l (n, y) s) m) \<longleftrightarrow>
       \<not> (m = n \<and> ServiceURL x = ServiceURL y \<and> clock y - t > 20 * second))"
proof -
  have inv: "reg_inv s" "heardOf l ((n, y) # todo)" using sweep_system.reachable_inv [OF assms(1)] by (simp_all add: sweep_inv_def)
  then obtain t where t: "l (ServiceID y) = Some t" by (auto simp: heardOf_def)
  then have "inactive l clock y \<longleftrightarrow> clock y - t > 20 * second"
    by (simp add: inactive_def second_def minInt64_def maxInt64_def timeSub_gt_iff)
  moreover have "x \<in> set (regsOf (fst (removeReg d n (ServiceURL y) s)) m) \<longleftrightarrow> \<not> (m = n \<and> ServiceURL x = ServiceURL y)"
    using removeReg_regsOf(1) [OF reg_invD(2) [OF inv(1)]] removeReg_regsOf(2) [OF reg_invD(2) [OF inv(1)], of m] assms(2)
    by (cases "m = n") auto
  ultimately show ?thesis using t assms(2) by (auto simp: checkOne_def)
qed

section \<open>Two registrations at once\<close>

text \<open>The parts of \<open>add\<close>: the loop that drops the old registration of the URL, which takes no lock, and
  the rest.\<close>

definition appendReg :: "(nat \<Rightarrow> bool) \<Rightarrow> Registration \<Rightarrow> registry \<Rightarrow> registry \<times> bool" where
  "appendReg delivered reg s =
     (let s2 = setRegs (ServiceName reg) (regsOf s (ServiceName reg) @ [reg]) s;
          (s3, err) = sendRequiredServices delivered reg s2
      in (notify delivered \<lparr>Added = [reg], Removed = []\<rparr> s3, err))"

theorem addReg_halves:
  "addReg delivered reg s =
     (case dropDuplicates delivered reg 0 (length (regsOf s (ServiceName reg))) s of
        Panic s1 \<Rightarrow> Panic s1
      | Ret s1 _ \<Rightarrow> (case appendReg delivered reg s1 of (s2, err) \<Rightarrow> Ret s2 err))"
  by (simp add: addReg_def appendReg_def Let_def case_prod_beta split: run.split)

text \<open>
  Two registrations of a new URL whose loops both run before either is appended: both loops find
  nothing, and the table has the URL twice.
\<close>

theorem concurrent_adds_duplicate_url:
  assumes "ServiceName r2 = ServiceName r1" "ServiceURL r2 = ServiceURL r1"
    and "ServiceURL r1 \<notin> ServiceURL ` set (regsOf s (ServiceName r1))" "r = r1 \<or> r = r2"
  shows "dropDuplicates d r 0 (length (regsOf s (ServiceName r))) s = Ret s () \<and>
    regsOf (fst (appendReg d r2 (fst (appendReg d r1 s)))) (ServiceName r1) = regsOf s (ServiceName r1) @ [r1, r2]"
proof -
  have "dropDuplicates d r 0 (length (regsOf s (ServiceName r))) s = Ret s ()"
    using assms nth_mem [of _ "regsOf s (ServiceName r1)"] by (intro dropDuplicates_none) (metis imageI)
  moreover have "regsOf (fst (appendReg d x t)) (ServiceName x) = regsOf t (ServiceName x) @ [x]" for x t
    by (simp add: appendReg_def Let_def case_prod_beta regsOf_cong [of "fst (sendRequiredServices d x u)" u for u])
  ultimately show ?thesis using assms(1) by (metis append_Cons append_Nil append_assoc)
qed

section \<open>Concrete runs\<close>

text \<open>Two nodes register. A sweep copies the table and the times; then the second node, silent since
  5, is started again at 25 seconds and registers at the same URL.\<close>

definition joinAt :: "string \<Rightarrow> string \<Rightarrow> time \<Rightarrow> registry \<Rightarrow> registry" where
  "joinAt url i now s = runState (addReg (\<lambda>_. True) (nodeReg url i) (recordID i now s))"

lemma join_reach:
  assumes "sweep_reach (s, sw, [])" "freshID s i"
  shows "sweep_reach (joinAt url i now s, sw, [])"
proof -
  have "sweep_reach (recordID i now s, sw, [nodeReg url i])"
    using sweep_reach.step [OF assms(1) sweep_step.recorded [OF assms(2), of "[]" sw now "nodeReg url i"]]
    by (simp add: nodeReg_def)
  from sweep_reach.step [OF this sweep_step.enter [of 0 _ _ _ "\<lambda>_. True"]] show ?thesis by (simp add: joinAt_def delAt_def)
qed

lemmas join_eval = joinAt_def recordID_def registry_eval nodeReg_def sendPatch_def delAt_def

definition bothJoined :: registry where
  "bothJoined = joinAt ''u2'' ''id2'' 5 (joinAt ''u1'' ''id1'' 0 newRegistry)"

definition rejoined :: registry where
  "rejoined = joinAt ''u2'' ''id4'' (25 * second) bothJoined"

lemma bothJoined_eq:
  "registrationsMap bothJoined = [(''NodeService'', [nodeReg ''u1'' ''id1'', nodeReg ''u2'' ''id2''])]"
  "LastHeartBeat (heartbeatServer bothJoined) = [''id1'' \<mapsto> 0, ''id2'' \<mapsto> 5]"
  by (simp_all add: bothJoined_def join_eval newRegistry_def NewHeartBeatServer_def)

lemma rejoined_eq:
  "regsOf rejoined ''NodeService'' = [nodeReg ''u1'' ''id1'', nodeReg ''u2'' ''id4'']"
  "LastHeartBeat (heartbeatServer rejoined) = [''id1'' \<mapsto> 0, ''id2'' \<mapsto> 5, ''id4'' \<mapsto> 25 * second]"
  by (simp_all add: rejoined_def joinAt_def recordID_def addReg_def dropDuplicates.simps regsOf_def bothJoined_eq
      nodeReg_def sendRequiredServices_def notify_def allRegs_def setRegs_def sendPatch_def delAt_def Let_def)

lemma rejoined_reach:
  "sweep_reach (rejoined, Checking [(''NodeService'', nodeReg ''u2'' ''id2'')] [''id1'' \<mapsto> 0, ''id2'' \<mapsto> 5], [])"
proof -
  let ?one = "joinAt ''u1'' ''id1'' 0 newRegistry" and ?l = "[''id1'' \<mapsto> 0, ''id2'' \<mapsto> 5] :: string \<rightharpoonup> time"
  have "sweep_reach (?one, Idle, [])"
    by (rule join_reach [OF sweep_reach.init]) (simp add: freshID_def allRegs_def newRegistry_def)
  then have "sweep_reach (bothJoined, Idle, [])" unfolding bothJoined_def
    by (rule join_reach) (simp add: freshID_def join_eval newRegistry_def)
  from sweep_reach.step [OF this sweep_step.copy_table [of "\<lambda>t. t"]]
  have "sweep_reach (bothJoined, TableCopied [(''NodeService'', nodeReg ''u1'' ''id1''), (''NodeService'', nodeReg ''u2'' ''id2'')], [])"
    by (simp add: bothJoined_eq copyTable_def)
  from sweep_reach.step [OF this sweep_step.copy_times]
  have "sweep_reach (bothJoined, Checking [(''NodeService'', nodeReg ''u1'' ''id1''), (''NodeService'', nodeReg ''u2'' ''id2'')] ?l, [])"
    by (simp add: bothJoined_eq)
  then have "sweep_reach (rejoined, Checking [(''NodeService'', nodeReg ''u1'' ''id1''), (''NodeService'', nodeReg ''u2'' ''id2'')] ?l, [])"
    unfolding rejoined_def by (rule join_reach) (simp add: freshID_def allRegs_def bothJoined_eq nodeReg_def)
  from sweep_reach.step [OF this sweep_step.check [where clock = "\<lambda>_. 0"]] show ?thesis
    by (simp add: checkOne_def inactive_def timeSub_def nodeReg_def second_def minInt64_def maxInt64_def)
qed

theorem interleaved_sweep_exact_witness:
  "nodeReg ''u1'' ''id1'' \<in> set (regsOf (checkOne (\<lambda>_. True) (\<lambda>_. 26 * second) [''id1'' \<mapsto> 0, ''id2'' \<mapsto> 5]
     (''NodeService'', nodeReg ''u2'' ''id2'') rejoined) ''NodeService'')"
  using interleaved_sweep_exact [OF rejoined_reach, of "nodeReg ''u1'' ''id1''" "''NodeService''" "\<lambda>_. True" "\<lambda>_. 26 * second"]
  by (auto simp: rejoined_eq nodeReg_def)

text \<open>
  The check goes by the URL: a node that registered again while the sweep was under way, and was
  heard of one second ago, is removed because its predecessor at that URL is silent.
\<close>

theorem sweep_removes_successor:
  "\<exists>s l. sweep_reach (s, Checking [(''NodeService'', nodeReg ''u2'' ''id2'')] l, []) \<and>
     nodeReg ''u2'' ''id4'' \<in> set (regsOf s ''NodeService'') \<and>
     LastHeartBeat (heartbeatServer s) ''id4'' = Some (25 * second) \<and>
     nodeReg ''u2'' ''id4'' \<notin> set (regsOf (checkOne d (\<lambda>_. 26 * second) l (''NodeService'', nodeReg ''u2'' ''id2'') s) ''NodeService'')"
proof -
  let ?l = "[''id1'' \<mapsto> 0, ''id2'' \<mapsto> 5] :: string \<rightharpoonup> time"
  have "inactive ?l (\<lambda>_. 26 * second) (nodeReg ''u2'' ''id2'')"
    by (simp add: inactive_def nodeReg_def second_def timeSub_gt_iff minInt64_def maxInt64_def)
  then have "regsOf (checkOne d (\<lambda>_. 26 * second) ?l (''NodeService'', nodeReg ''u2'' ''id2'') rejoined) ''NodeService'' =
      filter (\<lambda>r. ServiceURL r \<noteq> ''u2'') (regsOf rejoined ''NodeService'')"
    by (simp add: checkOne_def removeReg_regsOf(1) rejoined_eq nodeReg_def)
  then show ?thesis
    using rejoined_reach by (intro exI [of _ rejoined] exI [of _ ?l]) (simp add: rejoined_eq nodeReg_def)
qed

end
