(* ===== verification/Traffic_Check.thy ===== *)
theory Traffic_Check
  imports Prelude
begin

text \<open>
  Model of src/node/traffic_check.go: the check of the host's own traffic budget. The two files the
  check keeps are fields of \<open>traffic_host\<close>, with every command it runs appended to \<open>commands\<close>; the
  environment, the date, the lines of /proc/net/dev and whether files can be written are arguments.
  A division by zero and \<open>log.Fatal\<close> are outcomes: both end the process. \<open>checkTicks\<close> is the ticker of
  src/cmd/nodeservice/main.go that repeats the check.
\<close>

section \<open>Strings\<close>

definition isSpace :: "char \<Rightarrow> bool" where
  "isSpace c \<longleftrightarrow> (of_char c :: nat) \<in> {9, 10, 11, 12, 13, 32}"

text \<open>\<open>strings.Fields\<close>, with the field being read as accumulator.\<close>

fun fieldsLoop :: "string \<Rightarrow> string \<Rightarrow> string list" where
  "fieldsLoop [] cur = (if cur = [] then [] else [cur])"
| "fieldsLoop (c # cs) cur =
     (if isSpace c then (if cur = [] then fieldsLoop cs [] else cur # fieldsLoop cs [])
      else fieldsLoop cs (cur @ [c]))"

definition stringFields :: "string \<Rightarrow> string list" where
  "stringFields s = fieldsLoop s []"

definition trimSpace :: "string \<Rightarrow> string" where
  "trimSpace s = rev (dropWhile isSpace (rev (dropWhile isSpace s)))"

text \<open>Integer division of Go: it truncates towards zero, and wraps in the one case that overflows.\<close>

definition goDiv :: "int \<Rightarrow> int \<Rightarrow> int" where
  "goDiv a b = wrap64 (sgn a * sgn b * (\<bar>a\<bar> div \<bar>b\<bar>))"

section \<open>Model\<close>

record traffic_host =
  usageFile :: "string option"
  monthFile :: "string option"
  commands :: "string list list"

definition getEnvInt :: "(string \<Rightarrow> string) \<Rightarrow> string \<Rightarrow> int \<Rightarrow> int" where
  "getEnvInt env key defaultValue =
     (case parseInt (env key) of (val, err) \<Rightarrow> if err \<noteq> None then defaultValue else val)"

text \<open>The loop over the lines of /proc/net/dev, \<open>i\<close> counting them.\<close>

fun scanTraffic :: "nat \<Rightarrow> string list \<Rightarrow> int \<Rightarrow> int" where
  "scanTraffic i [] acc = acc"
| "scanTraffic i (line # rest) acc =
     (if i < 2 then scanTraffic (Suc i) rest acc
      else
        (let fs = stringFields line
         in if length fs < 10 then scanTraffic (Suc i) rest acc
            else
              (let recv = fst (parseInt (fs ! 1)); send = fst (parseInt (fs ! 9))
               in scanTraffic (Suc i) rest (wrap64 (acc + wrap64 (recv + send))))))"

definition getCurrentTrafficBytes :: "string list option \<Rightarrow> int option" where
  "getCurrentTrafficBytes netdev = (case netdev of None \<Rightarrow> None | Some lines \<Rightarrow> Some (scanTraffic 0 lines 0))"

definition readFileInt :: "string option \<Rightarrow> int" where
  "readFileInt file = (case file of None \<Rightarrow> -1 | Some text \<Rightarrow> fst (parseInt (trimSpace text)))"

definition writeFileInt :: "bool \<Rightarrow> int \<Rightarrow> string option \<Rightarrow> string option" where
  "writeFileInt writable val file = (if writable then Some (itoa val) else file)"

definition runCommand :: "string list \<Rightarrow> traffic_host \<Rightarrow> traffic_host" where
  "runCommand cmd h = h\<lparr>commands := commands h @ [cmd]\<rparr>"

definition blockAllExcept22 :: "traffic_host \<Rightarrow> traffic_host" where
  "blockAllExcept22 h =
     (let h1 = runCommand [''iptables'', ''-F''] h;
          h2 = runCommand [''iptables'', ''-P'', ''INPUT'', ''DROP''] h1;
          h3 = runCommand [''iptables'', ''-A'', ''INPUT'', ''-p'', ''tcp'', ''--dport'', ''22'', ''-j'', ''ACCEPT''] h2;
          h4 = runCommand [''iptables'', ''-A'', ''INPUT'', ''-i'', ''lo'', ''-j'', ''ACCEPT''] h3
      in runCommand [''iptables'', ''-A'', ''INPUT'', ''-m'', ''state'', ''--state'', ''ESTABLISHED,RELATED'', ''-j'', ''ACCEPT''] h4)"

definition RestoreFirewall :: "traffic_host \<Rightarrow> traffic_host" where
  "RestoreFirewall h =
     runCommand [''iptables'', ''-P'', ''INPUT'', ''ACCEPT''] (runCommand [''iptables'', ''-F''] h)"

record check_env =
  environ :: "string \<Rightarrow> string"
  curDay :: int
  curYear :: int
  curMon :: int
  netdev :: "string list option"
  writable :: bool

definition curMonth :: "check_env \<Rightarrow> int" where
  "curMonth e = wrap64 (curMon e + wrap64 (curYear e * 100))"

datatype check_outcome = Returned | Fatal | DivideByZero

definition measureUsage :: "check_env \<Rightarrow> int \<Rightarrow> int \<Rightarrow> traffic_host \<Rightarrow> traffic_host \<times> check_outcome" where
  "measureUsage e trafficLimitGB curTraffic h =
     (let start0 = readFileInt (usageFile h);
          fresh = (start0 = -1 \<or> curTraffic < start0);
          h1 = (if fresh
                then h\<lparr>usageFile := writeFileInt (writable e) curTraffic (usageFile h),
                       monthFile := writeFileInt (writable e) (curMonth e) (monthFile h)\<rparr>
                else h);
          startTraffic = (if fresh then curTraffic else start0);
          usedBytes = wrap64 (curTraffic - startTraffic);
          usedGB = goDiv usedBytes (1024 * 1024 * 1024)
      in if trafficLimitGB = 0 then (h1, DivideByZero)
         else if goDiv (wrap64 (usedGB * 100)) trafficLimitGB \<ge> 95 then (blockAllExcept22 h1, Returned)
         else (h1, Returned))"

definition CheckTriffic :: "check_env \<Rightarrow> traffic_host \<Rightarrow> traffic_host \<times> check_outcome" where
  "CheckTriffic e h =
     (let trafficLimitGB = getEnvInt (environ e) ''TRAFFIC_LIMIT_GB'' 10;
          resetDay = getEnvInt (environ e) ''CYCLE_RESET_DAY'' 1;
          lastMonth = readFileInt (monthFile h)
      in if curDay e = resetDay \<and> lastMonth \<noteq> curMonth e then
           (let h1 = RestoreFirewall h
            in (h1\<lparr>usageFile := writeFileInt (writable e) 0 (usageFile h1),
                  monthFile := writeFileInt (writable e) (curMonth e) (monthFile h1)\<rparr>, Returned))
         else
           (case getCurrentTrafficBytes (netdev e) of
              None \<Rightarrow> (h, Fatal)
            | Some curTraffic \<Rightarrow> measureUsage e trafficLimitGB curTraffic h))"

text \<open>The ticker in the main function of a node: \<open>log.Fatal\<close> and a panic in its goroutine end the process.\<close>

fun checkTicks :: "check_env list \<Rightarrow> traffic_host \<Rightarrow> traffic_host \<times> check_outcome" where
  "checkTicks [] h = (h, Returned)"
| "checkTicks (e # es) h =
     (case CheckTriffic e h of
        (h1, Returned) \<Rightarrow> checkTicks es h1
      | (h1, Fatal) \<Rightarrow> (h1, Fatal)
      | (h1, DivideByZero) \<Rightarrow> (h1, DivideByZero))"

section \<open>Specification\<close>

text \<open>The bytes at which a host is blocked: 95 percent of the limit, rounded up to whole gigabytes of
  2^30 bytes. With the default of 10 gigabytes that is all of them.\<close>

definition blockThreshold :: "int \<Rightarrow> int" where
  "blockThreshold limit = (95 * limit + 99) div 100 * 1073741824"

definition reachesLimit :: "int \<Rightarrow> int \<Rightarrow> check_env \<Rightarrow> bool" where
  "reachesLimit limit start e \<longleftrightarrow>
     (case getCurrentTrafficBytes (netdev e) of None \<Rightarrow> False | Some cur \<Rightarrow> blockThreshold limit \<le> cur - start)"

text \<open>The firewall of a blocked host: incoming packets are dropped except to port 22, on the loopback
  interface and of connections that exist.\<close>

definition blockRules :: "string list list" where
  "blockRules = map stringFields
     [''iptables -F'', ''iptables -P INPUT DROP'', ''iptables -A INPUT -p tcp --dport 22 -j ACCEPT'',
      ''iptables -A INPUT -i lo -j ACCEPT'', ''iptables -A INPUT -m state --state ESTABLISHED,RELATED -j ACCEPT'']"

section \<open>Lemmas\<close>

lemma blockAllExcept22_rules: "blockAllExcept22 h = h\<lparr>commands := commands h @ blockRules\<rparr>"
  by (simp add: blockRules_def blockAllExcept22_def runCommand_def Let_def stringFields_def isSpace_def)

lemma isDigit_not_space: "isDigit c \<Longrightarrow> \<not> isSpace c"
  by (auto simp: isDigit_def isSpace_def)

lemma itoa_no_space: "c \<in> set (itoa n) \<Longrightarrow> \<not> isSpace c"
  using natDigits_digits isDigit_not_space by (auto simp: itoa_def isSpace_def split: if_splits)

lemma trimSpace_id: "\<forall>c \<in> set s. \<not> isSpace c \<Longrightarrow> trimSpace s = s"
proof -
  assume s: "\<forall>c \<in> set s. \<not> isSpace c"
  have "dropWhile isSpace t = t" if "\<forall>c \<in> set t. \<not> isSpace c" for t using that by (cases t) auto
  from this [of s] this [of "rev s"] s show ?thesis by (simp add: trimSpace_def)
qed

lemma read_written: "inInt64 n \<Longrightarrow> readFileInt (writeFileInt True n f) = n"
  using itoa_no_space by (simp add: readFileInt_def writeFileInt_def trimSpace_id parseInt_itoa)

lemma fieldsLoop_word:
  "\<forall>c \<in> set w. \<not> isSpace c \<Longrightarrow> fieldsLoop (w @ rest) cur = fieldsLoop rest (cur @ w)"
  by (induction w arbitrary: cur) auto

lemma fields_words:
  assumes "\<forall>w \<in> set ws. w \<noteq> [] \<and> (\<forall>c \<in> set w. \<not> isSpace c)" "cur \<noteq> []"
  shows "fieldsLoop (concat (map (\<lambda>w. CHR '' '' # w) ws)) cur = cur # ws"
  using assms
proof (induction ws arbitrary: cur)
  case (Cons w ws)
  then have "fieldsLoop (w @ concat (map (\<lambda>w. CHR '' '' # w) ws)) [] = w # ws"
    by (subst fieldsLoop_word) auto
  with Cons.prems(2) show ?case by (simp add: isSpace_def)
qed simp

lemma goDiv_nonneg: "0 \<le> a \<Longrightarrow> a \<le> maxInt64 \<Longrightarrow> 0 < b \<Longrightarrow> goDiv a b = a div b"
proof -
  assume a: "0 \<le> a" "a \<le> maxInt64" and b: "0 < b"
  have "sgn a * sgn b * (\<bar>a\<bar> div \<bar>b\<bar>) = a div b" using a(1) b by (cases "a = 0") simp_all
  moreover have "a div b \<le> a" using zdiv_mono2 [of a 1 b] a(1) b by simp
  moreover have "0 \<le> a div b" using a(1) b by (simp add: pos_imp_zdiv_nonneg_iff)
  ultimately show ?thesis using a by (simp add: goDiv_def wrap64_id inInt64_def minInt64_def)
qed

lemma le_div_iff_mult_le: "0 < b \<Longrightarrow> c \<le> a div b \<longleftrightarrow> c * b \<le> (a :: int)"
proof
  assume b: "0 < b" and "c \<le> a div b"
  then have "c * b \<le> a div b * b" by (simp add: mult_right_mono)
  also have "\<dots> \<le> a" using pos_mod_sign [OF b, of a] by (simp add: minus_mod_eq_div_mult [symmetric])
  finally show "c * b \<le> a" .
next
  assume b: "0 < b" and "c * b \<le> a"
  then show "c \<le> a div b" using zdiv_mono1 [of "c * b" a b] by simp
qed

text \<open>The percentage, where nothing overflows.\<close>

lemma percent_exact:
  assumes "0 \<le> used" "used \<le> maxInt64" "0 < limit"
  shows "goDiv (wrap64 (goDiv used (1024 * 1024 * 1024) * 100)) limit \<ge> 95 \<longleftrightarrow>
    95 * limit \<le> used div (1024 * 1024 * 1024) * 100"
proof -
  let ?gb = "used div (1024 * 1024 * 1024)"
  have gb: "goDiv used (1024 * 1024 * 1024) = ?gb" using goDiv_nonneg [OF assms(1,2)] by simp
  have "0 \<le> ?gb" "?gb \<le> 8589934592" using assms(1,2) by (simp_all add: maxInt64_def pos_imp_zdiv_nonneg_iff)
  then have range: "0 \<le> ?gb * 100" "?gb * 100 \<le> maxInt64" by (simp_all add: maxInt64_def)
  then have "wrap64 (?gb * 100) = ?gb * 100" by (simp add: wrap64_id inInt64_def minInt64_def)
  then have "goDiv (wrap64 (?gb * 100)) limit = ?gb * 100 div limit" using goDiv_nonneg [OF range assms(3)] by simp
  moreover have "95 \<le> ?gb * 100 div limit \<longleftrightarrow> 95 * limit \<le> ?gb * 100"
    using le_div_iff_mult_le [OF assms(3)] by simp
  ultimately show ?thesis by (simp only: gb)
qed

lemma measureUsage_started:
  assumes "readFileInt (usageFile h) = start" "0 \<le> start" "start \<le> cur" "cur \<le> maxInt64" "0 < limit"
  shows "measureUsage e limit cur h =
    (if 95 * limit \<le> (cur - start) div (1024 * 1024 * 1024) * 100 then (blockAllExcept22 h, Returned) else (h, Returned))"
proof -
  have range: "0 \<le> cur - start" "cur - start \<le> maxInt64" using assms(2-4) by auto
  then have "wrap64 (cur - start) = cur - start" by (simp add: wrap64_id inInt64_def minInt64_def)
  with percent_exact [OF range assms(5)] assms(1-3,5) show ?thesis by (simp add: measureUsage_def Let_def)
qed

lemma blockThreshold_iff: "95 * limit \<le> used div (1024 * 1024 * 1024) * 100 \<longleftrightarrow> blockThreshold limit \<le> used"
proof -
  have "95 * limit \<le> used div 1073741824 * 100 \<longleftrightarrow> (95 * limit + 99) div 100 \<le> used div 1073741824" by linarith
  then show ?thesis using le_div_iff_mult_le [of 1073741824 "(95 * limit + 99) div 100" used]
    by (simp add: blockThreshold_def)
qed

section \<open>Properties\<close>

text \<open>
  On a day without a reset, with a recorded start that is not above the counter and a positive
  limit, a check blocks the host exactly when the whole gigabytes used since the recorded start
  reach 95 percent of the limit, and otherwise changes nothing; no arithmetic overflows.
\<close>

theorem check_blocks_iff:
  assumes "curDay e \<noteq> getEnvInt (environ e) ''CYCLE_RESET_DAY'' 1 \<or> readFileInt (monthFile h) = curMonth e"
    and "getCurrentTrafficBytes (netdev e) = Some cur" "readFileInt (usageFile h) = start"
    and "0 \<le> start" "start \<le> cur" "cur \<le> maxInt64"
    and "limit = getEnvInt (environ e) ''TRAFFIC_LIMIT_GB'' 10" "0 < limit"
  shows "CheckTriffic e h =
    (if 95 * limit \<le> (cur - start) div (1024 * 1024 * 1024) * 100 then (blockAllExcept22 h, Returned) else (h, Returned))"
  using assms(1,2) measureUsage_started [OF assms(3-6,8), of e] by (auto simp: CheckTriffic_def assms(7) Let_def)

lemmas check_threshold = check_blocks_iff [unfolded blockThreshold_iff]

text \<open>
  C38: within a cycle the ticker blocks the host at the first check that finds the threshold reached, 95
  percent of the limit rounded up to whole gigabytes, and leaves it blocked. However many checks are
  made on days without a reset, with a recorded start and a counter that does not fall below it, none
  ends the process, the files stay, and the commands run are the blocking rules once for each check
  that finds at least the threshold used since the start: none is run before, and nothing lifts the
  block. (The comment on the function speaks of usage that exceeds the limit.)
\<close>

theorem cycle_blocks_exactly:
  assumes "readFileInt (usageFile h) = start" "0 \<le> start" "0 < limit"
    and "\<forall>e \<in> set es. (curDay e \<noteq> getEnvInt (environ e) ''CYCLE_RESET_DAY'' 1 \<or> readFileInt (monthFile h) = curMonth e) \<and>
      getEnvInt (environ e) ''TRAFFIC_LIMIT_GB'' 10 = limit \<and>
      (\<exists>cur. getCurrentTrafficBytes (netdev e) = Some cur \<and> start \<le> cur \<and> cur \<le> maxInt64)"
  shows "checkTicks es h =
    (h\<lparr>commands := commands h @ concat (replicate (length (filter (reachesLimit limit start) es)) blockRules)\<rparr>, Returned)"
  using assms(1,4)
proof (induction es arbitrary: h)
  case (Cons e es)
  then obtain cur where cur: "getCurrentTrafficBytes (netdev e) = Some cur" "start \<le> cur" "cur \<le> maxInt64" by auto
  have "CheckTriffic e h = (if reachesLimit limit start e then (blockAllExcept22 h, Returned) else (h, Returned))"
    using check_threshold [OF _ cur(1) Cons.prems(1) assms(2) cur(2,3), of limit] Cons.prems(2) assms(3) cur(1)
    by (simp add: reachesLimit_def)
  with Cons.IH [of h] Cons.IH [of "blockAllExcept22 h"] Cons.prems show ?case
    by (simp add: blockAllExcept22_rules)
qed simp

text \<open>
  With the default limit of 10 gigabytes a host that has used 9.5 of them, which is 95 percent, is not
  blocked: only whole gigabytes count, and 9 of 10 are 90 percent.
\<close>

theorem default_limit_not_blocked_at_95:
  assumes "curDay e \<noteq> getEnvInt (environ e) ''CYCLE_RESET_DAY'' 1" "environ e ''TRAFFIC_LIMIT_GB'' = []"
    and "getCurrentTrafficBytes (netdev e) = Some cur" "readFileInt (usageFile h) = start"
    and "0 \<le> start" "start \<le> cur" "cur \<le> maxInt64" "cur - start < 10 * 1073741824"
  shows "CheckTriffic e h = (h, Returned)"
proof -
  have limit: "getEnvInt (environ e) ''TRAFFIC_LIMIT_GB'' 10 = 10" using assms(2) by (simp add: getEnvInt_def parse_eval)
  have "\<not> blockThreshold 10 \<le> cur - start" using assms(8) by (simp add: blockThreshold_def)
  then show ?thesis
    using check_threshold [OF _ assms(3-7), of 10] assms(1) limit by simp
qed

text \<open>
  Without a recorded start, or after the counter went back (a reboot), a check records the
  counter as the new start and does not block: the traffic before is forgotten.
\<close>

theorem check_restarts_count:
  assumes "curDay e \<noteq> getEnvInt (environ e) ''CYCLE_RESET_DAY'' 1"
    and "getCurrentTrafficBytes (netdev e) = Some cur" "inInt64 cur" "writable e"
    and "usageFile h = None \<or> cur < readFileInt (usageFile h)"
    and "0 < getEnvInt (environ e) ''TRAFFIC_LIMIT_GB'' 10"
  shows "\<exists>h'. CheckTriffic e h = (h', Returned) \<and> readFileInt (usageFile h') = cur \<and> commands h' = commands h"
proof -
  have fresh: "readFileInt (usageFile h) = -1 \<or> cur < readFileInt (usageFile h)"
    using assms(5) by (auto simp: readFileInt_def)
  have "wrap64 0 = 0" "goDiv 0 b = 0" for b by (simp_all add: goDiv_def wrap64_def)
  with fresh assms(1,2,6) read_written [OF assms(3)] assms(4) show ?thesis
    by (auto simp: CheckTriffic_def measureUsage_def Let_def)
qed

text \<open>
  The monthly reset does not restart the count. It records 0, while the kernel's counter keeps
  running from boot, so the next check charges the new cycle with all traffic since boot: a host
  whose counter is past 95 percent of the limit is blocked again at once.
\<close>

theorem reset_charges_since_boot:
  assumes "curDay e = getEnvInt (environ e) ''CYCLE_RESET_DAY'' 1" "readFileInt (monthFile h) \<noteq> curMonth e" "writable e"
    and "environ e' = environ e" "curMonth e' = curMonth e"
    and "getCurrentTrafficBytes (netdev e') = Some cur" "0 \<le> cur" "cur \<le> maxInt64"
    and "limit = getEnvInt (environ e) ''TRAFFIC_LIMIT_GB'' 10" "0 < limit"
  shows "\<exists>h1. CheckTriffic e h = (h1, Returned) \<and>
    commands h1 = commands h @ [[''iptables'', ''-F''], [''iptables'', ''-P'', ''INPUT'', ''ACCEPT'']] \<and>
    CheckTriffic e' h1 =
      (if 95 * limit \<le> cur div (1024 * 1024 * 1024) * 100 then (blockAllExcept22 h1, Returned) else (h1, Returned))"
proof -
  let ?h1 = "(RestoreFirewall h)\<lparr>usageFile := writeFileInt True 0 (usageFile h),
      monthFile := writeFileInt True (curMonth e) (monthFile h)\<rparr>"
  have reset: "CheckTriffic e h = (?h1, Returned)"
    using assms(1-3) by (simp add: CheckTriffic_def Let_def RestoreFirewall_def runCommand_def)
  have zero: "readFileInt (usageFile ?h1) = 0"
    using read_written [of 0] by (simp add: inInt64_def minInt64_def maxInt64_def)
  have month: "readFileInt (monthFile ?h1) = curMonth e'"
    using read_written [of "curMonth e" "monthFile h"] assms(5) by (simp add: curMonth_def)
  have "CheckTriffic e' ?h1 = measureUsage e' limit cur ?h1"
    using month assms(4,6,9) by (simp add: CheckTriffic_def Let_def)
  with measureUsage_started [OF zero _ assms(7,8,10), of e'] reset show ?thesis
    by (simp add: RestoreFirewall_def runCommand_def)
qed

text \<open>
  A limit of 0 gigabytes is no limit at all: outside a reset the check divides by it, and the
  panic ends the node's process.
\<close>

theorem zero_limit_crashes:
  assumes "curDay e \<noteq> getEnvInt (environ e) ''CYCLE_RESET_DAY'' 1" "netdev e \<noteq> None"
    and "environ e ''TRAFFIC_LIMIT_GB'' = ''0''"
  shows "snd (CheckTriffic e h) = DivideByZero"
proof -
  have "getEnvInt (environ e) ''TRAFFIC_LIMIT_GB'' 10 = 0" using assms(3) by (simp add: getEnvInt_def parse_eval)
  then show ?thesis using assms(1,2) by (auto simp: CheckTriffic_def measureUsage_def getCurrentTrafficBytes_def Let_def)
qed

text \<open>A line of /proc/net/dev as the kernel prints it, with single blanks.\<close>

definition netLine :: "string \<Rightarrow> int list \<Rightarrow> string" where
  "netLine name counters = name @ '':'' @ concat (map (\<lambda>n. CHR '' '' # itoa n) counters)"

lemma fields_netLine:
  assumes "\<forall>c \<in> set name. \<not> isSpace c"
  shows "stringFields (netLine name counters) = (name @ '':'') # map itoa counters"
proof -
  have "fieldsLoop ((name @ '':'') @ concat (map (\<lambda>w. CHR '' '' # w) (map itoa counters))) [] =
      fieldsLoop (concat (map (\<lambda>w. CHR '' '' # w) (map itoa counters))) (name @ '':'')"
    using assms by (subst fieldsLoop_word) (auto simp: isSpace_def)
  also have "\<dots> = (name @ '':'') # map itoa counters"
    by (rule fields_words) (auto simp: itoa_nonempty itoa_no_space)
  finally show ?thesis by (simp add: stringFields_def netLine_def comp_def)
qed

lemma getCurrentTrafficBytes_sum:
  assumes "\<forall>(name, counters) \<in> set ifs. (\<forall>c \<in> set name. \<not> isSpace c) \<and> length counters = 16 \<and> (\<forall>n \<in> set counters. inInt64 n)"
  shows "getCurrentTrafficBytes (Some ([header1, header2] @ map (\<lambda>(name, counters). netLine name counters) ifs)) =
    Some (wrap64 (sum_list (map (\<lambda>(name, counters). counters ! 0 + counters ! 8) ifs)))"
proof -
  have "scanTraffic (Suc (Suc i)) (map (\<lambda>(name, counters). netLine name counters) ifs) (wrap64 acc) =
      wrap64 (acc + sum_list (map (\<lambda>(name, counters). counters ! 0 + counters ! 8) ifs))" for i acc
    using assms
  proof (induction ifs arbitrary: i acc)
    case (Cons p ifs)
    obtain name counters where p: "p = (name, counters)" by fastforce
    have c: "\<forall>c \<in> set name. \<not> isSpace c" "length counters = 16" "inInt64 (counters ! 0)" "inInt64 (counters ! 8)"
      using Cons.prems by (auto simp: p)
    have add: "wrap64 (wrap64 acc + wrap64 (counters ! 0 + counters ! 8)) = wrap64 (acc + (counters ! 0 + counters ! 8))"
      by (metis add.commute wrap64_wrap64_add)
    have "scanTraffic (Suc (Suc i)) (map (\<lambda>(name, counters). netLine name counters) (p # ifs)) (wrap64 acc) =
        scanTraffic (Suc (Suc (Suc i))) (map (\<lambda>(name, counters). netLine name counters) ifs) (wrap64 (acc + (counters ! 0 + counters ! 8)))"
      using c by (simp add: p fields_netLine parseInt_itoa add)
    with Cons show ?case by (simp add: p add.assoc)
  qed simp
  from this [of 0 0] show ?thesis by (simp add: getCurrentTrafficBytes_def wrap64_def eval_nat_numeral)
qed

text \<open>
  Reading /proc/net/dev adds up the received and the sent bytes (the first and the ninth counter)
  of every interface line, modulo 64-bit wrap-around.
\<close>

theorem traffic_sums_interfaces:
  assumes "\<forall>(name, counters) \<in> set ifs. (\<forall>c \<in> set name. \<not> isSpace c) \<and> length counters = 16 \<and> (\<forall>n \<in> set counters. inInt64 n)"
  shows "getCurrentTrafficBytes (Some ([header1, header2] @ map (\<lambda>(name, counters). netLine name counters) ifs)) =
    Some (wrap64 (sum_list (map (\<lambda>(name, counters). counters ! 0 + counters ! 8) ifs)))"
  by (rule getCurrentTrafficBytes_sum [OF assms])

section \<open>Concrete runs\<close>

definition demoCheck :: "int \<Rightarrow> int \<Rightarrow> check_env" where
  "demoCheck day cur = \<lparr>environ = (\<lambda>_. []), curDay = day, curYear = 2024, curMon = 6,
     netdev = Some ([''h1'', ''h2''] @ map (\<lambda>(name, counters). netLine name counters) [(''eth0'', cur # replicate 15 0)]), writable = True\<rparr>"

definition demoHostFiles :: "int \<Rightarrow> traffic_host" where
  "demoHostFiles start = \<lparr>usageFile = Some (itoa start), monthFile = Some ''202405'', commands = []\<rparr>"

lemma demoCheck_traffic: "inInt64 cur \<Longrightarrow> getCurrentTrafficBytes (netdev (demoCheck day cur)) = Some cur"
  unfolding demoCheck_def check_env.simps
  by (subst getCurrentTrafficBytes_sum) (auto simp: isSpace_def wrap64_id inInt64_def minInt64_def maxInt64_def)

lemma demoHostFiles_start: "inInt64 start \<Longrightarrow> readFileInt (usageFile (demoHostFiles start)) = start"
  using itoa_no_space by (simp add: readFileInt_def demoHostFiles_def trimSpace_id parseInt_itoa)

lemma demo_env: "getEnvInt (environ (demoCheck day cur)) k n = n"
  by (simp add: getEnvInt_def demoCheck_def parse_eval)

lemma demo_fields:
  "curDay (demoCheck day cur) = day" "writable (demoCheck day cur)" "curMonth (demoCheck day cur) = 202406"
  "readFileInt (monthFile (demoHostFiles start)) = 202405" "commands (demoHostFiles start) = []"
  by (simp_all add: demoCheck_def demoHostFiles_def curMonth_def wrap64_def readFileInt_def trimSpace_def isSpace_def parse_eval)

lemmas demo_simps = demo_env demoCheck_traffic demoHostFiles_start inInt64_def minInt64_def maxInt64_def

text \<open>10 gigabytes used of the default limit of 10: blocked.\<close>

theorem check_blocks_iff_witness:
  "CheckTriffic (demoCheck 7 10738000000) (demoHostFiles 100) = (blockAllExcept22 (demoHostFiles 100), Returned)"
  using check_blocks_iff [where e = "demoCheck 7 10738000000" and h = "demoHostFiles 100" and cur = 10738000000 and
      start = 100 and limit = 10]
  by (simp add: demo_simps demo_fields)

text \<open>Three checks: 1 gigabyte, then 10 and 11 gigabytes used of 10.\<close>

theorem cycle_blocks_exactly_witness:
  "checkTicks [demoCheck 7 1073742000, demoCheck 7 10738000000, demoCheck 8 12000000000] (demoHostFiles 100) =
   ((demoHostFiles 100)\<lparr>commands := blockRules @ blockRules\<rparr>, Returned)"
  using cycle_blocks_exactly [where es = "[demoCheck 7 1073742000, demoCheck 7 10738000000, demoCheck 8 12000000000]" and
      h = "demoHostFiles 100" and start = 100 and limit = 10]
  by (simp add: demo_simps demo_fields reachesLimit_def blockThreshold_def)

theorem default_limit_not_blocked_at_95_witness:
  "CheckTriffic (demoCheck 7 10200547428) (demoHostFiles 100) = (demoHostFiles 100, Returned)"
  by (rule default_limit_not_blocked_at_95 [where cur = 10200547428 and start = 100])
    (simp_all add: demo_simps demo_fields, simp add: demoCheck_def)

theorem check_restarts_count_witness:
  "\<exists>h'. CheckTriffic (demoCheck 7 50) (demoHostFiles 100) = (h', Returned) \<and> readFileInt (usageFile h') = 50 \<and> commands h' = []"
  using check_restarts_count [where e = "demoCheck 7 50" and h = "demoHostFiles 100" and cur = 50]
  by (simp add: demo_simps demo_fields)

theorem reset_charges_since_boot_witness:
  "\<exists>h1. CheckTriffic (demoCheck 1 10738000000) (demoHostFiles 10738000000) = (h1, Returned) \<and>
     CheckTriffic (demoCheck 1 10738000000) h1 = (blockAllExcept22 h1, Returned)"
  using reset_charges_since_boot [where e = "demoCheck 1 10738000000" and e' = "demoCheck 1 10738000000" and
      h = "demoHostFiles 10738000000" and cur = 10738000000 and limit = 10]
  by (auto simp: demo_simps demo_fields)

theorem zero_limit_crashes_witness:
  "snd (CheckTriffic ((demoCheck 7 50)\<lparr>environ := (\<lambda>k. if k = ''TRAFFIC_LIMIT_GB'' then ''0'' else [])\<rparr>) (demoHostFiles 100)) = DivideByZero"
  by (rule zero_limit_crashes) (simp_all add: demoCheck_def getEnvInt_def parse_eval)

theorem traffic_sums_interfaces_witness:
  "getCurrentTrafficBytes (Some ([''h1'', ''h2''] @ map (\<lambda>(name, counters). netLine name counters)
     [(''lo'', 5 # replicate 15 1), (''eth0'', 7 # replicate 15 2)])) = Some (wrap64 15)"
  by (subst traffic_sums_interfaces) (auto simp: isSpace_def inInt64_def minInt64_def maxInt64_def eval_nat_numeral)

end
