(* ===== verification/Interval_Set.thy ===== *)
theory Interval_Set
  imports Prelude
begin

text \<open>
  Model of src/payment/order/interval_set.go: the set of amounts already handed out, kept as a
  sorted slice of disjoint, non-adjacent closed intervals and searched by \<open>sort.Search\<close>.
  \<open>members\<close> is the set of integers a slice denotes and \<open>wfIntervals\<close> the representation
  invariant. The locale \<open>amount_allocator\<close> is the contract the order service relies on; it is
  interpreted on the functions below.
\<close>

section \<open>Model\<close>

record Interval =
  istart :: int
  iend :: int

record IntervalSet =
  intervals :: "Interval list"

definition NewIntervalSet :: IntervalSet where
  "NewIntervalSet = \<lparr>intervals = []\<rparr>"

text \<open>The slice is extended by one zero element, its tail is shifted right by \<open>copy\<close> and the
  value is stored in the gap.\<close>

definition insertInterval :: "Interval list \<Rightarrow> Interval \<Rightarrow> Interval list" where
  "insertInterval arr val =
     (let pos = sortSearch (length arr) (\<lambda>i. istart (arr ! i) > istart val);
          ext = arr @ [\<lparr>istart = 0, iend = 0\<rparr>];
          shifted = take (pos + 1) ext @ take (length ext - (pos + 1)) (drop pos ext)
      in shifted[pos := val])"

definition Add :: "IntervalSet \<Rightarrow> int \<Rightarrow> IntervalSet" where
  "Add s x =
     (let ivs = intervals s;
          pos = sortSearch (length ivs) (\<lambda>i. istart (ivs ! i) > x);
          mergeLeft = (pos > 0 \<and> wrap64 (iend (ivs ! (pos - 1)) + 1) \<ge> x);
          mergeRight = (pos < length ivs \<and> wrap64 (istart (ivs ! pos) - 1) \<le> x)
      in if mergeLeft \<and> mergeRight then
           (let left = ivs ! (pos - 1);
                right = ivs ! pos;
                newInterval = \<lparr>istart = istart left, iend = max (iend right) x\<rparr>
            in s\<lparr>intervals := insertInterval (take (pos - 1) ivs @ drop (pos + 1) ivs) newInterval\<rparr>)
         else if mergeLeft then
           (let left = ivs ! (pos - 1);
                newInterval = \<lparr>istart = istart left, iend = max (iend left) x\<rparr>
            in s\<lparr>intervals := insertInterval (take (pos - 1) ivs @ drop pos ivs) newInterval\<rparr>)
         else if mergeRight then
           (let right = ivs ! pos;
                newInterval = \<lparr>istart = min (istart right) x, iend = iend right\<rparr>
            in s\<lparr>intervals := insertInterval (take pos ivs @ drop (pos + 1) ivs) newInterval\<rparr>)
         else s\<lparr>intervals := insertInterval ivs \<lparr>istart = x, iend = x\<rparr>\<rparr>)"

definition NextMissing :: "IntervalSet \<Rightarrow> int \<Rightarrow> int" where
  "NextMissing s x =
     (let ivs = intervals s;
          pos = sortSearch (length ivs) (\<lambda>i. istart (ivs ! i) > x)
      in if pos > 0 \<and> x \<ge> istart (ivs ! (pos - 1)) \<and> x \<le> iend (ivs ! (pos - 1))
         then wrap64 (iend (ivs ! (pos - 1)) + 1)
         else x)"

section \<open>Specification\<close>

definition ivSet :: "Interval \<Rightarrow> int set" where
  "ivSet i = {istart i..iend i}"

definition members :: "IntervalSet \<Rightarrow> int set" where
  "members s = (\<Union>i\<in>set (intervals s). ivSet i)"

definition separated :: "Interval \<Rightarrow> Interval \<Rightarrow> bool" where
  "separated a b \<longleftrightarrow> iend a + 1 < istart b"

definition wfInterval :: "Interval \<Rightarrow> bool" where
  "wfInterval i \<longleftrightarrow> minInt64 \<le> istart i \<and> istart i \<le> iend i \<and> iend i < maxInt64"

definition wfIntervals :: "IntervalSet \<Rightarrow> bool" where
  "wfIntervals s \<longleftrightarrow> sorted_wrt separated (intervals s) \<and> (\<forall>i\<in>set (intervals s). wfInterval i)"

text \<open>The contract of a set of handed-out amounts: \<open>nextFree s x\<close> is the least amount from \<open>x\<close>
  on that is not in \<open>s\<close>. The capacity \<open>cap\<close> bounds the amounts that may be added.\<close>

locale amount_allocator =
  fixes fresh :: "'s"
    and take1 :: "'s \<Rightarrow> int \<Rightarrow> 's"
    and nextFree :: "'s \<Rightarrow> int \<Rightarrow> int"
    and invar :: "'s \<Rightarrow> bool"
    and taken :: "'s \<Rightarrow> int set"
    and floor0 :: int
    and cap :: int
  assumes fresh_invar: "invar fresh"
    and fresh_taken: "taken fresh = {}"
    and take1_invar: "invar s \<Longrightarrow> floor0 \<le> x \<Longrightarrow> x < cap \<Longrightarrow> invar (take1 s x)"
    and take1_taken: "invar s \<Longrightarrow> floor0 \<le> x \<Longrightarrow> x < cap \<Longrightarrow> taken (take1 s x) = insert x (taken s)"
    and taken_finite: "invar s \<Longrightarrow> finite (taken s)"
    and nextFree_ge: "invar s \<Longrightarrow> x \<le> nextFree s x"
    and nextFree_free: "invar s \<Longrightarrow> nextFree s x \<notin> taken s"
    and nextFree_least: "invar s \<Longrightarrow> x \<le> z \<Longrightarrow> z < nextFree s x \<Longrightarrow> z \<in> taken s"
begin

lemma nextFree_id: "invar s \<Longrightarrow> x \<notin> taken s \<Longrightarrow> nextFree s x = x"
  using nextFree_ge [of s x] nextFree_least [of s x x] by force

text \<open>The surplus over the requested amount is at most the number of amounts handed out.\<close>

lemma nextFree_bound: "invar s \<Longrightarrow> nextFree s x \<le> x + int (card (taken s))"
proof -
  assume s: "invar s"
  have "{x..<nextFree s x} \<subseteq> taken s" using nextFree_least [OF s] by auto
  then have "card {x..<nextFree s x} \<le> card (taken s)"
    using taken_finite [OF s] by (rule card_mono [rotated])
  then show ?thesis by simp
qed

lemma alloc_taken:
  "invar s \<Longrightarrow> floor0 \<le> x \<Longrightarrow> nextFree s x < cap \<Longrightarrow>
   invar (take1 s (nextFree s x)) \<and> taken (take1 s (nextFree s x)) = insert (nextFree s x) (taken s) \<and>
   card (taken (take1 s (nextFree s x))) = Suc (card (taken s))"
  using nextFree_ge [of s x] nextFree_free [of s x]
  by (simp add: take1_invar take1_taken taken_finite)

end

section \<open>Lemmas\<close>

lemma wf_sorted:
  assumes "sorted_wrt separated ivs" "\<forall>i\<in>set ivs. wfInterval i"
  shows "sorted (map istart ivs)"
proof -
  have "sorted_wrt (\<lambda>a b. istart a \<le> istart b) ivs"
    by (rule sorted_wrt_mono_rel [OF _ assms(1)])
      (use assms(2) in \<open>fastforce simp: separated_def wfInterval_def\<close>)
  then show ?thesis by (simp add: sorted_wrt_map)
qed

text \<open>Where the search splits a slice: the intervals that start up to \<open>x\<close> and the rest.\<close>

lemma search_split:
  assumes "sorted (map istart (L @ R))" "\<forall>i\<in>set L. istart i \<le> x" "\<forall>i\<in>set R. istart i > x"
  shows "sortSearch (length (L @ R)) (\<lambda>i. istart ((L @ R) ! i) > x) = length L"
proof -
  have "takeWhile (\<lambda>i. istart i \<le> x) (L @ R) = L"
    using assms(2,3) by (cases R) (auto simp: takeWhile_append)
  then show ?thesis using sortSearch_sorted [OF assms(1), of x] by simp
qed

lemma insertInterval_split:
  assumes "sorted (map istart (L @ R))" "\<forall>i\<in>set L. istart i \<le> istart v" "\<forall>i\<in>set R. istart i > istart v"
  shows "insertInterval (L @ R) v = L @ v # R"
proof -
  have "take (Suc (length L)) (L @ R @ [z]) @ take (length R) (R @ [z]) =
      (L @ [hd (R @ [z])]) @ R" for z
    by (cases R) simp_all
  then show ?thesis
    using search_split [OF assms(1), of "istart v"] assms(2,3)
    by (simp add: insertInterval_def Let_def list_update_append)
qed

text \<open>Every well-formed set splits at \<open>x\<close>; these are the four shapes \<open>Add\<close> distinguishes.\<close>

lemma split_at:
  assumes "wfIntervals s"
  obtains L R where "intervals s = L @ R" "\<forall>i\<in>set L. istart i \<le> x" "\<forall>i\<in>set R. istart i > x"
    "sorted (map istart (L @ R))"
proof -
  have sorted: "sorted (map istart (intervals s))"
    using assms by (auto simp: wfIntervals_def intro: wf_sorted)
  let ?L = "takeWhile (\<lambda>i. istart i \<le> x) (intervals s)"
  let ?R = "dropWhile (\<lambda>i. istart i \<le> x) (intervals s)"
  have "\<forall>i\<in>set ?R. istart i > x"
  proof (cases ?R)
    case (Cons r R')
    then have "istart r > x" using hd_dropWhile [of "\<lambda>i. istart i \<le> x" "intervals s"] by simp
    moreover have "sorted (map istart ?R)" using sorted by (metis sorted_wrt_dropWhile sorted_map)
    ultimately show ?thesis using Cons by auto
  next
    case Nil
    then show ?thesis by (simp only: Nil) simp
  qed
  then show ?thesis using that [of ?L ?R] sorted set_takeWhileD by fastforce
qed

lemma insertInterval_pieces:
  assumes "sorted (map istart (L @ R))" "A = L \<or> A = butlast L" "B = R \<or> B = tl R"
    and "\<forall>i\<in>set A. istart i \<le> istart v" "\<forall>i\<in>set B. istart i > istart v"
  shows "insertInterval (A @ B) v = A @ v # B"
proof (rule insertInterval_split [OF _ assms(4,5)])
  have "sorted (map istart A)" "sorted (map istart B)"
    using assms(1-3) by (auto simp: sorted_append map_butlast map_tl sorted_butlast sorted_tl)
  moreover have "set A \<subseteq> set L" "set B \<subseteq> set R"
    using assms(2,3) by (auto dest: in_set_butlastD in_set_tlD)
  ultimately show "sorted (map istart (A @ B))" using assms(1) by (fastforce simp: sorted_append)
qed

lemma sorted_before_last:
  assumes "sorted (map istart (L @ R))" "\<forall>i\<in>set L. istart i \<le> x" "L \<noteq> []"
  shows "(\<forall>i\<in>set (butlast L). istart i \<le> istart (last L)) \<and> istart (last L) \<le> x"
proof -
  obtain L' l where L': "L = L' @ [l]" using assms(3) by (cases L rule: rev_cases) auto
  with assms(1,2) show ?thesis by (simp add: sorted_append)
qed

text \<open>The two tests of \<open>Add\<close> do not wrap on a well-formed set.\<close>

lemma merge_tests:
  assumes "\<forall>i\<in>set (L @ R). wfInterval i" "minInt64 \<le> x" "\<forall>i\<in>set R. istart i > x"
  shows "(0 < length L \<and> x \<le> wrap64 (iend ((L @ R) ! (length L - 1)) + 1)) = (L \<noteq> [] \<and> x \<le> iend (last L) + 1)"
    and "(length L < length (L @ R) \<and> wrap64 (istart ((L @ R) ! length L) - 1) \<le> x) = (R \<noteq> [] \<and> istart (hd R) = x + 1)"
proof -
  have idx: "L \<noteq> [] \<Longrightarrow> (L @ R) ! (length L - 1) = last L" "R \<noteq> [] \<Longrightarrow> (L @ R) ! length L = hd R"
    by (simp_all add: nth_append last_conv_nth hd_conv_nth)
  have "L \<noteq> [] \<Longrightarrow> wfInterval (last L)" using assms(1) by simp
  then have "L \<noteq> [] \<Longrightarrow> inInt64 (iend (last L) + 1)" by (auto simp: wfInterval_def inInt64_def)
  then show "(0 < length L \<and> x \<le> wrap64 (iend ((L @ R) ! (length L - 1)) + 1)) = (L \<noteq> [] \<and> x \<le> iend (last L) + 1)"
    using idx(1) wrap64_id by auto
  have gt: "R \<noteq> [] \<Longrightarrow> x < istart (hd R)" using assms(3) by simp
  moreover have "R \<noteq> [] \<Longrightarrow> wfInterval (hd R)" using assms(1) by simp
  ultimately have "R \<noteq> [] \<Longrightarrow> inInt64 (istart (hd R) - 1)" using assms(2) by (auto simp: wfInterval_def inInt64_def)
  then show "(length L < length (L @ R) \<and> wrap64 (istart ((L @ R) ! length L) - 1) \<le> x) = (R \<noteq> [] \<and> istart (hd R) = x + 1)"
    using idx(2) gt wrap64_id by auto
qed

lemma Add_shapes:
  assumes split: "intervals s = L @ R" "\<forall>i\<in>set L. istart i \<le> x" "\<forall>i\<in>set R. istart i > x"
    and wf: "wfIntervals s" and x: "minInt64 \<le> x"
  defines "l \<equiv> last L" and "r \<equiv> hd R"
  defines "mergeLeft \<equiv> L \<noteq> [] \<and> x \<le> iend l + 1" and "mergeRight \<equiv> R \<noteq> [] \<and> istart r = x + 1"
  shows "intervals (Add s x) =
     (if mergeLeft \<and> mergeRight then butlast L @ \<lparr>istart = istart l, iend = max (iend r) x\<rparr> # tl R
      else if mergeLeft then butlast L @ \<lparr>istart = istart l, iend = max (iend l) x\<rparr> # R
      else if mergeRight then L @ \<lparr>istart = x, iend = iend r\<rparr> # tl R
      else L @ \<lparr>istart = x, iend = x\<rparr> # R)"
proof -
  have sorted: "sorted (map istart (L @ R))"
    using wf split(1) wf_sorted by (metis wfIntervals_def)
  note pos = search_split [OF sorted split(2,3)] and ins = insertInterval_pieces [OF sorted]
  have idx: "L \<noteq> [] \<Longrightarrow> (L @ R) ! (length L - 1) = l" "R \<noteq> [] \<Longrightarrow> (L @ R) ! length L = r"
    by (simp_all add: l_def r_def nth_append last_conv_nth hd_conv_nth)
  have cut: "take (length L - 1) (L @ R) = butlast L" "drop (length L + 1) (L @ R) = tl R"
    "drop (length L) (L @ R) = R" "take (length L) (L @ R) = L"
    by (simp_all add: butlast_conv_take drop_Suc)
  have "\<forall>i\<in>set (L @ R). wfInterval i" using wf split(1) by (simp add: wfIntervals_def)
  note tests = merge_tests [OF this x split(3), folded l_def r_def, folded mergeLeft_def mergeRight_def]
  note left = sorted_before_last [OF sorted split(2), folded l_def]
  have right: "\<forall>i\<in>set (tl R). istart i > x" using split(3) by (auto dest: in_set_tlD)
  have "insertInterval (take (length L - 1) (L @ R) @ drop (length L + 1) (L @ R)) v = butlast L @ v # tl R"
      "insertInterval (take (length L - 1) (L @ R) @ drop (length L) (L @ R)) v = butlast L @ v # R"
    if "L \<noteq> []" "istart v = istart l" for v
    unfolding cut using that left right split(3) by (force intro!: ins)+
  moreover have "insertInterval (take (length L) (L @ R) @ drop (length L + 1) (L @ R)) v = L @ v # tl R"
      "insertInterval (L @ R) v = L @ v # R"
    if "istart v = x" for v
    unfolding cut using that split(2,3) right by (force intro!: ins)+
  moreover have "mergeRight \<Longrightarrow> min (istart r) x = x" by (simp add: mergeRight_def)
  moreover have "mergeLeft \<Longrightarrow> L \<noteq> []" "mergeRight \<Longrightarrow> R \<noteq> []"
    by (simp_all add: mergeLeft_def mergeRight_def)
  ultimately show ?thesis
    unfolding Add_def Let_def split(1) pos tests using idx by (cases mergeLeft; cases mergeRight) simp_all
qed

text \<open>The denotation of a slice whose middle is replaced.\<close>

lemma members_eq: "members s = (\<Union>i\<in>set (intervals s). {istart i..iend i})"
  by (simp add: members_def ivSet_def)

lemma Add_correct:
  assumes wf: "wfIntervals s" and x: "minInt64 \<le> x" "x < maxInt64"
  shows "wfIntervals (Add s x) \<and> members (Add s x) = insert x (members s)"
proof -
  obtain L R where split: "intervals s = L @ R" "\<forall>i\<in>set L. istart i \<le> x" "\<forall>i\<in>set R. istart i > x"
    using split_at [OF wf, of x] by metis
  note shape = Add_shapes [OF split wf x(1)]
  have sep: "sorted_wrt separated (L @ R)" and wfi: "\<forall>i\<in>set (L @ R). wfInterval i"
    using wf split(1) by (simp_all add: wfIntervals_def)
  show ?thesis
  proof (cases L rule: rev_cases)
    case Nil
    show ?thesis
    proof (cases R)
      case Nil
      with \<open>L = []\<close> shape split(1) x show ?thesis
        by (auto simp: wfIntervals_def members_eq wfInterval_def)
    next
      case (Cons r R')
      with \<open>L = []\<close> shape split sep wfi x show ?thesis
        by (auto simp: wfIntervals_def members_eq wfInterval_def separated_def)
    qed
  next
    case (snoc L' l)
    show ?thesis
    proof (cases R)
      case Nil
      with snoc shape split sep wfi x show ?thesis
        by (auto simp: wfIntervals_def members_eq wfInterval_def separated_def sorted_wrt_append)
    next
      case (Cons r R')
      with snoc shape split sep wfi x show ?thesis
        by (auto simp: wfIntervals_def members_eq wfInterval_def separated_def sorted_wrt_append)
    qed
  qed
qed

lemma NextMissing_shape:
  assumes split: "intervals s = L @ R" "\<forall>i\<in>set L. istart i \<le> x" "\<forall>i\<in>set R. istart i > x"
    and wf: "wfIntervals s"
  shows "NextMissing s x = (if L \<noteq> [] \<and> x \<le> iend (last L) then iend (last L) + 1 else x)"
proof -
  have sorted: "sorted (map istart (L @ R))"
    using wf split(1) wf_sorted by (metis wfIntervals_def)
  note pos = search_split [OF sorted split(2,3)]
  have idx: "L \<noteq> [] \<Longrightarrow> (L @ R) ! (length L - 1) = last L" "L \<noteq> [] \<Longrightarrow> istart (last L) \<le> x"
    using split(2) by (simp_all add: nth_append last_conv_nth)
  have "L \<noteq> [] \<Longrightarrow> wfInterval (last L)" using wf split(1) by (simp add: wfIntervals_def)
  then have "L \<noteq> [] \<Longrightarrow> wrap64 (iend (last L) + 1) = iend (last L) + 1"
    by (intro wrap64_id) (auto simp: wfInterval_def inInt64_def)
  then show ?thesis
    unfolding NextMissing_def Let_def split(1) pos using idx by (cases "L = []") simp_all
qed

lemma NextMissing_correct:
  assumes wf: "wfIntervals s"
  shows "x \<le> NextMissing s x \<and> NextMissing s x \<notin> members s \<and>
    (\<forall>z. x \<le> z \<and> z < NextMissing s x \<longrightarrow> z \<in> members s)"
proof -
  obtain L R where split: "intervals s = L @ R" "\<forall>i\<in>set L. istart i \<le> x" "\<forall>i\<in>set R. istart i > x"
    using split_at [OF wf, of x] by metis
  note shape = NextMissing_shape [OF split wf]
  have sep: "sorted_wrt separated (L @ R)" and wfi: "\<forall>i\<in>set (L @ R). wfInterval i"
    using wf split(1) by (simp_all add: wfIntervals_def)
  show ?thesis
  proof (cases L rule: rev_cases)
    case Nil
    with shape split show ?thesis by (auto simp: members_eq)
  next
    case (snoc L' l)
    have l: "istart l \<le> x" and far: "\<forall>i\<in>set L'. iend i + 1 < istart l" "\<forall>i\<in>set R. iend l + 1 < istart i"
      using split(2) sep snoc by (simp_all add: separated_def sorted_wrt_append)
    have mem: "members s = (\<Union>i\<in>set L'. {istart i..iend i}) \<union> {istart l..iend l} \<union> (\<Union>i\<in>set R. {istart i..iend i})"
      using split(1) snoc by (auto simp: members_eq)
    show ?thesis
    proof (cases "x \<le> iend l")
      case True
      then have "NextMissing s x = iend l + 1" using shape snoc by simp
      then show ?thesis using True l far by (auto simp: mem)
    next
      case False
      then have "NextMissing s x = x" using shape snoc by simp
      then show ?thesis using False l far split(3) by (auto simp: mem)
    qed
  qed
qed

lemma members_finite [simp]: "finite (members s)"
  by (simp add: members_eq)

lemma members_NewIntervalSet [simp]: "members NewIntervalSet = {}"
  by (simp add: NewIntervalSet_def members_def)

lemma wf_NewIntervalSet [simp]: "wfIntervals NewIntervalSet"
  by (simp add: NewIntervalSet_def wfIntervals_def)

interpretation amounts: amount_allocator NewIntervalSet Add NextMissing wfIntervals members minInt64 maxInt64
  by unfold_locales (use Add_correct NextMissing_correct in \<open>simp_all add: Add_correct\<close>)

section \<open>Properties\<close>

text \<open>
  C5: \<open>Add\<close> keeps the slice sorted, disjoint and non-adjacent and adds exactly the given amount
  to the set it denotes, whichever of its four merge branches it takes. The bound excludes the
  largest 64-bit integer, after which \<open>end+1\<close> wraps.
\<close>

theorem Add_refines_insert:
  "wfIntervals s \<Longrightarrow> minInt64 \<le> x \<Longrightarrow> x < maxInt64 \<Longrightarrow>
   wfIntervals (Add s x) \<and> members (Add s x) = insert x (members s)"
  using amounts.take1_invar amounts.take1_taken by blast

text \<open>
  C6: \<open>NextMissing(x)\<close> is the least amount not yet handed out among those from \<open>x\<close> on, as its
  comment says; and it exceeds \<open>x\<close> by at most the number of amounts handed out.
\<close>

theorem NextMissing_least:
  "wfIntervals s \<Longrightarrow>
   x \<le> NextMissing s x \<and> NextMissing s x \<notin> members s \<and>
   (\<forall>z. x \<le> z \<longrightarrow> z \<notin> members s \<longrightarrow> NextMissing s x \<le> z) \<and>
   NextMissing s x \<le> x + int (card (members s))"
  using amounts.nextFree_ge amounts.nextFree_free amounts.nextFree_least amounts.nextFree_bound
  by (meson linorder_not_le)

definition exampleSet :: IntervalSet where
  "exampleSet = foldl Add NewIntervalSet [1, 2, 3, 5, 6, 7, 9, 10]"

text \<open>The values of the repository's own unit test.\<close>

lemma exampleSet_intervals:
  "exampleSet = \<lparr>intervals = [\<lparr>istart = 1, iend = 3\<rparr>, \<lparr>istart = 5, iend = 7\<rparr>, \<lparr>istart = 9, iend = 10\<rparr>]\<rparr>"
  by code_simp

lemma exampleSet_wf: "wfIntervals exampleSet"
  by (simp add: exampleSet_intervals wfIntervals_def separated_def wfInterval_def minInt64_def maxInt64_def)

theorem Add_refines_insert_witness:
  "wfIntervals exampleSet \<and> minInt64 \<le> 4 \<and> (4::int) < maxInt64 \<and>
   wfIntervals (Add exampleSet 4) \<and> members (Add exampleSet 4) = insert 4 (members exampleSet) \<and>
   intervals (Add exampleSet 4) = [\<lparr>istart = 1, iend = 7\<rparr>, \<lparr>istart = 9, iend = 10\<rparr>]"
proof -
  have bounds: "minInt64 \<le> 4" "(4::int) < maxInt64" by (simp_all add: minInt64_def maxInt64_def)
  have "intervals (Add exampleSet 4) = [\<lparr>istart = 1, iend = 7\<rparr>, \<lparr>istart = 9, iend = 10\<rparr>]"
    unfolding exampleSet_intervals by code_simp
  with bounds exampleSet_wf Add_refines_insert [OF exampleSet_wf bounds] show ?thesis by simp
qed

theorem NextMissing_least_witness:
  "wfIntervals exampleSet \<and> NextMissing exampleSet 1 = 4 \<and> NextMissing exampleSet 1 \<notin> members exampleSet \<and>
   NextMissing exampleSet 1 \<le> 1 + int (card (members exampleSet))"
proof -
  have "NextMissing exampleSet 1 = 4" unfolding exampleSet_intervals by code_simp
  with exampleSet_wf NextMissing_least [OF exampleSet_wf, of 1] show ?thesis by simp
qed

text \<open>
  At the largest 64-bit amount \<open>prev.end + 1\<close> wraps: after it was handed out once, every
  further request for it is given the smallest 64-bit integer, and the same one each time, so two
  orders share an amount.
\<close>

theorem NextMissing_wraps_at_max:
  "let s1 = Add NewIntervalSet maxInt64;
       a = NextMissing s1 maxInt64;
       s2 = Add s1 a
   in a = minInt64 \<and> NextMissing s2 maxInt64 = a"
  by code_simp

end
