(* ===== verification/Payment_Orders.thy ===== *)
theory Payment_Orders
  imports Interval_Set Json
begin

text \<open>
  Model of the payment service, src/payment/order: the data of trongrid.go, orders and their
  creation (mapper.go), the HTTP handlers (server.go) and the task that reads the wallet's
  transactions and marks orders as paid (task.go).

  The package variables are the record \<open>pay_state\<close>. TronGrid, the callback URLs and the clock are
  an environment: functions on an unspecified world \<open>'w\<close>, collected in \<open>pay_env\<close>. The ghost
  field \<open>sentCallbacks\<close> lists the callbacks requested so far with the order each one was for.
\<close>

section \<open>Data of the TronGrid API\<close>

record Ret =
  retContractRet :: string
  retFee :: int

record TransferValue =
  tvAmount :: int
  tvOwnerAddress :: string
  tvToAddress :: string

record ContractParameter =
  cpValue :: TransferValue
  cpTypeURL :: string

record Contract =
  cParameter :: ContractParameter
  cType :: string

record RawData =
  rdContract :: "Contract list"
  rdRefBlockBytes :: string
  rdRefBlockHash :: string
  rdExpiration :: int
  rdTimestamp :: int

record Transaction =
  txRet :: "Ret list"
  txSignature :: "string list"
  txTxID :: string
  txNetUsage :: int
  txRawDataHex :: string
  txNetFee :: int
  txEnergyUsage :: int
  txBlockNumber :: int
  txBlockTimestamp :: int
  txEnergyFee :: int
  txEnergyUsageTotal :: int
  txRawData :: RawData
  txInternalTransactions :: "json list"

record Links =
  linksNext :: string

record Meta =
  metaAt :: int
  metaPageSize :: int
  metaFingerprint :: string
  metaLinks :: Links

record TransactionResponse =
  trData :: "Transaction list"
  trSuccess :: bool
  trMeta :: Meta

section \<open>Orders\<close>

definition defaultWalletAddress :: string where
  "defaultWalletAddress = ''TTfNfANq9q68hm6xuAjSfafitBo9Did8SY''"

record Order =
  oID :: string
  oTrxAddress :: string
  oAmount :: int
  oActualAmount :: int
  oPaymentLink :: string
  oStatus :: string
  oCreatedAt :: time
  oCallback :: string

record pay_state =
  ActualAmountToID :: "int \<rightharpoonup> string"
  intervalSet :: IntervalSet
  orderMap :: "string \<rightharpoonup> Order"
  sentCallbacks :: "(string \<times> string) list"

definition initPayState :: pay_state where
  "initPayState = \<lparr>ActualAmountToID = Map.empty, intervalSet = NewIntervalSet,
     orderMap = Map.empty, sentCallbacks = []\<rparr>"

text \<open>The second result is the pair \<open>(value, error)\<close>: \<open>Inl\<close> an error, \<open>Inr\<close> a value with nil error.\<close>

definition mapAmountToActualAmount :: "int \<Rightarrow> pay_state \<Rightarrow> pay_state \<times> (string + int)" where
  "mapAmountToActualAmount amount s =
     (let actualAmount = NextMissing (intervalSet s) amount
      in (s\<lparr>intervalSet := Add (intervalSet s) actualAmount\<rparr>, Inr actualAmount))"

definition CreateOrder ::
  "time \<Rightarrow> string \<Rightarrow> int \<Rightarrow> string \<Rightarrow> pay_state \<Rightarrow> pay_state \<times> (string + Order)" where
  "CreateOrder now oid amount callback s =
     (case mapAmountToActualAmount amount s of
        (s1, Inl err) \<Rightarrow> (s1, Inl err)
      | (s1, Inr actualAmount) \<Rightarrow>
          (let order = \<lparr>oID = oid, oTrxAddress = defaultWalletAddress, oAmount = amount,
                 oActualAmount = actualAmount, oPaymentLink = [], oStatus = ''pending'',
                 oCreatedAt = now, oCallback = callback\<rparr>
           in (s1\<lparr>orderMap := (orderMap s1)(oid \<mapsto> order),
                  ActualAmountToID := (ActualAmountToID s1)(actualAmount \<mapsto> oid)\<rparr>,
               Inr order)))"

section \<open>HTTP handlers\<close>

datatype pay_body = PText string | POrder Order

text \<open>\<open>json.Marshal(order)\<close> fails only on a time whose year is outside 0 to 9999.\<close>

definition marshalOrder :: "Order \<Rightarrow> Order option" where
  "marshalOrder ord =
     (if - 62167219200 \<le> unixTime (oCreatedAt ord) \<and> unixTime (oCreatedAt ord) \<le> 253402300799
      then Some ord else None)"

definition handleCreateOrder ::
  "time \<Rightarrow> request \<Rightarrow> pay_state \<Rightarrow> pay_body writer \<Rightarrow> pay_state \<times> pay_body writer" where
  "handleCreateOrder now r s w =
     (let oid = rQuery r ''id'';
          amount = rQuery r ''amount'';
          callback = rQuery r ''callback''
      in case parseInt amount of
           (_, Some err) \<Rightarrow> (s, httpError (PText ''Invalid amount'') StatusBadRequest w)
         | (amountInt, None) \<Rightarrow>
             (case CreateOrder now oid amountInt callback s of
                (s1, Inl err) \<Rightarrow>
                  (s1, httpError (PText ''Failed to create order'') StatusInternalServerError w)
              | (s1, Inr order) \<Rightarrow>
                  (let w1 = writeHeader StatusOK w
                   in case marshalOrder order of
                        None \<Rightarrow>
                          (s1, httpError (PText ''Failed to serialize order'') StatusInternalServerError w1)
                      | Some jsonData \<Rightarrow> (s1, writeBody (POrder jsonData) w1))))"

definition handleGetOrderStatus ::
  "request \<Rightarrow> pay_state \<Rightarrow> pay_body writer \<Rightarrow> pay_state \<times> pay_body writer" where
  "handleGetOrderStatus r s w =
     (let oid = rQuery r ''id''
      in if oid = [] then (s, httpError (PText ''Missing order ID'') StatusBadRequest w)
         else case orderMap s oid of
           None \<Rightarrow> (s, httpError (PText ''Order not found'') StatusNotFound w)
         | Some order \<Rightarrow>
             (let w1 = writeHeader StatusOK w
              in case marshalOrder order of
                   None \<Rightarrow>
                     (s, httpError (PText ''Failed to serialize order'') StatusInternalServerError w1)
                 | Some jsonData \<Rightarrow> (s, writeBody (POrder jsonData) w1)))"

definition payServeHTTP ::
  "time \<Rightarrow> request \<Rightarrow> pay_state \<Rightarrow> pay_body writer \<Rightarrow> pay_state \<times> pay_body writer" where
  "payServeHTTP now r s w =
     (case rMethod r of
        GET \<Rightarrow>
          if rPath r = ''/api/payment/order/status'' then handleGetOrderStatus r s w
          else (s, writeHeader StatusNotFound w)
      | POST \<Rightarrow>
          if rPath r = ''/api/payment/order/create'' then handleCreateOrder now r s w
          else (s, writeHeader StatusNotFound w)
      | _ \<Rightarrow> (s, writeHeader StatusMethodNotAllowed w))"

text \<open>The routes of \<open>RegisterHandlers\<close>; the multiplexer answers 404 on any other path.\<close>

definition payRoutes :: "string list" where
  "payRoutes = [''/api/payment/order/create'', ''/api/payment/order/status'']"

definition payMux ::
  "time \<Rightarrow> request \<Rightarrow> pay_state \<Rightarrow> pay_body writer \<Rightarrow> pay_state \<times> pay_body writer" where
  "payMux now r s w = (if rPath r \<in> set payRoutes then payServeHTTP now r s w else (s, writeHeader StatusNotFound w))"

section \<open>The task that watches the wallet\<close>

definition paymentTimeout :: duration where
  "paymentTimeout = 10 * minute"

definition apiUrl :: "string \<Rightarrow> string" where
  "apiUrl addr = ''https://api.shasta.trongrid.io/v1/accounts/'' @ addr @ ''/transactions''"

text \<open>What one page request comes to: no request could be built, no answer, another status than
  200, an undecodable body, or a page.\<close>

datatype fetch_result =
    RequestError
  | TransportError
  | BadStatus status
  | Undecodable
  | Page TransactionResponse

text \<open>The environment. \<open>httpGet\<close> is the callback request: \<open>None\<close> for a transport error.\<close>

record 'w pay_env =
  timeNow :: "'w \<Rightarrow> time \<times> 'w"
  fetchPage :: "string \<Rightarrow> 'w \<Rightarrow> fetch_result \<times> 'w"
  httpGet :: "string \<Rightarrow> 'w \<Rightarrow> status option \<times> 'w"

text \<open>The part of the loop body after the filters: the order found for an amount.\<close>

definition payOrder ::
  "'w pay_env \<Rightarrow> int \<Rightarrow> string \<Rightarrow> Order \<Rightarrow> pay_state \<Rightarrow> 'w \<Rightarrow> pay_state \<times> 'w" where
  "payOrder env amount orderID order s w =
     (if oStatus order = ''pending'' then
        (let s1 = s\<lparr>orderMap := (orderMap s)(orderID \<mapsto> order\<lparr>oStatus := ''paid''\<rparr>)\<rparr>
         in if oCallback order \<noteq> [] then
              (let callbackUrl = oCallback order @ ''?id='' @ oID order;
                   s2 = s1\<lparr>sentCallbacks := sentCallbacks s1 @ [(orderID, callbackUrl)]\<rparr>
               in case httpGet env callbackUrl w of
                    (None, w1) \<Rightarrow> (s2, w1)
                  | (Some code, w1) \<Rightarrow>
                      if code \<noteq> StatusOK then (s2, w1)
                      else (s2\<lparr>ActualAmountToID := (ActualAmountToID s2)(amount := None)\<rparr>, w1))
            else (s1, w))
      else (s, w))"

text \<open>One transaction of a page. Indexing the empty contract list panics.\<close>

definition processTx ::
  "'w pay_env \<Rightarrow> Transaction \<Rightarrow> pay_state \<Rightarrow> 'w \<Rightarrow> (pay_state \<times> 'w, unit) run" where
  "processTx env tx s w =
     (let (now, w1) = timeNow env w
      in if txBlockTimestamp tx sdiv 1000 < unixTime (now - paymentTimeout) then Ret (s, w1) ()
         else
           (case rdContract (txRawData tx) of
              [] \<Rightarrow> Panic (s, w1)
            | c # _ \<Rightarrow>
                if cType c \<noteq> ''TransferContract'' then Ret (s, w1) ()
                else
                  (let amount = tvAmount (cpValue (cParameter c))
                   in case ActualAmountToID s amount of
                        None \<Rightarrow> Ret (s, w1) ()
                      | Some orderID \<Rightarrow>
                          (case orderMap s orderID of
                             None \<Rightarrow> Ret (s, w1) ()
                           | Some order \<Rightarrow> Ret (payOrder env amount orderID order s w1) ()))))"

fun processTxs ::
  "'w pay_env \<Rightarrow> Transaction list \<Rightarrow> pay_state \<Rightarrow> 'w \<Rightarrow> (pay_state \<times> 'w, unit) run" where
  "processTxs env [] s w = Ret (s, w) ()"
| "processTxs env (tx # txs) s w =
     (case processTx env tx s w of
        Panic sw \<Rightarrow> Panic sw
      | Ret (s1, w1) _ \<Rightarrow> processTxs env txs s1 w1)"

definition pageUrl :: "int \<Rightarrow> string \<Rightarrow> string" where
  "pageUrl minTimestamp next =
     (let url = apiUrl defaultWalletAddress @ ''?min_timestamp='' @ itoa minTimestamp @ ''&limit='' @ itoa 200
      in if next \<noteq> [] then url @ ''&next='' @ next else url)"

text \<open>The loop over the pages: each round spends one unit of fuel, and \<open>None\<close> is running out of
  it.\<close>

fun updateLoop ::
  "nat \<Rightarrow> 'w pay_env \<Rightarrow> int \<Rightarrow> string \<Rightarrow> pay_state \<Rightarrow> 'w \<Rightarrow> (pay_state \<times> 'w, unit) run option" where
  "updateLoop 0 env minTimestamp next s w = None"
| "updateLoop (Suc fuel) env minTimestamp next s w =
     (case fetchPage env (pageUrl minTimestamp next) w of
        (RequestError, w1) \<Rightarrow> Some (Ret (s, w1) ())
      | (TransportError, w1) \<Rightarrow> Some (Ret (s, w1) ())
      | (BadStatus _, w1) \<Rightarrow> Some (Ret (s, w1) ())
      | (Undecodable, w1) \<Rightarrow> Some (Panic (s, w1))
      | (Page result, w1) \<Rightarrow>
          (case processTxs env (trData result) s w1 of
             Panic sw \<Rightarrow> Some (Panic sw)
           | Ret (s2, w2) _ \<Rightarrow>
               if linksNext (metaLinks (trMeta result)) = [] then Some (Ret (s2, w2) ())
               else updateLoop fuel env minTimestamp (linksNext (metaLinks (trMeta result))) s2 w2))"

definition UpdateOrderStatus ::
  "nat \<Rightarrow> 'w pay_env \<Rightarrow> pay_state \<Rightarrow> 'w \<Rightarrow> (pay_state \<times> 'w, unit) run option" where
  "UpdateOrderStatus fuel env s w =
     (let (now, w1) = timeNow env w
      in updateLoop fuel env (wrap64 (unixTime (now - paymentTimeout) * 1000)) [] s w1)"

text \<open>\<open>oids\<close> is the order in which the range over \<open>orderMap\<close> visits its keys.\<close>

fun RemoveTimeoutOrders :: "time \<Rightarrow> string list \<Rightarrow> pay_state \<Rightarrow> pay_state" where
  "RemoveTimeoutOrders now [] s = s"
| "RemoveTimeoutOrders now (oid # oids) s =
     RemoveTimeoutOrders now oids
       (case orderMap s oid of
          None \<Rightarrow> s
        | Some order \<Rightarrow>
            if timeSub now (oCreatedAt order) > paymentTimeout
            then s\<lparr>ActualAmountToID := (ActualAmountToID s)(oActualAmount order := None)\<rparr>
            else s)"

section \<open>The service as a transition system\<close>

text \<open>
  Requests and the task interleave freely; a step is one order creation, one transaction of a page
  or one run of \<open>RemoveTimeoutOrders\<close>. The creation rule asks that the amount handed out stays
  below the largest 64-bit integer. With \<open>fresh\<close>, the caller never reuses an order id.
\<close>

inductive pay_step :: "bool \<Rightarrow> 'w pay_env \<Rightarrow> pay_state \<Rightarrow> pay_state \<Rightarrow> bool" for fresh env where
  create: "CreateOrder now oid amount callback s = (s', Inr order) \<Longrightarrow> minInt64 \<le> amount \<Longrightarrow>
    oActualAmount order < maxInt64 \<Longrightarrow> (fresh \<longrightarrow> orderMap s oid = None) \<Longrightarrow> pay_step fresh env s s'"
| transaction: "processTx env tx s w = r \<Longrightarrow> pay_step fresh env s (fst (runState r))"
| timeouts: "pay_step fresh env s (RemoveTimeoutOrders now oids s)"

inductive pay_reach :: "bool \<Rightarrow> 'w pay_env \<Rightarrow> pay_state \<Rightarrow> bool" for fresh env where
  init: "pay_reach fresh env initPayState"
| step: "pay_reach fresh env s \<Longrightarrow> pay_step fresh env s s' \<Longrightarrow> pay_reach fresh env s'"

text \<open>The invariant: the interval set is well formed and covers every amount in use; every indexed
  amount leads to an order; an order is filed under its id, asks for at least its amount and is
  pending or paid; no two orders ask for the same amount.\<close>

definition orderOk :: "pay_state \<Rightarrow> string \<Rightarrow> Order \<Rightarrow> bool" where
  "orderOk s i ord \<longleftrightarrow> oID ord = i \<and> oTrxAddress ord = defaultWalletAddress \<and> oActualAmount ord \<in> members (intervalSet s) \<and>
     oAmount ord \<le> oActualAmount ord \<and> oStatus ord \<in> {''pending'', ''paid''}"

definition pay_inv :: "pay_state \<Rightarrow> bool" where
  "pay_inv s \<longleftrightarrow> wfIntervals (intervalSet s) \<and>
     (\<forall>a i. ActualAmountToID s a = Some i \<longrightarrow> a \<in> members (intervalSet s) \<and> orderMap s i \<noteq> None) \<and>
     (\<forall>i ord. orderMap s i = Some ord \<longrightarrow> orderOk s i ord) \<and>
     (\<forall>i j oi oj. orderMap s i = Some oi \<longrightarrow> orderMap s j = Some oj \<longrightarrow>
        oActualAmount oi = oActualAmount oj \<longrightarrow> i = j)"

text \<open>With fresh ids: an indexed amount is the amount of the order it leads to, a callback was sent
  only for a paid order, and at most one for each order.\<close>

definition index_exact :: "pay_state \<Rightarrow> bool" where
  "index_exact s \<longleftrightarrow>
     (\<forall>a i ord. ActualAmountToID s a = Some i \<longrightarrow> orderMap s i = Some ord \<longrightarrow> oActualAmount ord = a)"

definition callbacks_once :: "pay_state \<Rightarrow> bool" where
  "callbacks_once s \<longleftrightarrow> distinct (map fst (sentCallbacks s)) \<and>
     (\<forall>i u. (i, u) \<in> set (sentCallbacks s) \<longrightarrow>
        (\<exists>ord. orderMap s i = Some ord \<and> oStatus ord = ''paid''))"

inductive_cases pay_stepE: "pay_step fresh env s s'"

section \<open>Lemmas\<close>

lemma CreateOrder_eq:
  "CreateOrder now oid amount callback s =
     (let a = NextMissing (intervalSet s) amount;
          order = \<lparr>oID = oid, oTrxAddress = defaultWalletAddress, oAmount = amount,
            oActualAmount = a, oPaymentLink = [], oStatus = ''pending'', oCreatedAt = now,
            oCallback = callback\<rparr>
      in (s\<lparr>intervalSet := Add (intervalSet s) a, orderMap := (orderMap s)(oid \<mapsto> order),
            ActualAmountToID := (ActualAmountToID s)(a \<mapsto> oid)\<rparr>, Inr order))"
  by (simp add: CreateOrder_def mapAmountToActualAmount_def Let_def)

text \<open>What a transaction can do to the state: nothing, or pay the pending order its amount leads
  to.\<close>

lemma payOrder_cases:
  assumes "payOrder env amount i ord s w = (s', w')"
  obtains (idle) "oStatus ord \<noteq> ''pending''" "s' = s" "w' = w"
  | (paid) sent kept where "oStatus ord = ''pending''"
      "s' = s\<lparr>orderMap := (orderMap s)(i \<mapsto> ord\<lparr>oStatus := ''paid''\<rparr>),
              sentCallbacks := sentCallbacks s @ sent,
              ActualAmountToID := if kept then ActualAmountToID s else (ActualAmountToID s)(amount := None)\<rparr>"
      "sent = (if oCallback ord = [] then [] else [(i, oCallback ord @ ''?id='' @ oID ord)])"
      "\<not> kept \<longrightarrow> oCallback ord \<noteq> []"
proof (cases "oStatus ord = ''pending''")
  case False
  with assms idle show thesis by (simp add: payOrder_def)
next
  case pending: True
  show thesis
  proof (cases "oCallback ord = []")
    case True
    show thesis
      by (rule paid [where kept = True and sent = "[]"]) (use assms pending True in \<open>auto simp: payOrder_def\<close>)
  next
    case cb: False
    obtain res w1 where get: "httpGet env (oCallback ord @ ''?id='' @ oID ord) w = (res, w1)" by fastforce
    show thesis
      by (rule paid [where kept = "res \<noteq> Some StatusOK"])
        (use assms pending cb get in \<open>auto simp: payOrder_def Let_def split: option.splits if_splits\<close>)
  qed
qed

lemma processTx_cases:
  assumes "processTx env tx s w = r"
  obtains (idle) "fst (runState r) = s"
  | (pay) c cs amount i ord w1 w2 where "rdContract (txRawData tx) = c # cs" "cType c = ''TransferContract''"
      "amount = tvAmount (cpValue (cParameter c))" "ActualAmountToID s amount = Some i"
      "orderMap s i = Some ord"
      "unixTime (fst (timeNow env w) - paymentTimeout) \<le> txBlockTimestamp tx sdiv 1000" "payOrder env amount i ord s w1 = (fst (runState r), w2)"
proof -
  obtain now w1 where now: "timeNow env w = (now, w1)" by fastforce
  show thesis
  proof (cases "txBlockTimestamp tx sdiv 1000 < unixTime (now - paymentTimeout) \<or> rdContract (txRawData tx) = []")
    case True
    then show thesis using assms now idle by (auto simp: processTx_def)
  next
    case recent: False
    then obtain c cs where c: "rdContract (txRawData tx) = c # cs" by (auto simp: neq_Nil_conv)
    let ?amount = "tvAmount (cpValue (cParameter c))"
    show thesis
    proof (cases "cType c = ''TransferContract'' \<and> ActualAmountToID s ?amount \<noteq> None \<and>
        orderMap s (the (ActualAmountToID s ?amount)) \<noteq> None")
      case False
      then have "processTx env tx s w = Ret (s, w1) ()"
        using now c recent by (auto simp: processTx_def Let_def split: option.splits)
      then show thesis using assms idle by simp
    next
      case True
      then obtain i ord where "ActualAmountToID s ?amount = Some i" "orderMap s i = Some ord" by auto
      with True assms now c recent pay [OF c _ refl, of i ord w1] show thesis
        by (cases "payOrder env ?amount i ord s w1") (auto simp: processTx_def)
    qed
  qed
qed

lemma pay_inv_init: "pay_inv initPayState \<and> index_exact initPayState \<and> callbacks_once initPayState"
  by (simp add: pay_inv_def initPayState_def index_exact_def callbacks_once_def)

lemma pay_invD:
  assumes "pay_inv s"
  shows "wfIntervals (intervalSet s)"
    and "ActualAmountToID s a = Some i \<Longrightarrow> a \<in> members (intervalSet s) \<and> orderMap s i \<noteq> None"
    and "orderMap s i = Some ord \<Longrightarrow> orderOk s i ord"
    and "orderMap s i = Some oi \<Longrightarrow> orderMap s j = Some oj \<Longrightarrow>
      oActualAmount oi = oActualAmount oj \<Longrightarrow> i = j"
  using assms unfolding pay_inv_def by blast+

lemma CreateOrder_inv:
  assumes inv: "pay_inv s" and new: "CreateOrder now oid amount callback s = (s', Inr order)"
    and bounds: "minInt64 \<le> amount" "oActualAmount order < maxInt64"
  shows "pay_inv s'"
proof -
  let ?a = "NextMissing (intervalSet s) amount"
  have wf: "wfIntervals (intervalSet s)" using inv by (simp add: pay_inv_def)
  have a: "oActualAmount order = ?a" "order = \<lparr>oID = oid, oTrxAddress = defaultWalletAddress,
      oAmount = amount, oActualAmount = ?a, oPaymentLink = [], oStatus = ''pending'',
      oCreatedAt = now, oCallback = callback\<rparr>"
    and s': "s' = s\<lparr>intervalSet := Add (intervalSet s) ?a, orderMap := (orderMap s)(oid \<mapsto> order),
      ActualAmountToID := (ActualAmountToID s)(?a \<mapsto> oid)\<rparr>"
    using new by (auto simp: CreateOrder_eq Let_def)
  have free: "?a \<notin> members (intervalSet s)" "amount \<le> ?a"
    using amounts.nextFree_free [OF wf] amounts.nextFree_ge [OF wf] by simp_all
  have alloc: "wfIntervals (Add (intervalSet s) ?a)"
      "members (Add (intervalSet s) ?a) = insert ?a (members (intervalSet s))"
    using amounts.alloc_taken [OF wf bounds(1)] bounds(2) a(1) by simp_all
  have used: "orderMap s i = Some ord \<Longrightarrow> oActualAmount ord = ?a \<Longrightarrow> False" for i ord
    using pay_invD(3) [OF inv] free(1) by (metis orderOk_def)
  have "orderMap s' i = Some oi \<Longrightarrow> orderMap s' j = Some oj \<Longrightarrow>
      oActualAmount oi = oActualAmount oj \<Longrightarrow> i = j" for i j oi oj
    using used a(1) pay_invD(4) [OF inv] by (auto simp: s' split: if_splits)
  moreover have "orderMap s' i = Some ord \<Longrightarrow> orderOk s' i ord" for i ord
    using pay_invD(3) [OF inv] alloc(2) free(2) a(2) by (auto simp: s' orderOk_def split: if_splits)
  moreover have "ActualAmountToID s' b = Some i \<Longrightarrow> b \<in> members (intervalSet s') \<and> orderMap s' i \<noteq> None" for b i
    using pay_invD(2) [OF inv] alloc(2) by (auto simp: s' split: if_splits)
  moreover have "wfIntervals (intervalSet s')" using alloc(1) by (simp add: s')
  ultimately show ?thesis unfolding pay_inv_def by blast
qed

lemma pay_inv_paid:
  "pay_inv s \<Longrightarrow> orderMap s i = Some ord \<Longrightarrow>
   pay_inv (s\<lparr>orderMap := (orderMap s)(i \<mapsto> ord\<lparr>oStatus := ''paid''\<rparr>), sentCallbacks := c,
     ActualAmountToID := if k then ActualAmountToID s else (ActualAmountToID s)(a := None)\<rparr>)"
  by (auto simp: pay_inv_def orderOk_def)

text \<open>\<open>RemoveTimeoutOrders\<close> only removes index entries.\<close>

lemma RemoveTimeoutOrders_frame:
  "\<exists>m. RemoveTimeoutOrders now oids s = s\<lparr>ActualAmountToID := m\<rparr> \<and> m \<subseteq>\<^sub>m ActualAmountToID s"
proof (induction oids arbitrary: s)
  case Nil
  show ?case by (rule exI [where x = "ActualAmountToID s"]) simp
next
  case (Cons i oids)
  let ?s1 = "case orderMap s i of None \<Rightarrow> s
    | Some order \<Rightarrow> if timeSub now (oCreatedAt order) > paymentTimeout
        then s\<lparr>ActualAmountToID := (ActualAmountToID s)(oActualAmount order := None)\<rparr> else s"
  obtain m where m: "RemoveTimeoutOrders now oids ?s1 = ?s1\<lparr>ActualAmountToID := m\<rparr>"
      "m \<subseteq>\<^sub>m ActualAmountToID ?s1"
    using Cons by blast
  have "?s1\<lparr>ActualAmountToID := m\<rparr> = s\<lparr>ActualAmountToID := m\<rparr>" "ActualAmountToID ?s1 \<subseteq>\<^sub>m ActualAmountToID s"
    by (simp_all add: map_le_def split: option.split)
  with m show ?case by (auto intro: map_le_trans)
qed

lemma pay_inv_subindex: "pay_inv s \<Longrightarrow> m \<subseteq>\<^sub>m ActualAmountToID s \<Longrightarrow> pay_inv (s\<lparr>ActualAmountToID := m\<rparr>)"
  by (simp add: pay_inv_def orderOk_def map_le_def dom_def) metis

lemma pay_step_inv: "pay_step fresh env s s' \<Longrightarrow> pay_inv s \<Longrightarrow> pay_inv s'"
proof (induction rule: pay_step.induct)
  case (create now oid amount callback s s' order)
  then show ?case by (blast intro: CreateOrder_inv)
next
  case (transaction tx s w r)
  from transaction(1) show ?case
  proof (cases rule: processTx_cases)
    case (pay c cs amount i ord w1 w2)
    from pay(7) show ?thesis
      by (cases rule: payOrder_cases) (use transaction pay pay_inv_paid in simp_all)
  qed (use transaction in simp)
next
  case (timeouts s now oids)
  then show ?case
    using RemoveTimeoutOrders_frame [of now oids s] pay_inv_subindex by metis
qed

lemma index_exact_paid:
  "index_exact s \<Longrightarrow> orderMap s i = Some ord \<Longrightarrow>
   index_exact (s\<lparr>orderMap := (orderMap s)(i \<mapsto> ord\<lparr>oStatus := ''paid''\<rparr>), sentCallbacks := c,
     ActualAmountToID := if k then ActualAmountToID s else (ActualAmountToID s)(a := None)\<rparr>)"
  by (auto simp: index_exact_def split: if_splits)

lemma callbacks_once_paid:
  assumes "callbacks_once s" "orderMap s i = Some ord" "oStatus ord = ''pending''" "sent = [] \<or> sent = [(i, u)]"
  shows "callbacks_once (s\<lparr>orderMap := (orderMap s)(i \<mapsto> ord\<lparr>oStatus := ''paid''\<rparr>),
     sentCallbacks := sentCallbacks s @ sent, ActualAmountToID := m\<rparr>)"
proof -
  have "i \<notin> fst ` set (sentCallbacks s)" using assms(1-3) by (auto simp: callbacks_once_def)
  with assms show ?thesis by (auto simp: callbacks_once_def)
qed

text \<open>With fresh ids the index stays exact and every order is called back at most once.\<close>

lemma pay_step_fresh:
  "pay_step True env s s' \<Longrightarrow> pay_inv s \<Longrightarrow> index_exact s \<and> callbacks_once s \<Longrightarrow>
   index_exact s' \<and> callbacks_once s'"
proof (induction rule: pay_step.induct)
  case (create now oid amount callback s s' order)
  then have "orderMap s oid = None" by simp
  moreover have "\<forall>a. ActualAmountToID s a \<noteq> Some oid"
    using pay_invD(2) [OF create.prems(1)] calculation by blast
  moreover have "i \<noteq> oid" if "(i, u) \<in> set (sentCallbacks s)" for i u
    using that create.prems(2) calculation(1) by (auto simp: callbacks_once_def)
  moreover have "sentCallbacks s' = sentCallbacks s" "\<forall>i. i \<noteq> oid \<longrightarrow> orderMap s' i = orderMap s i"
    using create.hyps(1) by (auto simp: CreateOrder_eq Let_def)
  ultimately have "callbacks_once s'"
    using create.prems(2) unfolding callbacks_once_def by metis
  moreover have "index_exact s'"
    using create \<open>\<forall>a. ActualAmountToID s a \<noteq> Some oid\<close>
    by (auto simp: CreateOrder_eq Let_def index_exact_def split: if_splits)
  ultimately show ?case by simp
next
  case (transaction tx s w r)
  from transaction(1) show ?case
  proof (cases rule: processTx_cases)
    case (pay c cs amount i ord w1 w2)
    from pay(7) show ?thesis
    proof (cases rule: payOrder_cases)
      case idle
      with transaction(3) show ?thesis by simp
    next
      case (paid sent kept)
      have "sent = [] \<or> sent = [(i, oCallback ord @ ''?id='' @ oID ord)]" using paid(3) by simp
      then show ?thesis
        unfolding paid(2) using transaction(3) pay(5) paid(1)
        by (blast intro: index_exact_paid callbacks_once_paid)
    qed
  qed (use transaction in simp)
next
  case (timeouts s now oids)
  obtain m where "RemoveTimeoutOrders now oids s = s\<lparr>ActualAmountToID := m\<rparr>" "m \<subseteq>\<^sub>m ActualAmountToID s"
    using RemoveTimeoutOrders_frame by blast
  with timeouts show ?case
    by (auto simp: index_exact_def callbacks_once_def map_le_def dom_def)
qed

interpretation pay_system: invariant_system "\<lambda>s. s = initPayState" "pay_step fresh env" "pay_reach fresh env" pay_inv
  for fresh :: bool and env :: "'w pay_env"
proof
  show "pay_reach fresh env s \<Longrightarrow> \<exists>s0. s0 = initPayState \<and> (pay_step fresh env)\<^sup>*\<^sup>* s0 s" for s
    by (induction rule: pay_reach.induct) (auto intro: rtranclp.rtrancl_into_rtrancl)
qed (auto simp: pay_inv_init intro: pay_reach.intros pay_step_inv)

lemmas pay_reach_inv = pay_system.reachable_inv

lemma pay_reach_fresh: "pay_reach True env s \<Longrightarrow> index_exact s \<and> callbacks_once s"
proof (induction rule: pay_reach.induct)
  case (step s s')
  then show ?case using pay_step_fresh pay_reach_inv by blast
qed (simp add: pay_inv_init)

text \<open>A whole run of the task is a sequence of such steps.\<close>

lemma processTxs_steps:
  "processTxs env txs s w = r \<Longrightarrow> (pay_step fresh env)\<^sup>*\<^sup>* s (fst (runState r))"
proof (induction txs arbitrary: s w)
  case (Cons tx txs)
  obtain r1 where r1: "processTx env tx s w = r1" by blast
  then have one: "pay_step fresh env s (fst (runState r1))" by (rule pay_step.transaction)
  show ?case
  proof (cases r1)
    case (Panic sw)
    with Cons.prems r1 one show ?thesis by auto
  next
    case (Ret sw u)
    with Cons r1 have "(pay_step fresh env)\<^sup>*\<^sup>* (fst sw) (fst (runState r))"
      by (auto split: prod.splits)
    with one Ret show ?thesis by simp
  qed
qed auto

lemma updateLoop_steps:
  "updateLoop fuel env m nxt s w = Some r \<Longrightarrow> (pay_step fresh env)\<^sup>*\<^sup>* s (fst (runState r))"
proof (induction fuel arbitrary: nxt s w)
  case (Suc fuel)
  obtain f w1 where f: "fetchPage env (pageUrl m nxt) w = (f, w1)" by fastforce
  show ?case
  proof (cases f)
    case (Page p)
    show ?thesis
    proof (cases "processTxs env (trData p) s w1")
      case (Panic sw)
      with Suc.prems f Page processTxs_steps [OF Panic, of fresh] show ?thesis by auto
    next
      case (Ret sw u)
      with processTxs_steps [OF Ret, of fresh] have "(pay_step fresh env)\<^sup>*\<^sup>* s (fst sw)" by simp
      moreover have "(pay_step fresh env)\<^sup>*\<^sup>* (fst sw) (fst (runState r))"
      proof (cases "linksNext (metaLinks (trMeta p)) = []")
        case True
        then have "r = Ret sw ()" using Suc.prems f Page Ret by (cases sw) simp
        then show ?thesis by simp
      next
        case False
        with Suc.prems f Page Ret Suc.IH show ?thesis by (cases sw) simp
      qed
      ultimately show ?thesis by (rule rtranclp_trans)
    qed
  qed (use Suc.prems f in auto)
qed simp

lemma pay_reach_steps: "(pay_step fresh env)\<^sup>*\<^sup>* s s' \<Longrightarrow> pay_reach fresh env s \<Longrightarrow> pay_reach fresh env s'"
  by (induction rule: rtranclp_induct) (auto intro: pay_reach.step)

text \<open>The loop over the pages ends when the listing does.\<close>

text \<open>A listing of pages linked in a row: the page at one link announces the next link or none. The
  first page has the empty link.\<close>

definition linkedPages :: "'w pay_env \<Rightarrow> int \<Rightarrow> string list \<Rightarrow> bool" where
  "linkedPages env t links \<longleftrightarrow>
     (\<forall>k < length links. \<forall>w p. fst (fetchPage env (pageUrl t (links ! k)) w) = Page p \<longrightarrow>
        linksNext (metaLinks (trMeta p)) = [] \<or>
        (Suc k < length links \<and> linksNext (metaLinks (trMeta p)) = links ! Suc k))"

lemma updateLoop_pages:
  assumes "linkedPages env t links" "k < length links"
  shows "\<exists>r. \<forall>fuel \<ge> length links - k. updateLoop fuel env t (links ! k) s w = Some r"
  using assms(2)
proof (induction "length links - k" arbitrary: k s w)
  case (Suc n)
  obtain f w1 where f: "fetchPage env (pageUrl t (links ! k)) w = (f, w1)" by fastforce
  have step: "\<exists>r. \<forall>fuel \<ge> length links - k. updateLoop fuel env t (links ! k) s w = Some r"
    if "\<exists>r. \<forall>fuel \<ge> n. updateLoop (Suc fuel) env t (links ! k) s w = Some r"
    using that by (metis Suc.hyps(2) Suc_le_D Suc_le_mono)
  show ?case
  proof (cases f)
    case (Page p)
    show ?thesis
    proof (cases "processTxs env (trData p) s w1")
      case (Ret sw u)
      let ?next = "linksNext (metaLinks (trMeta p))"
      show ?thesis
      proof (cases "?next = []")
        case False
        then have more: "Suc k < length links" "?next = links ! Suc k"
          using assms(1) Suc.prems f Page unfolding linkedPages_def by (metis fst_conv)+
        then have "n = length links - Suc k" using Suc.hyps(2) by simp
        with Suc.hyps(1) [of "Suc k" "fst sw" "snd sw"] more(1)
        obtain r where r: "\<forall>fuel \<ge> n. updateLoop fuel env t ?next (fst sw) (snd sw) = Some r" by (auto simp: more(2))
        then show ?thesis by (intro step) (use f Page Ret False in \<open>cases sw; auto\<close>)
      qed (intro step, use f Page Ret in \<open>cases sw; auto\<close>)
    qed (intro step, use f Page in auto)
  qed (intro step, use f in auto)+
qed simp

section \<open>Properties\<close>

text \<open>
  C2: in every state the service can reach (order ids reused or not), two different orders never
  ask for the same amount, an order never asks for less than what was requested, and what is
  filed in the amount index belongs to an existing order.
\<close>

theorem orders_ask_distinct_amounts:
  assumes "pay_reach fresh env s" "orderMap s i = Some oi" "orderMap s j = Some oj" "i \<noteq> j"
  shows "oActualAmount oi \<noteq> oActualAmount oj \<and> oAmount oi \<le> oActualAmount oi \<and>
    (\<forall>a k. ActualAmountToID s a = Some k \<longrightarrow> orderMap s k \<noteq> None)"
  using pay_invD [OF pay_reach_inv [OF assms(1)]] assms(2-) by (metis orderOk_def)

text \<open>
  C29: every order on file, at any time, carries the id it is filed under, the service's own wallet, an
  amount that was handed out and is not below the one requested, and the status pending or paid. So
  an order never expires, though \<open>expired\<close> is announced as a third status.
\<close>

theorem order_record_type:
  assumes "pay_reach fresh env s" "orderMap s i = Some ord"
  shows "oID ord = i \<and> oTrxAddress ord = defaultWalletAddress \<and> oActualAmount ord \<in> members (intervalSet s) \<and>
    oAmount ord \<le> oActualAmount ord \<and> oStatus ord \<in> {''pending'', ''paid''}"
  using pay_invD(3) [OF pay_reach_inv [OF assms(1)] assms(2)] by (simp add: orderOk_def)

text \<open>
  C3: when callers never reuse an order id, a transaction turns a pending order to paid only if it
  is a recent transfer of exactly the amount the order asks for (so of at least the amount
  requested), and it changes no other order.
\<close>

theorem payment_matches_order:
  assumes "pay_reach True env s" "processTx env tx s w = r"
    and "orderMap s i = Some ord" "oStatus ord = ''pending''"
    and "orderMap (fst (runState r)) i = Some ord'" "oStatus ord' = ''paid''"
  shows "(\<exists>c cs. rdContract (txRawData tx) = c # cs \<and> cType c = ''TransferContract'' \<and>
      tvAmount (cpValue (cParameter c)) = oActualAmount ord \<and>
      oAmount ord \<le> tvAmount (cpValue (cParameter c))) \<and>
    unixTime (fst (timeNow env w) - paymentTimeout) \<le> txBlockTimestamp tx sdiv 1000 \<and>
    ord' = ord\<lparr>oStatus := ''paid''\<rparr> \<and>
    (\<forall>j. j \<noteq> i \<longrightarrow> orderMap (fst (runState r)) j = orderMap s j)"
  using assms(2)
proof (cases rule: processTx_cases)
  case idle
  with assms(3-6) show ?thesis by simp
next
  case (pay c cs amount k ok w1 w2)
  have ok: "oActualAmount ok = amount" "oAmount ord \<le> oActualAmount ord"
    using pay_reach_fresh [OF assms(1)] pay(4,5) pay_invD(3) [OF pay_reach_inv [OF assms(1)] assms(3)]
    by (auto simp: index_exact_def orderOk_def)
  from pay(7) show ?thesis
  proof (cases rule: payOrder_cases)
    case idle
    with assms(3-6) show ?thesis by simp
  next
    case (paid sent kept)
    have "k = i" using paid(2) assms(3-6) by (auto split: if_splits)
    with paid(2) pay assms(3,5) ok show ?thesis by auto
  qed
qed

text \<open>
  C27: when callers never reuse an order id, the callback of an order is requested at most once,
  however transactions, pages and requests interleave, and only after the order was paid.
\<close>

theorem callback_at_most_once:
  assumes "pay_reach True env s"
  shows "distinct (map fst (sentCallbacks s)) \<and>
    (\<forall>(i, u) \<in> set (sentCallbacks s). \<exists>ord. orderMap s i = Some ord \<and> oStatus ord = ''paid'')"
  using pay_reach_fresh [OF assms] by (auto simp: callbacks_once_def)

text \<open>
  A run of \<open>UpdateOrderStatus\<close>, complete or ended by a panic, takes a reachable state to a
  reachable state, so the three facts above hold at every point of the service's life.
\<close>

theorem UpdateOrderStatus_safe:
  assumes "pay_reach fresh env s" "UpdateOrderStatus fuel env s w = Some r"
  shows "pay_reach fresh env (fst (runState r))"
  using assms(2) pay_reach_steps [OF updateLoop_steps assms(1)]
  by (auto simp: UpdateOrderStatus_def Let_def split: prod.splits)

text \<open>
  C28: the paging loop ends. When the listing that the run asks for consists of pages linked in a row,
  each announcing the next one or none, the run returns (or panics) after at most one round for each
  page: with that much fuel it has its result, and more fuel does not change it.
\<close>

theorem UpdateOrderStatus_terminates:
  assumes "linkedPages env (wrap64 (unixTime (fst (timeNow env w) - paymentTimeout) * 1000)) ([] # links)"
  shows "\<exists>r. \<forall>fuel \<ge> Suc (length links). UpdateOrderStatus fuel env s w = Some r"
  using updateLoop_pages [OF assms, of 0 s "snd (timeNow env w)"] by (simp add: UpdateOrderStatus_def case_prod_beta)

text \<open>
  Nothing else bounds the loop: when the server gives the same page whatever \<open>next\<close> says, and the page
  announces a next one, no amount of fuel is enough.
\<close>

theorem same_page_never_ends:
  assumes "\<And>u w. fetchPage env u w = (Page p, w)" "linksNext (metaLinks (trMeta p)) \<noteq> []" "trData p = []"
  shows "UpdateOrderStatus fuel env s w = None"
proof -
  have "updateLoop fuel env t nxt s w = None" for t nxt s w
  proof (induction fuel arbitrary: nxt)
    case (Suc fuel)
    then show ?case using assms by simp
  qed simp
  then show ?thesis by (simp add: UpdateOrderStatus_def case_prod_beta)
qed

text \<open>
  A transaction whose amount leads to an order that is already paid changes nothing. So when
  the callback of an order fails (no answer, or another status than 200), the order is paid, its
  amount stays in the index, and no later transaction of that amount requests the callback again:
  the notification is lost.
\<close>

theorem failed_callback_never_retried:
  fixes env :: "'w pay_env"
  assumes "orderMap s i = Some ord" "oStatus ord = ''pending''" "oCallback ord \<noteq> []"
    and "fst (httpGet env (oCallback ord @ ''?id='' @ oID ord) w) \<noteq> Some StatusOK"
    and "payOrder env amount i ord s w = (s', w')"
  shows "orderMap s' i = Some (ord\<lparr>oStatus := ''paid''\<rparr>) \<and> ActualAmountToID s' = ActualAmountToID s \<and>
    (\<forall>(env' :: 'w pay_env) w'' a. payOrder env' a i (ord\<lparr>oStatus := ''paid''\<rparr>) s' w'' = (s', w''))"
  using assms by (auto simp: payOrder_def Let_def split: prod.splits option.splits if_splits)

text \<open>
  C34: creating an order over HTTP and asking for its status returns the order just created, for
  every id that is not empty and every amount that is printed in range; and a text that is no
  64-bit integer is answered with 400 and changes nothing.
\<close>

theorem create_then_status:
  assumes "rMethod r = POST" "rPath r = ''/api/payment/order/create''" "rQuery r ''id'' = oid" "oid \<noteq> []"
    and "rMethod q = GET" "rPath q = ''/api/payment/order/status''" "rQuery q ''id'' = oid"
    and "- 62167219200 \<le> unixTime now" "unixTime now \<le> 253402300799"
    and "payServeHTTP now r s newWriter = (s', w)" "payServeHTTP now' q s' newWriter = (s'', w')"
  shows "if snd (parseInt (rQuery r ''amount'')) = None
    then finalStatus w = StatusOK \<and> s'' = s' \<and> finalStatus w' = StatusOK \<and> wBody w' = wBody w \<and>
      (\<exists>ord. wBody w = [POrder ord] \<and> orderMap s' oid = Some ord \<and> oStatus ord = ''pending'' \<and>
         oAmount ord = fst (parseInt (rQuery r ''amount'')) \<and>
         ActualAmountToID s' (oActualAmount ord) = Some oid)
    else finalStatus w = StatusBadRequest \<and> s' = s"
  using assms
  by (cases "parseInt (rQuery r ''amount'')"; cases "snd (parseInt (rQuery r ''amount''))")
    (auto simp: payServeHTTP_def handleCreateOrder_def handleGetOrderStatus_def CreateOrder_eq Let_def
      marshalOrder_def http_simps)

section \<open>Concrete runs\<close>

text \<open>An environment that replays a list of pages, with a fixed clock and callback answer.\<close>

definition scriptEnv :: "time \<Rightarrow> status option \<Rightarrow> fetch_result list pay_env" where
  "scriptEnv now answer =
     \<lparr>timeNow = (\<lambda>w. (now, w)),
      fetchPage = (\<lambda>u w. case w of [] \<Rightarrow> (TransportError, []) | f # fs \<Rightarrow> (f, fs)),
      httpGet = (\<lambda>u w. (answer, w))\<rparr>"

definition transferTx :: "int \<Rightarrow> int \<Rightarrow> Transaction" where
  "transferTx ts amount =
     \<lparr>txRet = [], txSignature = [], txTxID = ''t'', txNetUsage = 0, txRawDataHex = [], txNetFee = 0,
      txEnergyUsage = 0, txBlockNumber = 0, txBlockTimestamp = ts, txEnergyFee = 0, txEnergyUsageTotal = 0,
      txRawData = \<lparr>rdContract = [\<lparr>cParameter = \<lparr>cpValue = \<lparr>tvAmount = amount, tvOwnerAddress = [],
          tvToAddress = []\<rparr>, cpTypeURL = []\<rparr>, cType = ''TransferContract''\<rparr>],
        rdRefBlockBytes = [], rdRefBlockHash = [], rdExpiration = 0, rdTimestamp = ts\<rparr>,
      txInternalTransactions = []\<rparr>"

definition onePage :: "Transaction list \<Rightarrow> fetch_result" where
  "onePage txs = Page \<lparr>trData = txs, trSuccess = True,
     trMeta = \<lparr>metaAt = 0, metaPageSize = 0, metaFingerprint = [], metaLinks = \<lparr>linksNext = []\<rparr>\<rparr>\<rparr>"

definition twoOrders :: pay_state where
  "twoOrders = fst (CreateOrder 0 ''b'' 100 ''cb'' (fst (CreateOrder 0 ''a'' 100 ''cb'' initPayState)))"

lemma twoOrders_reach: "pay_reach True env twoOrders"
proof -
  let ?s1 = "fst (CreateOrder 0 ''a'' 100 ''cb'' initPayState)"
  have "pay_reach True env ?s1"
    by (rule pay_reach.step [OF pay_reach.init], rule pay_step.create [where oid = "''a''" and amount = 100])
      (simp_all add: CreateOrder_eq Let_def, code_simp+)
  then show ?thesis unfolding twoOrders_def
    by (rule pay_reach.step, intro pay_step.create [where oid = "''b''" and amount = 100])
      (simp_all add: CreateOrder_eq Let_def, code_simp+)
qed

lemma nextMissing_values:
  "NextMissing NewIntervalSet 100 = 100" "NextMissing (Add NewIntervalSet 100) 100 = 101"
  "NextMissing NewIntervalSet 1 = 1" "NextMissing (Add NewIntervalSet 1) 5000000 = 5000000"
  by code_simp+

lemmas run_simps = CreateOrder_eq initPayState_def Let_def nextMissing_values processTx_def payOrder_def
  scriptEnv_def transferTx_def onePage_def unixTime_def paymentTimeout_def minute_def second_def

lemma twoOrders_orders:
  "orderMap twoOrders ''a'' = Some \<lparr>oID = ''a'', oTrxAddress = defaultWalletAddress, oAmount = 100,
     oActualAmount = 100, oPaymentLink = [], oStatus = ''pending'', oCreatedAt = 0, oCallback = ''cb''\<rparr>"
  "orderMap twoOrders ''b'' = Some \<lparr>oID = ''b'', oTrxAddress = defaultWalletAddress, oAmount = 100,
     oActualAmount = 101, oPaymentLink = [], oStatus = ''pending'', oCreatedAt = 0, oCallback = ''cb''\<rparr>"
  "ActualAmountToID twoOrders 101 = Some ''b''" "sentCallbacks twoOrders = []"
  by (simp_all add: twoOrders_def run_simps)

text \<open>
  When a caller reuses an order id, the amount of the first order still leads to the second:
  an order over 5000000 sun is marked paid by a transfer of 1 sun.
\<close>

theorem reused_id_underpayment:
  "let s1 = fst (CreateOrder 0 ''x'' 1 [] initPayState);
       s2 = fst (CreateOrder 0 ''x'' 5000000 [] s1)
   in \<exists>r ord. UpdateOrderStatus 1 (scriptEnv 0 None) s2 [onePage [transferTx 0 1]] = Some r \<and>
        orderMap (fst (runState r)) ''x'' = Some ord \<and>
        oAmount ord = 5000000 \<and> oActualAmount ord = 5000000 \<and> oStatus ord = ''paid''"
  by (simp add: UpdateOrderStatus_def run_simps)

theorem orders_ask_distinct_amounts_witness:
  "pay_reach True (scriptEnv 0 None) twoOrders \<and>
   oActualAmount (the (orderMap twoOrders ''a'')) \<noteq> oActualAmount (the (orderMap twoOrders ''b''))"
  using orders_ask_distinct_amounts [OF twoOrders_reach [of "scriptEnv 0 None"] twoOrders_orders(1,2)]
    twoOrders_reach [of "scriptEnv 0 None"] twoOrders_orders(1,2) by simp

theorem order_record_type_witness:
  "oStatus (the (orderMap twoOrders ''a'')) \<in> {''pending'', ''paid''}"
  using order_record_type [OF twoOrders_reach [of "scriptEnv 0 None"] twoOrders_orders(1)] twoOrders_orders(1) by simp

theorem payment_matches_order_witness:
  "\<exists>r. processTx (scriptEnv 0 (Some 200)) (transferTx 0 101) twoOrders [] = r \<and>
     orderMap (fst (runState r)) ''b'' = Some ((the (orderMap twoOrders ''b''))\<lparr>oStatus := ''paid''\<rparr>) \<and>
     orderMap (fst (runState r)) ''a'' = orderMap twoOrders ''a''"
proof -
  let ?r = "processTx (scriptEnv 0 (Some 200)) (transferTx 0 101) twoOrders []"
  have "orderMap (fst (runState ?r)) ''b'' = Some ((the (orderMap twoOrders ''b''))\<lparr>oStatus := ''paid''\<rparr>)"
    by (simp add: run_simps twoOrders_orders)
  from payment_matches_order [OF twoOrders_reach refl twoOrders_orders(2) _ this] this
  show ?thesis by (simp add: twoOrders_orders)
qed

lemma paid_run:
  "UpdateOrderStatus 1 (scriptEnv 0 (Some 404)) twoOrders [onePage [transferTx 0 101, transferTx 0 101]] =
     Some (Ret (fst (payOrder (scriptEnv 0 (Some 404)) 101 ''b'' (the (orderMap twoOrders ''b'')) twoOrders []), []) ())"
  by (simp add: UpdateOrderStatus_def run_simps twoOrders_orders)

theorem UpdateOrderStatus_safe_witness:
  "\<exists>r. UpdateOrderStatus 1 (scriptEnv 0 (Some 404)) twoOrders
       [onePage [transferTx 0 101, transferTx 0 101]] = Some r \<and>
     pay_reach True (scriptEnv 0 (Some 404)) (fst (runState r)) \<and>
     sentCallbacks (fst (runState r)) = [(''b'', ''cb?id=b'')]"
  using UpdateOrderStatus_safe [OF twoOrders_reach paid_run] paid_run
  by (simp add: payOrder_def scriptEnv_def twoOrders_orders)

theorem callback_at_most_once_witness:
  "pay_reach True (scriptEnv 0 None) twoOrders \<and> distinct (map fst (sentCallbacks twoOrders))"
  using callback_at_most_once [OF twoOrders_reach [of "scriptEnv 0 None"]] twoOrders_reach [of "scriptEnv 0 None"]
  by simp

text \<open>A server with two pages, which finds the second one by the end of the URL.\<close>

definition pageTo :: "string \<Rightarrow> Transaction list \<Rightarrow> TransactionResponse" where
  "pageTo link txs = \<lparr>trData = txs, trSuccess = True,
     trMeta = \<lparr>metaAt = 0, metaPageSize = 0, metaFingerprint = [], metaLinks = \<lparr>linksNext = link\<rparr>\<rparr>\<rparr>"

definition pagedEnv :: "unit pay_env" where
  "pagedEnv = \<lparr>timeNow = (\<lambda>w. (0, w)),
     fetchPage = (\<lambda>u w. (if take 2 (rev u) = ''2p'' then Page (pageTo [] [transferTx 0 101]) else Page (pageTo ''p2'' []), w)),
     httpGet = (\<lambda>u w. (None, w))\<rparr>"

lemma pageUrl_end: "take 2 (rev (pageUrl t [])) = ''00''" "take 2 (rev (pageUrl t ''p2'')) = ''2p''"
  by (simp_all add: pageUrl_def Let_def itoa_values)

theorem UpdateOrderStatus_terminates_witness:
  "\<exists>r. UpdateOrderStatus 2 pagedEnv twoOrders () = Some r"
proof -
  have "linkedPages pagedEnv t ([] # [''p2''])" for t
    by (auto simp: linkedPages_def pagedEnv_def pageTo_def pageUrl_end less_Suc_eq)
  from UpdateOrderStatus_terminates [OF this, where s = twoOrders and w = "()"] show ?thesis by fastforce
qed

theorem same_page_never_ends_witness:
  "UpdateOrderStatus 100 (pagedEnv\<lparr>fetchPage := (\<lambda>u w. (Page (pageTo ''p2'' []), w))\<rparr>) twoOrders () = None"
  by (rule same_page_never_ends [where p = "pageTo ''p2'' []"]) (simp_all add: pageTo_def)

theorem failed_callback_never_retried_witness:
  "\<exists>s' ord. payOrder (scriptEnv 0 None) 101 ''b'' (the (orderMap twoOrders ''b'')) twoOrders [] = (s', []) \<and>
     orderMap s' ''b'' = Some ord \<and> oStatus ord = ''paid'' \<and>
     (\<forall>w. payOrder (scriptEnv 0 (Some 200)) 101 ''b'' ord s' w = (s', w))"
proof -
  let ?ord = "the (orderMap twoOrders ''b'')"
  obtain s' where s': "payOrder (scriptEnv 0 None) 101 ''b'' ?ord twoOrders [] = (s', [])"
    by (simp add: payOrder_def scriptEnv_def twoOrders_orders)
  have ord: "orderMap twoOrders ''b'' = Some ?ord" "oStatus ?ord = ''pending''" "oCallback ?ord \<noteq> []"
      "fst (httpGet (scriptEnv 0 None) (oCallback ?ord @ ''?id='' @ oID ?ord) []) \<noteq> Some StatusOK"
    by (simp_all add: twoOrders_orders scriptEnv_def)
  from failed_callback_never_retried [OF ord s'] s' show ?thesis
    by (intro exI [of _ s'] exI [of _ "?ord\<lparr>oStatus := ''paid''\<rparr>"]) simp
qed

definition payRequest :: "http_method \<Rightarrow> string \<Rightarrow> string \<Rightarrow> string \<Rightarrow> request" where
  "payRequest meth path oid amount =
     \<lparr>rMethod = meth, rPath = path,
      rQuery = (\<lambda>k. if k = ''id'' then oid else if k = ''amount'' then amount else []),
      rHeader = (\<lambda>_. []), rRemoteAddr = [], rBody = Some [], rJson = None\<rparr>"

theorem create_then_status_witness:
  "let r = payRequest POST ''/api/payment/order/create'' ''a'' ''100'';
       q = payRequest GET ''/api/payment/order/status'' ''a'' [];
       (s', w) = payServeHTTP 0 r initPayState newWriter;
       (s'', w') = payServeHTTP 1 q s' newWriter
   in finalStatus w' = StatusOK \<and> wBody w' = wBody w"
proof -
  let ?r = "payRequest POST ''/api/payment/order/create'' ''a'' ''100''"
  let ?q = "payRequest GET ''/api/payment/order/status'' ''a'' []"
  obtain s' w where one: "payServeHTTP 0 ?r initPayState newWriter = (s', w)" by fastforce
  obtain s'' w' where two: "payServeHTTP 1 ?q s' newWriter = (s'', w')" by fastforce
  have "snd (parseInt ''100'') = None" by (simp add: parse_eval)
  then have amount: "snd (parseInt (rQuery ?r ''amount'')) = None" by (simp add: payRequest_def)
  have reqs: "rMethod ?r = POST" "rPath ?r = ''/api/payment/order/create''" "rQuery ?r ''id'' = ''a''" "''a'' \<noteq> []"
      "rMethod ?q = GET" "rPath ?q = ''/api/payment/order/status''" "rQuery ?q ''id'' = ''a''"
      "- 62167219200 \<le> unixTime 0" "unixTime 0 \<le> 253402300799"
    by (simp_all add: payRequest_def unixTime_def)
  have "finalStatus w' = StatusOK \<and> wBody w' = wBody w"
    using create_then_status [OF reqs one two] amount by argo
  with one two show ?thesis by simp
qed

end
