(* ===== verification/Payment_Recognition.thy ===== *)
theory Payment_Recognition
  imports Payment_Orders
begin

text \<open>
  The converse of the safety of payments: a transfer that is shown to the task of
  src/payment/order/task.go is recognised. \<open>txsSeen\<close> lists the transactions a run of
  \<open>UpdateOrderStatus\<close> looks at, each with the clock reading it is compared with; if one of them is
  a recent transfer of the amount of an order that is filed in the index, the order is paid when
  the run is over and its callback was requested, whatever else the pages hold and even when a
  later page ends the run with a panic.
\<close>

section \<open>The transactions a run looks at\<close>

fun txsSeenOnPage :: "'w pay_env \<Rightarrow> Transaction list \<Rightarrow> pay_state \<Rightarrow> 'w \<Rightarrow> (Transaction \<times> time) list" where
  "txsSeenOnPage env [] s w = []"
| "txsSeenOnPage env (tx # txs) s w =
     (tx, fst (timeNow env w)) #
       (case processTx env tx s w of
          Panic _ \<Rightarrow> []
        | Ret (s1, w1) _ \<Rightarrow> txsSeenOnPage env txs s1 w1)"

fun txsSeenByLoop :: "nat \<Rightarrow> 'w pay_env \<Rightarrow> int \<Rightarrow> string \<Rightarrow> pay_state \<Rightarrow> 'w \<Rightarrow> (Transaction \<times> time) list" where
  "txsSeenByLoop 0 env minTimestamp next s w = []"
| "txsSeenByLoop (Suc fuel) env minTimestamp next s w =
     (case fetchPage env (pageUrl minTimestamp next) w of
        (Page result, w1) \<Rightarrow>
          txsSeenOnPage env (trData result) s w1 @
          (case processTxs env (trData result) s w1 of
             Panic _ \<Rightarrow> []
           | Ret (s2, w2) _ \<Rightarrow>
               if linksNext (metaLinks (trMeta result)) = [] then []
               else txsSeenByLoop fuel env minTimestamp (linksNext (metaLinks (trMeta result))) s2 w2)
      | _ \<Rightarrow> [])"

definition txsSeen :: "nat \<Rightarrow> 'w pay_env \<Rightarrow> pay_state \<Rightarrow> 'w \<Rightarrow> (Transaction \<times> time) list" where
  "txsSeen fuel env s w =
     (let (now, w1) = timeNow env w
      in txsSeenByLoop fuel env (wrap64 (unixTime (now - paymentTimeout) * 1000)) [] s w1)"

text \<open>A transaction that pays an amount at a given time.\<close>

definition transfers :: "Transaction \<Rightarrow> time \<Rightarrow> int \<Rightarrow> bool" where
  "transfers tx now a \<longleftrightarrow>
     unixTime (now - paymentTimeout) \<le> txBlockTimestamp tx sdiv 1000 \<and>
     (case rdContract (txRawData tx) of
        [] \<Rightarrow> False
      | c # _ \<Rightarrow> cType c = ''TransferContract'' \<and> tvAmount (cpValue (cParameter c)) = a)"

text \<open>The order waits for its amount, or it is paid and its callback was requested.\<close>

definition awaiting :: "pay_state \<Rightarrow> int \<Rightarrow> string \<Rightarrow> Order \<Rightarrow> bool" where
  "awaiting s a i ord \<longleftrightarrow> ActualAmountToID s a = Some i \<and> orderMap s i = Some ord \<and> oStatus ord = ''pending''"

definition settled :: "pay_state \<Rightarrow> string \<Rightarrow> Order \<Rightarrow> bool" where
  "settled s i ord \<longleftrightarrow> orderMap s i = Some (ord\<lparr>oStatus := ''paid''\<rparr>) \<and>
     (oCallback ord \<noteq> [] \<longrightarrow> (i, oCallback ord @ ''?id='' @ oID ord) \<in> set (sentCallbacks s))"

section \<open>One transaction\<close>

lemma payOrder_settles:
  assumes "payOrder env a i ord s w = (s', w')" "oStatus ord = ''pending''"
  shows "settled s' i ord"
  using assms(1)
proof (cases rule: payOrder_cases)
  case (paid sent kept)
  then show ?thesis by (simp add: settled_def)
qed (use assms(2) in simp)

lemma processTx_settles:
  assumes "awaiting s a i ord" "transfers tx (fst (timeNow env w)) a"
  shows "settled (fst (runState (processTx env tx s w))) i ord" "\<exists>sw. processTx env tx s w = Ret sw ()"
proof -
  obtain now w1 where now: "timeNow env w = (now, w1)" by fastforce
  obtain c cs where c: "rdContract (txRawData tx) = c # cs" "cType c = ''TransferContract''"
      "tvAmount (cpValue (cParameter c)) = a"
    using assms(2) by (auto simp: transfers_def split: list.splits)
  obtain s' w' where paid: "payOrder env a i ord s w1 = (s', w')" by fastforce
  have "processTx env tx s w = Ret (s', w') ()"
    using assms now c paid by (simp add: processTx_def transfers_def awaiting_def)
  moreover have "settled s' i ord" using payOrder_settles [OF paid] assms(1) by (simp add: awaiting_def)
  ultimately show "settled (fst (runState (processTx env tx s w))) i ord" "\<exists>sw. processTx env tx s w = Ret sw ()"
    by simp_all
qed

text \<open>Any other transaction leaves the order as it was or pays it, and a settled order stays
  settled.\<close>

lemma processTx_awaiting:
  assumes "index_exact s" "awaiting s a i ord"
  shows "awaiting (fst (runState (processTx env tx s w))) a i ord \<or>
    settled (fst (runState (processTx env tx s w))) i ord"
  using refl [of "processTx env tx s w"]
proof (cases rule: processTx_cases)
  case idle
  with assms(2) show ?thesis by simp
next
  case (pay c cs b k ok w1 w2)
  have own: "k = i \<longleftrightarrow> b = a"
    using assms pay(4,5) unfolding index_exact_def awaiting_def by (metis option.inject)
  show ?thesis
  proof (cases "k = i")
    case True
    with pay(5) assms(2) have "ok = ord" by (simp add: awaiting_def)
    with payOrder_settles [OF pay(7)] assms(2) True show ?thesis by (simp add: awaiting_def)
  next
    case False
    from pay(7) show ?thesis
      by (cases rule: payOrder_cases) (use False own assms(2) in \<open>auto simp: awaiting_def\<close>)
  qed
qed

lemma processTx_settled:
  assumes "settled s i ord"
  shows "settled (fst (runState (processTx env tx s w))) i ord"
  using refl [of "processTx env tx s w"]
proof (cases rule: processTx_cases)
  case (pay c cs b k ok w1 w2)
  from pay(7) show ?thesis
  proof (cases rule: payOrder_cases)
    case (paid sent kept)
    then have "k \<noteq> i" using pay(5) assms by (auto simp: settled_def)
    with paid(2) assms show ?thesis by (auto simp: settled_def)
  qed (use assms in simp)
qed (use assms in simp)

section \<open>A page and a run\<close>

lemma processTx_reach:
  "pay_reach fresh env s \<Longrightarrow> pay_reach fresh env (fst (runState (processTx env tx s w)))"
  by (rule pay_reach.step) (auto intro: pay_step.transaction)

lemma processTxs_settled:
  "settled s i ord \<Longrightarrow> settled (fst (runState (processTxs env txs s w))) i ord"
proof (induction txs arbitrary: s w)
  case (Cons tx txs)
  then show ?case
    using processTx_settled [OF Cons.prems, of env tx w] by (auto split: run.splits)
qed simp

lemma processTxs_recognise:
  assumes "pay_reach True env s" "awaiting s a i ord"
  shows "awaiting (fst (runState (processTxs env txs s w))) a i ord \<and>
       (\<forall>(tx, now) \<in> set (txsSeenOnPage env txs s w). \<not> transfers tx now a) \<or>
     settled (fst (runState (processTxs env txs s w))) i ord"
  using assms
proof (induction txs arbitrary: s w)
  case (Cons tx txs)
  note exact = pay_reach_fresh [OF Cons.prems(1), THEN conjunct1]
  consider "settled (fst (runState (processTx env tx s w))) i ord"
    | "awaiting (fst (runState (processTx env tx s w))) a i ord" "\<not> transfers tx (fst (timeNow env w)) a"
    using processTx_awaiting [OF exact Cons.prems(2), of env tx w] processTx_settles [OF Cons.prems(2), of tx env w]
    by blast
  then show ?case
  proof cases
    case 1
    then show ?thesis by (cases "processTx env tx s w") (auto simp: processTxs_settled split: prod.split)
  next
    case 2
    show ?thesis
    proof (cases "processTx env tx s w")
      case (Ret sw u)
      with 2 show ?thesis
        using Cons.IH [of "fst sw" "snd sw"] processTx_reach [OF Cons.prems(1), of tx w] by (cases sw) auto
    qed (use 2 in simp)
  qed
qed simp

lemma updateLoop_settled:
  "settled s i ord \<Longrightarrow> updateLoop fuel env m nxt s w = Some r \<Longrightarrow> settled (fst (runState r)) i ord"
proof (induction fuel arbitrary: nxt s w)
  case (Suc fuel)
  obtain f w1 where f: "fetchPage env (pageUrl m nxt) w = (f, w1)" by fastforce
  show ?case
  proof (cases f)
    case (Page p)
    have page: "settled (fst (runState (processTxs env (trData p) s w1))) i ord"
      using Suc.prems(1) by (rule processTxs_settled)
    show ?thesis
    proof (cases "processTxs env (trData p) s w1")
      case (Ret sw u)
      then have "settled (fst sw) i ord" using page by simp
      then show ?thesis
        using Suc.prems(2) f Page Ret Suc.IH [of "fst sw"]
        by (cases sw; cases "linksNext (metaLinks (trMeta p)) = []") (auto dest: sym)
    qed (use Suc.prems(2) f Page page in auto)
  qed (use Suc.prems f in auto)
qed simp

lemma processTxs_reach:
  "pay_reach fresh env s \<Longrightarrow> pay_reach fresh env (fst (runState (processTxs env txs s w)))"
  using pay_reach_steps [OF processTxs_steps [OF refl]] .

lemma updateLoop_recognise:
  assumes "pay_reach True env s" "awaiting s a i ord" "updateLoop fuel env m nxt s w = Some r"
    and "(tx, now) \<in> set (txsSeenByLoop fuel env m nxt s w)" "transfers tx now a"
  shows "settled (fst (runState r)) i ord"
  using assms
proof (induction fuel arbitrary: nxt s w)
  case (Suc fuel)
  obtain f w1 where f: "fetchPage env (pageUrl m nxt) w = (f, w1)" by fastforce
  with Suc.prems(4) obtain p where p: "f = Page p" by (cases f) auto
  let ?run = "processTxs env (trData p) s w1" and ?nxt = "linksNext (metaLinks (trMeta p))"
  note page = processTxs_recognise [OF Suc.prems(1,2), of "trData p" w1]
  show ?case
  proof (cases "\<exists>s2 w2. ?run = Ret (s2, w2) () \<and> ?nxt \<noteq> []")
    case True
    then obtain s2 w2 where more: "?run = Ret (s2, w2) ()" "?nxt \<noteq> []" by blast
    have rest: "updateLoop fuel env m ?nxt s2 w2 = Some r" using Suc.prems(3) f p more by simp
    have "settled s2 i ord \<or> awaiting s2 a i ord \<and> (tx, now) \<in> set (txsSeenByLoop fuel env m ?nxt s2 w2)"
      using page Suc.prems(4,5) f p more by auto
    moreover have "pay_reach True env s2" using processTxs_reach [OF Suc.prems(1), of "trData p" w1] more by simp
    ultimately show ?thesis
      using updateLoop_settled [OF _ rest] Suc.IH [OF _ _ rest _ Suc.prems(5)] by blast
  next
    case False
    then have "fst (runState r) = fst (runState ?run)" and "(tx, now) \<in> set (txsSeenOnPage env (trData p) s w1)"
      using Suc.prems(3,4) f p by (cases ?run; auto)+
    with page Suc.prems(5) show ?thesis by auto
  qed
qed simp

section \<open>Property\<close>

text \<open>
  C4: a payment is never overlooked. When callers never reuse an order id, an order that waits
  for an amount in the index is paid at the end of every run of \<open>UpdateOrderStatus\<close> that looks at a
  recent transfer of that amount, on whatever page and among whatever other transactions; its
  callback, if it has one, was requested with its id.
\<close>

theorem payment_recognised:
  assumes "pay_reach True env s" "ActualAmountToID s a = Some i" "orderMap s i = Some ord"
    and "oStatus ord = ''pending''" "UpdateOrderStatus fuel env s w = Some r"
    and "(tx, now) \<in> set (txsSeen fuel env s w)" "transfers tx now a"
  shows "orderMap (fst (runState r)) i = Some (ord\<lparr>oStatus := ''paid''\<rparr>) \<and>
    (oCallback ord \<noteq> [] \<longrightarrow> (i, oCallback ord @ ''?id='' @ oID ord) \<in> set (sentCallbacks (fst (runState r))))"
proof -
  have "awaiting s a i ord" using assms(2-4) by (simp add: awaiting_def)
  from updateLoop_recognise [OF assms(1) this _ _ assms(7)] assms(5,6)
  have "settled (fst (runState r)) i ord"
    by (simp add: UpdateOrderStatus_def txsSeen_def case_prod_beta)
  then show ?thesis by (simp add: settled_def)
qed

text \<open>The order sits on the second page, behind an unknown amount and the transfer for another order.\<close>

definition twoPages :: "fetch_result list" where
  "twoPages =
     [Page \<lparr>trData = [transferTx 0 7], trSuccess = True,
        trMeta = \<lparr>metaAt = 0, metaPageSize = 0, metaFingerprint = [], metaLinks = \<lparr>linksNext = ''p2''\<rparr>\<rparr>\<rparr>,
      onePage [transferTx 0 100, transferTx 0 101]]"

theorem payment_recognised_witness:
  "\<exists>r. UpdateOrderStatus 2 (scriptEnv 0 None) twoOrders twoPages = Some r \<and>
     oStatus (the (orderMap (fst (runState r)) ''b'')) = ''paid'' \<and>
     (''b'', ''cb?id=b'') \<in> set (sentCallbacks (fst (runState r)))"
proof -
  have idx: "ActualAmountToID twoOrders 7 = None" "ActualAmountToID twoOrders 100 = Some ''a''"
    by (simp_all add: twoOrders_def run_simps)
  note sim = run_simps twoOrders_orders twoPages_def idx
  obtain r where r: "UpdateOrderStatus 2 (scriptEnv 0 None) twoOrders twoPages = Some r"
    by (simp add: UpdateOrderStatus_def sim numeral_2_eq_2)
  have seen: "(transferTx 0 101, 0) \<in> set (txsSeen 2 (scriptEnv 0 None) twoOrders twoPages)"
    by (simp add: txsSeen_def sim numeral_2_eq_2)
  have "transfers (transferTx 0 101) 0 101" by (simp add: transfers_def run_simps)
  from payment_recognised [OF twoOrders_reach twoOrders_orders(3,2) _ r seen this] r show ?thesis
    by simp
qed

end
