(* ===== verification/Traffic_Reports.thy ===== *)
theory Traffic_Reports
  imports Node_Service
begin

text \<open>
  What the traffic reports of a node add up to (src/node/server.go, \<open>StartTrafficReport\<close>). The report
  reads the counters of a user several times while the copying goroutines go on counting, advances its
  cache before it sends, and sends only when it knows a web server. Over any stretch of counted bytes
  and reports the bytes of a user are accounted for: those in reports that were received, those in
  reports that were not, and those counted between the two reads of one report, which no report has.
\<close>

section \<open>A stretch of a node's life\<close>

fun upBytes :: "nat \<Rightarrow> stats_event list \<Rightarrow> int" where
  "upBytes a [] = 0"
| "upBytes a (Counted b up n # evs) = (if b = a \<and> up then int n else 0) + upBytes a evs"
| "upBytes a (Linked port # evs) = upBytes a evs"

fun downBytes :: "nat \<Rightarrow> stats_event list \<Rightarrow> int" where
  "downBytes a [] = 0"
| "downBytes a (Counted b up n # evs) = (if b = a \<and> \<not> up then int n else 0) + downBytes a evs"
| "downBytes a (Linked port # evs) = downBytes a evs"

definition eventBytes :: "nat \<Rightarrow> stats_event list \<Rightarrow> int" where
  "eventBytes a evs = upBytes a evs + downBytes a evs"

definition turnEvents :: "report_turn \<Rightarrow> stats_event list" where
  "turnEvents t = rtBefore t @ rtSum t @ rtGap t @ rtCopy t"

definition roundEvents :: "report_turn list \<Rightarrow> stats_event list" where
  "roundEvents turns = concat (map turnEvents turns)"

text \<open>The bytes that come after the difference has read a counter and before the copy has.\<close>

definition missedIn :: "nat \<Rightarrow> report_turn \<Rightarrow> int" where
  "missedIn a t = downBytes a (rtSum t @ rtGap t @ rtCopy t) + upBytes a (rtGap t)"

text \<open>Bytes are counted and reports made, between connects and disconnects. A report comes with the
  providers of the web service it finds and whether the web server receives it if it is sent. The result
  has every report with whether it was received.\<close>

datatype activity = Traffic "stats_event list" | ReportIn "Registration list option" bool "report_turn list"

fun runActivity ::
  "string \<Rightarrow> activity list \<Rightarrow> 'x node_state \<Rightarrow> 'x node_state \<times> (bool \<times> (string \<times> int) list) list" where
  "runActivity ginPort [] s = (s, [])"
| "runActivity ginPort (Traffic evs # acts) s = runActivity ginPort acts (s\<lparr>nStats := runEvents evs (nStats s)\<rparr>)"
| "runActivity ginPort (ReportIn providers arrives turns # acts) s =
     (let (s1, report, sent) = trafficRound providers ginPort turns s;
          (s2, reports) = runActivity ginPort acts s1
      in (s2, (sent \<noteq> None \<and> arrives, report) # reports))"

fun bytesOf :: "nat \<Rightarrow> activity list \<Rightarrow> int" where
  "bytesOf a [] = 0"
| "bytesOf a (Traffic evs # acts) = eventBytes a evs + bytesOf a acts"
| "bytesOf a (ReportIn providers arrives turns # acts) = eventBytes a (roundEvents turns) + bytesOf a acts"

definition missedRound :: "string \<Rightarrow> nat \<Rightarrow> report_turn list \<Rightarrow> int" where
  "missedRound uuid a turns = sum_list (map (missedIn a) (filter (\<lambda>t. rtUser t = uuid) turns))"

fun missedBytes :: "string \<Rightarrow> nat \<Rightarrow> activity list \<Rightarrow> int" where
  "missedBytes uuid a [] = 0"
| "missedBytes uuid a (Traffic evs # acts) = missedBytes uuid a acts"
| "missedBytes uuid a (ReportIn providers arrives turns # acts) = missedRound uuid a turns + missedBytes uuid a acts"

definition reportedFor :: "string \<Rightarrow> (string \<times> int) list \<Rightarrow> int" where
  "reportedFor uuid report = sum_list (map snd (filter (\<lambda>e. fst e = uuid) report))"

text \<open>A user's traffic in the reports that were received, or in those that were not.\<close>

definition trafficIn :: "bool \<Rightarrow> string \<Rightarrow> (bool \<times> (string \<times> int) list) list \<Rightarrow> int" where
  "trafficIn received uuid reports = sum_list (map (\<lambda>(got, report). if got = received then reportedFor uuid report else 0) reports)"

text \<open>The rounds of a stretch range over the connections, each user once.\<close>

definition roundsOk :: "'x node_state \<Rightarrow> activity list \<Rightarrow> bool" where
  "roundsOk s acts \<longleftrightarrow> (\<forall>providers arrives turns. ReportIn providers arrives turns \<in> set acts \<longrightarrow>
     distinct (map rtUser turns) \<and> rtUser ` set turns = dom (connections s))"

section \<open>Lemmas: counters\<close>

definition rawTotal :: "ConnStats \<Rightarrow> int" where
  "rawTotal c = Uploaded c + Downloaded c"

text \<open>Counters in range, where the arithmetic of the code is exact.\<close>

definition statsOk :: "ConnStats \<Rightarrow> bool" where
  "statsOk c \<longleftrightarrow> 0 \<le> Uploaded c \<and> 0 \<le> Downloaded c \<and> rawTotal c \<le> maxInt64"

definition cachedStats :: "'x node_state \<Rightarrow> int \<Rightarrow> ConnStats" where
  "cachedStats s port = (case statsCache s port of None \<Rightarrow> zeroStats | Some c \<Rightarrow> c)"

text \<open>The counters of a port are at an address and in range.\<close>

definition live :: "int \<Rightarrow> nat \<Rightarrow> stats_world \<Rightarrow> bool" where
  "live port a w \<longleftrightarrow> statsStore w port = Some a \<and> a < length (statsHeap w) \<and> statsOk (statsHeap w ! a)"

lemma wrap64_nonneg_id: "0 \<le> n \<Longrightarrow> n \<le> maxInt64 \<Longrightarrow> wrap64 n = n"
  by (rule wrap64_id) (simp add: inInt64_def minInt64_def)

lemma totalBytes_ok: "statsOk c \<Longrightarrow> totalBytes c = rawTotal c"
  by (simp add: statsOk_def totalBytes_def rawTotal_def wrap64_nonneg_id add.commute)

lemma bytes_nonneg: "0 \<le> upBytes a evs" "0 \<le> downBytes a evs" "0 \<le> eventBytes a evs"
proof -
  show up: "0 \<le> upBytes a evs" by (induction a evs rule: upBytes.induct) auto
  show down: "0 \<le> downBytes a evs" by (induction a evs rule: downBytes.induct) auto
  show "0 \<le> eventBytes a evs" using up down by (simp add: eventBytes_def)
qed

lemma bytes_append [simp]:
  "upBytes a (xs @ ys) = upBytes a xs + upBytes a ys" "downBytes a (xs @ ys) = downBytes a xs + downBytes a ys"
  "eventBytes a (xs @ ys) = eventBytes a xs + eventBytes a ys"
proof -
  show up: "upBytes a (xs @ ys) = upBytes a xs + upBytes a ys" by (induction a xs rule: upBytes.induct) auto
  show down: "downBytes a (xs @ ys) = downBytes a xs + downBytes a ys" by (induction a xs rule: downBytes.induct) auto
  show "eventBytes a (xs @ ys) = eventBytes a xs + eventBytes a ys" using up down by (simp add: eventBytes_def)
qed

lemma bytesOf_nonneg: "0 \<le> bytesOf a acts"
  by (induction a acts rule: bytesOf.induct) (simp_all add: bytes_nonneg)

lemma missedBytes_nonneg: "0 \<le> missedBytes uuid a acts"
proof (induction uuid a acts rule: missedBytes.induct)
  case (3 uuid a providers arrives turns acts)
  have "0 \<le> missedIn a t" for t by (simp add: missedIn_def bytes_nonneg)
  then have "0 \<le> missedRound uuid a turns" unfolding missedRound_def by (intro sum_list_nonneg) auto
  with 3 show ?case by simp
qed simp_all

lemma runEvents_append [simp]: "runEvents (xs @ ys) w = runEvents ys (runEvents xs w)"
  by (induction xs w rule: runEvents.induct) auto

lemma live_count:
  assumes "live port a w" "rawTotal (statsHeap w ! a) + (if b = a then int n else 0) \<le> maxInt64"
  shows "live port a (countBytes b up n w) \<and>
    Uploaded (statsHeap (countBytes b up n w) ! a) = Uploaded (statsHeap w ! a) + (if b = a \<and> up then int n else 0) \<and>
    Downloaded (statsHeap (countBytes b up n w) ! a) = Downloaded (statsHeap w ! a) + (if b = a \<and> \<not> up then int n else 0)"
proof (cases "b = a")
  case True
  let ?c = "statsHeap w ! a"
  have ok: "0 \<le> Uploaded ?c" "0 \<le> Downloaded ?c" "a < length (statsHeap w)" using assms(1) by (auto simp: live_def statsOk_def)
  with assms(2) True have "wrap64 (Uploaded ?c + int n) = Uploaded ?c + int n" "wrap64 (Downloaded ?c + int n) = Downloaded ?c + int n"
    by (auto simp: rawTotal_def intro!: wrap64_nonneg_id)
  with assms True ok show ?thesis by (auto simp: live_def countBytes_nth statsOk_def rawTotal_def)
next
  case False
  with assms show ?thesis by (auto simp: live_def countBytes_nth)
qed

lemma live_link:
  assumes "live port a w"
  shows "live port a (fst (loadOrStore p w)) \<and> statsHeap (fst (loadOrStore p w)) ! a = statsHeap w ! a"
  using assms by (auto simp: live_def loadOrStore_def nth_append split: option.split)

lemma live_events:
  assumes "live port a w" "rawTotal (statsHeap w ! a) + eventBytes a evs \<le> maxInt64"
  shows "live port a (runEvents evs w) \<and>
    Uploaded (statsHeap (runEvents evs w) ! a) = Uploaded (statsHeap w ! a) + upBytes a evs \<and>
    Downloaded (statsHeap (runEvents evs w) ! a) = Downloaded (statsHeap w ! a) + downBytes a evs"
  using assms
proof (induction evs w rule: runEvents.induct)
  case (2 b up n evs w)
  have "rawTotal (statsHeap w ! a) + (if b = a then int n else 0) \<le> maxInt64"
    using 2(3) bytes_nonneg [of a evs] by (auto simp: eventBytes_def split: if_splits)
  note step = live_count [OF 2(2) this, of up]
  have "rawTotal (statsHeap (countBytes b up n w) ! a) + eventBytes a evs \<le> maxInt64"
    using step 2(3) by (auto simp: rawTotal_def eventBytes_def split: if_splits)
  with 2(1) step show ?case by auto
next
  case (3 p evs w)
  have "eventBytes a (Linked p # evs) = eventBytes a evs" by (simp add: eventBytes_def)
  with 3 live_link [OF 3(2), of p] show ?case by auto
qed (simp add: eventBytes_def)

section \<open>Lemmas: one round\<close>

lemma reported_append: "reportedFor u (xs @ ys) = reportedFor u xs + reportedFor u ys"
  by (simp add: reportedFor_def)

lemma reported_Cons: "reportedFor u ((v, d) # xs) = (if v = u then d else 0) + reportedFor u xs"
  by (simp add: reportedFor_def)

lemma reportLoop_world: "snd (snd (reportLoop snap ts w cache)) = runEvents (roundEvents ts) w"
proof (induction ts arbitrary: w cache)
  case (Cons t ts)
  then show ?case by (simp add: roundEvents_def turnEvents_def Let_def case_prod_beta split: option.split)
qed (simp add: roundEvents_def)

lemma reportLoop_append:
  "reportLoop snap (xs @ ys) w cache =
   (case reportLoop snap xs w cache of (r1, c1, w1) \<Rightarrow> case reportLoop snap ys w1 c1 of (r2, c2, w2) \<Rightarrow> (r1 @ r2, c2, w2))"
proof (induction xs arbitrary: w cache)
  case (Cons t xs)
  then show ?case by (simp add: Let_def case_prod_beta split: option.split)
qed simp

lemma reportLoop_absent:
  assumes "\<forall>u. snap u = Some port \<longrightarrow> u = uuid"
  shows "uuid \<notin> rtUser ` set ts \<Longrightarrow> reportedFor uuid (fst (reportLoop snap ts w cache)) = 0 \<and>
    fst (snd (reportLoop snap ts w cache)) port = cache port"
proof (induction ts arbitrary: w cache)
  case (Cons t ts)
  then have "snap (rtUser t) \<noteq> Some port" "rtUser t \<noteq> uuid" using assms by auto
  moreover have "reportedFor uuid (fst (reportLoop snap ts v c)) = 0" "fst (snd (reportLoop snap ts v c)) port = c port" for v c
    using Cons by auto
  ultimately show ?case by (auto simp: Let_def reported_Cons case_prod_beta split: option.split)
qed (simp add: reportedFor_def)

text \<open>The reads of one turn, as they add up.\<close>

lemma turn_effect:
  assumes "live port a w" "rawTotal (statsHeap w ! a) + eventBytes a (turnEvents t) \<le> maxInt64"
    and "snap (rtUser t) = Some port" "statsOk old" "old = (case cache port of None \<Rightarrow> zeroStats | Some c \<Rightarrow> c)"
    and "Uploaded old \<le> Uploaded (statsHeap w ! a)" "Downloaded old \<le> Downloaded (statsHeap w ! a)"
  shows "\<exists>d copy. reportLoop snap [t] w cache = ([(rtUser t, d)], cache(port \<mapsto> copy), runEvents (turnEvents t) w) \<and>
    0 \<le> d \<and> rawTotal copy = rawTotal old + d + missedIn a t \<and> 0 \<le> Uploaded copy \<and> 0 \<le> Downloaded copy \<and>
    Uploaded copy \<le> Uploaded (statsHeap (runEvents (turnEvents t) w) ! a) \<and>
    Downloaded copy \<le> Downloaded (statsHeap (runEvents (turnEvents t) w) ! a) \<and>
    (turnEvents t = [] \<longrightarrow> copy = statsHeap w ! a)"
proof -
  let ?c = "statsHeap w ! a"
  have run: "live port a (runEvents evs w)" "Uploaded (statsHeap (runEvents evs w) ! a) = Uploaded ?c + upBytes a evs"
      "Downloaded (statsHeap (runEvents evs w) ! a) = Downloaded ?c + downBytes a evs"
    if "turnEvents t = evs @ rest" for evs rest
  proof -
    have "eventBytes a evs \<le> eventBytes a (turnEvents t)" using bytes_nonneg(3) [of a rest] by (simp add: that)
    with live_events [OF assms(1), of evs] assms(2)
    show "live port a (runEvents evs w)" "Uploaded (statsHeap (runEvents evs w) ! a) = Uploaded ?c + upBytes a evs"
      "Downloaded (statsHeap (runEvents evs w) ! a) = Downloaded ?c + downBytes a evs" by linarith+
  qed
  note w0 = run [of "rtBefore t" "rtSum t @ rtGap t @ rtCopy t"] and w1 = run [of "rtBefore t @ rtSum t" "rtGap t @ rtCopy t"]
    and w2 = run [of "rtBefore t @ rtSum t @ rtGap t" "rtCopy t"] and w3 = run [of "turnEvents t" "[]"]
  define d where "d = Downloaded ?c + downBytes a (rtBefore t) + (Uploaded ?c + upBytes a (rtBefore t @ rtSum t)) - rawTotal old"
  define copy where "copy = \<lparr>Uploaded = Uploaded ?c + upBytes a (rtBefore t @ rtSum t @ rtGap t), Downloaded = Downloaded ?c + downBytes a (turnEvents t)\<rparr>"
  have ok: "0 \<le> Uploaded ?c" "0 \<le> Downloaded ?c" using assms(1) by (auto simp: live_def statsOk_def)
  note nn = bytes_nonneg(1,2) [of a "rtBefore t"] bytes_nonneg(1,2) [of a "rtSum t"] bytes_nonneg(1,2) [of a "rtGap t"] bytes_nonneg(1,2) [of a "rtCopy t"]
  have fits: "Uploaded ?c + Downloaded ?c + upBytes a (rtBefore t) + upBytes a (rtSum t) + upBytes a (rtGap t) + upBytes a (rtCopy t) +
      downBytes a (rtBefore t) + downBytes a (rtSum t) + downBytes a (rtGap t) + downBytes a (rtCopy t) \<le> maxInt64"
    using assms(2) by (simp add: rawTotal_def eventBytes_def turnEvents_def)
  have read: "wrap64 (Downloaded ?c + downBytes a (rtBefore t) + (Uploaded ?c + upBytes a (rtBefore t @ rtSum t))) =
      Downloaded ?c + downBytes a (rtBefore t) + (Uploaded ?c + upBytes a (rtBefore t @ rtSum t))"
    using ok nn fits by (intro wrap64_nonneg_id) simp_all
  have old: "totalBytes old = rawTotal old" by (rule totalBytes_ok [OF assms(4)])
  have nonneg: "0 \<le> d" using assms(6,7) nn by (simp add: d_def rawTotal_def)
  have "0 \<le> rawTotal old" using assms(4) by (simp add: statsOk_def rawTotal_def)
  then have "wrap64 d = d" using nonneg ok nn fits by (intro wrap64_nonneg_id) (simp_all add: d_def)
  with read old have diff: "wrap64 (wrap64 (Downloaded ?c + downBytes a (rtBefore t) + (Uploaded ?c + upBytes a (rtBefore t @ rtSum t))) - totalBytes old) = d"
    by (simp add: d_def)
  have "statsStore (runEvents (rtBefore t) w) port = Some a" using w0(1) by (simp add: live_def turnEvents_def)
  then have "reportLoop snap [t] w cache = ([(rtUser t, d)], cache(port \<mapsto> copy), runEvents (turnEvents t) w)"
    using assms(3,5) diff w0(2,3) w1(2,3) w2(2,3) w3(2,3)
    by (simp add: Let_def turnEvents_def copy_def)
  moreover have "rawTotal copy = rawTotal old + d + missedIn a t"
    by (simp add: copy_def d_def rawTotal_def missedIn_def turnEvents_def)
  moreover have "turnEvents t = [] \<longrightarrow> copy = ?c" by (simp add: copy_def turnEvents_def)
  ultimately show ?thesis using nonneg ok nn w3(2,3) by (auto simp: copy_def turnEvents_def)
qed

text \<open>The user under observation: connected on a port of its own, with counters at address \<open>a\<close> that are not
  below the cached ones.\<close>

definition observed :: "string \<Rightarrow> int \<Rightarrow> nat \<Rightarrow> 'x node_state \<Rightarrow> bool" where
  "observed uuid port a s \<longleftrightarrow> connections s uuid = Some port \<and> (\<forall>u. connections s u = Some port \<longrightarrow> u = uuid) \<and>
     live port a (nStats s) \<and> statsOk (cachedStats s port) \<and>
     Uploaded (cachedStats s port) \<le> Uploaded (statsHeap (nStats s) ! a) \<and>
     Downloaded (cachedStats s port) \<le> Downloaded (statsHeap (nStats s) ! a)"

lemma observed_events:
  assumes "observed uuid port a s" "rawTotal (statsHeap (nStats s) ! a) + eventBytes a evs \<le> maxInt64"
  shows "observed uuid port a (s\<lparr>nStats := runEvents evs (nStats s)\<rparr>) \<and>
    rawTotal (statsHeap (runEvents evs (nStats s)) ! a) = rawTotal (statsHeap (nStats s) ! a) + eventBytes a evs"
  using assms(1) live_events [OF _ assms(2), of port] bytes_nonneg [of a evs]
  by (auto simp: observed_def cachedStats_def rawTotal_def eventBytes_def)

text \<open>The parts of a round before and after the user's turn.\<close>

lemma round_split:
  assumes "distinct (map rtUser turns)" "uuid \<in> rtUser ` set turns"
  obtains xs t ys where "turns = xs @ t # ys" "rtUser t = uuid" "uuid \<notin> rtUser ` set xs" "uuid \<notin> rtUser ` set ys"
proof -
  obtain t where t: "t \<in> set turns" "rtUser t = uuid" using assms(2) by auto
  then obtain xs ys where "turns = xs @ t # ys" by (meson split_list)
  with assms(1) t(2) that show thesis by auto
qed

text \<open>A whole round: the entry of the user, the new cached counters and what they miss.\<close>

lemma round_effect:
  assumes own: "snap uuid = Some port" "\<forall>u. snap u = Some port \<longrightarrow> u = uuid" and lv: "live port a w"
    and old: "statsOk old" "old = (case cache port of None \<Rightarrow> zeroStats | Some c \<Rightarrow> c)"
      "Uploaded old \<le> Uploaded (statsHeap w ! a)" "Downloaded old \<le> Downloaded (statsHeap w ! a)"
    and fits: "rawTotal (statsHeap w ! a) + eventBytes a (roundEvents turns) \<le> maxInt64"
    and split: "turns = xs @ t # ys" "rtUser t = uuid" "uuid \<notin> rtUser ` set xs" "uuid \<notin> rtUser ` set ys"
  shows "\<exists>report cache' d copy. reportLoop snap turns w cache = (report, cache', runEvents (roundEvents turns) w) \<and>
    reportedFor uuid report = d \<and> cache' port = Some copy \<and> 0 \<le> d \<and> rawTotal copy = rawTotal old + d + missedIn a t \<and>
    0 \<le> Uploaded copy \<and> 0 \<le> Downloaded copy \<and> Uploaded copy \<le> Uploaded (statsHeap (runEvents (roundEvents turns) w) ! a) \<and>
    Downloaded copy \<le> Downloaded (statsHeap (runEvents (roundEvents turns) w) ! a) \<and>
    (roundEvents turns = [] \<longrightarrow> copy = statsHeap w ! a)"
proof -
  have evs: "roundEvents turns = roundEvents xs @ turnEvents t @ roundEvents ys" by (simp add: split(1) roundEvents_def)
  note nn = bytes_nonneg [of a "roundEvents xs"] bytes_nonneg [of a "turnEvents t"] bytes_nonneg [of a "roundEvents ys"]
  have fits3: "rawTotal (statsHeap w ! a) + eventBytes a (roundEvents xs) + eventBytes a (turnEvents t) +
      eventBytes a (roundEvents ys) \<le> maxInt64" using fits by (simp add: evs)
  define wx where "wx = runEvents (roundEvents xs) w"
  define wt where "wt = runEvents (turnEvents t) wx"
  have x: "live port a wx" "Uploaded (statsHeap wx ! a) = Uploaded (statsHeap w ! a) + upBytes a (roundEvents xs)"
      "Downloaded (statsHeap wx ! a) = Downloaded (statsHeap w ! a) + downBytes a (roundEvents xs)"
    using live_events [OF lv, of "roundEvents xs"] fits3 nn unfolding wx_def by linarith+
  then have fitt: "rawTotal (statsHeap wx ! a) + eventBytes a (turnEvents t) + eventBytes a (roundEvents ys) \<le> maxInt64"
    using fits3 by (simp add: rawTotal_def eventBytes_def)
  then have fity: "rawTotal (statsHeap wt ! a) + eventBytes a (roundEvents ys) \<le> maxInt64" "live port a wt"
    using live_events [OF x(1), of "turnEvents t"] nn unfolding wt_def by (auto simp: rawTotal_def eventBytes_def)
  obtain r1 c1 where px: "reportLoop snap xs w cache = (r1, c1, wx)" "reportedFor uuid r1 = 0" "c1 port = cache port"
    using reportLoop_absent [OF own(2) split(3), of w cache] reportLoop_world [of snap xs w cache]
    unfolding wx_def by (metis fst_conv prod.collapse snd_conv)
  have "Uploaded old \<le> Uploaded (statsHeap wx ! a)" "Downloaded old \<le> Downloaded (statsHeap wx ! a)" using old(3,4) x(2,3) nn by linarith+
  with turn_effect [OF x(1) _ _ old(1), where t = t and snap = snap and cache = c1] fitt nn split(2) own(1) old(2) px(3)
  obtain d copy where turn: "reportLoop snap [t] wx c1 = ([(uuid, d)], c1(port \<mapsto> copy), wt)" "0 \<le> d"
      "rawTotal copy = rawTotal old + d + missedIn a t" "0 \<le> Uploaded copy" "0 \<le> Downloaded copy"
      "Uploaded copy \<le> Uploaded (statsHeap wt ! a)" "Downloaded copy \<le> Downloaded (statsHeap wt ! a)"
      "turnEvents t = [] \<longrightarrow> copy = statsHeap wx ! a"
    unfolding wt_def by auto
  obtain r3 c3 where pz: "reportLoop snap ys wt (c1(port \<mapsto> copy)) = (r3, c3, runEvents (roundEvents ys) wt)"
      "reportedFor uuid r3 = 0" "c3 port = Some copy"
    using reportLoop_absent [OF own(2) split(4), of wt "c1(port \<mapsto> copy)"] reportLoop_world [of snap ys wt "c1(port \<mapsto> copy)"]
    by (metis fst_conv fun_upd_same prod.collapse snd_conv)
  have last: "runEvents (roundEvents turns) w = runEvents (roundEvents ys) wt" by (simp add: evs wt_def wx_def)
  have "turns = xs @ [t] @ ys" using split(1) by simp
  then have loop: "reportLoop snap turns w cache = (r1 @ (uuid, d) # r3, c3, runEvents (roundEvents turns) w)"
    unfolding last by (simp only: reportLoop_append px(1) turn(1) pz(1) prod.case) simp
  have "reportedFor uuid (r1 @ (uuid, d) # r3) = d" by (simp add: reported_append reported_Cons px(2) pz(2))
  moreover have "roundEvents turns = [] \<longrightarrow> copy = statsHeap w ! a" using turn(8) by (auto simp: evs wx_def)
  moreover have "Uploaded copy \<le> Uploaded (statsHeap (runEvents (roundEvents turns) w) ! a)"
      "Downloaded copy \<le> Downloaded (statsHeap (runEvents (roundEvents turns) w) ! a)"
    using live_events [OF fity(2,1)] turn(6,7) nn unfolding last by linarith+
  ultimately show ?thesis using loop turn(2-5) pz(3) by blast
qed

lemma observed_report:
  assumes obs: "observed uuid port a s" and turns: "distinct (map rtUser turns)" "uuid \<in> rtUser ` set turns"
    and fits: "rawTotal (statsHeap (nStats s) ! a) + eventBytes a (roundEvents turns) \<le> maxInt64"
    and round: "trafficRound provs gin turns s = (s', report, sent)"
  shows "observed uuid port a s' \<and> nStats s' = runEvents (roundEvents turns) (nStats s) \<and> 0 \<le> reportedFor uuid report \<and>
    rawTotal (cachedStats s' port) = rawTotal (cachedStats s port) + reportedFor uuid report + missedRound uuid a turns \<and>
    (roundEvents turns = [] \<longrightarrow> cachedStats s' port = statsHeap (nStats s) ! a)"
proof -
  obtain xs t ys where split: "turns = xs @ t # ys" "rtUser t = uuid" "uuid \<notin> rtUser ` set xs" "uuid \<notin> rtUser ` set ys"
    using round_split [OF turns] by metis
  have obsD: "connections s uuid = Some port" "\<forall>u. connections s u = Some port \<longrightarrow> u = uuid" "live port a (nStats s)"
      "statsOk (cachedStats s port)" "Uploaded (cachedStats s port) \<le> Uploaded (statsHeap (nStats s) ! a)"
      "Downloaded (cachedStats s port) \<le> Downloaded (statsHeap (nStats s) ! a)" using obs unfolding observed_def by blast+
  obtain rep cache' d copy where loop: "reportLoop (connections s) turns (nStats s) (statsCache s) = (rep, cache', runEvents (roundEvents turns) (nStats s))"
      "reportedFor uuid rep = d" "cache' port = Some copy" "0 \<le> d" "rawTotal copy = rawTotal (cachedStats s port) + d + missedIn a t"
      "0 \<le> Uploaded copy" "0 \<le> Downloaded copy" "Uploaded copy \<le> Uploaded (statsHeap (runEvents (roundEvents turns) (nStats s)) ! a)"
      "Downloaded copy \<le> Downloaded (statsHeap (runEvents (roundEvents turns) (nStats s)) ! a)"
      "roundEvents turns = [] \<longrightarrow> copy = statsHeap (nStats s) ! a"
    using round_effect [where cache = "statsCache s", OF obsD(1-4) cachedStats_def obsD(5,6) fits split] by blast
  have s': "nStats s' = runEvents (roundEvents turns) (nStats s)" "connections s' = connections s" "cachedStats s' port = copy" "report = rep"
    using round loop(3) by (auto simp: trafficRound_def loop(1) cachedStats_def)
  have z: "live port a (nStats s')" using live_events [OF obsD(3) fits] by (simp add: s'(1))
  then have "statsOk copy" using loop(6-9) by (simp add: live_def statsOk_def rawTotal_def s'(1))
  then have "observed uuid port a s'"
    unfolding observed_def s'(2,3) using obsD(1,2) z loop(8,9) [folded s'(1)] by blast
  moreover have "filter (\<lambda>u. rtUser u = uuid) xs = []" "filter (\<lambda>u. rtUser u = uuid) ys = []"
    using split(3,4) by (auto simp: filter_empty_conv)
  then have "missedRound uuid a turns = missedIn a t" by (simp add: missedRound_def split(1,2))
  ultimately show ?thesis using loop(2,4,5,10) s' by simp
qed

section \<open>Lemmas: a stretch\<close>

lemma trafficIn_Cons:
  "trafficIn b uuid ((got, report) # reports) = (if got = b then reportedFor uuid report else 0) + trafficIn b uuid reports"
  by (simp add: trafficIn_def)

lemma trafficIn_snoc:
  "trafficIn b uuid (reports @ [(got, report)]) = trafficIn b uuid reports + (if got = b then reportedFor uuid report else 0)"
  by (simp add: trafficIn_def)

lemma roundsOk_next: "roundsOk s (act # acts) \<Longrightarrow> connections s' = connections s \<Longrightarrow> roundsOk s' acts"
  by (auto simp: roundsOk_def)

lemma runActivity_accounts:
  assumes "observed uuid port a s" "rawTotal (statsHeap (nStats s) ! a) + bytesOf a acts \<le> maxInt64"
    and "roundsOk s acts" "runActivity gin acts s = (s', reports)"
  shows "observed uuid port a s' \<and> connections s' = connections s \<and>
    rawTotal (statsHeap (nStats s') ! a) = rawTotal (statsHeap (nStats s) ! a) + bytesOf a acts \<and>
    0 \<le> trafficIn True uuid reports \<and> 0 \<le> trafficIn False uuid reports \<and>
    rawTotal (cachedStats s' port) = rawTotal (cachedStats s port) +
      trafficIn True uuid reports + trafficIn False uuid reports + missedBytes uuid a acts"
  using assms
proof (induction acts arbitrary: s reports)
  case Nil
  then show ?case by (auto simp: trafficIn_def)
next
  case (Cons act acts)
  show ?case
  proof (cases act)
    case (Traffic evs)
    let ?s1 = "s\<lparr>nStats := runEvents evs (nStats s)\<rparr>"
    have fits: "rawTotal (statsHeap (nStats s) ! a) + eventBytes a evs \<le> maxInt64"
      using Cons.prems(2) bytesOf_nonneg [of a acts] by (simp add: Traffic)
    note step = observed_events [OF Cons.prems(1) fits]
    have same: "connections ?s1 = connections s" "cachedStats ?s1 port = cachedStats s port" by (simp_all add: cachedStats_def)
    with Cons.IH [of ?s1 reports] step Cons.prems roundsOk_next [OF Cons.prems(3), of ?s1] show ?thesis by (simp add: Traffic add.assoc)
  next
    case (ReportIn provs arrives turns)
    obtain s1 report sent where round: "trafficRound provs gin turns s = (s1, report, sent)" by (metis prod.collapse)
    obtain s2 reports2 where rest: "runActivity gin acts s1 = (s2, reports2)" by fastforce
    have turns: "distinct (map rtUser turns)" "uuid \<in> rtUser ` set turns"
      using Cons.prems(1,3) by (auto simp: ReportIn roundsOk_def observed_def)
    have fits: "rawTotal (statsHeap (nStats s) ! a) + eventBytes a (roundEvents turns) \<le> maxInt64"
      using Cons.prems(2) bytesOf_nonneg [of a acts] by (simp add: ReportIn)
    note step = observed_report [OF Cons.prems(1) turns fits round]
    have conn: "connections s1 = connections s" using trafficRound_frame(1) [of provs gin turns s] by (simp add: round)
    have tot: "rawTotal (statsHeap (nStats s1) ! a) = rawTotal (statsHeap (nStats s) ! a) + eventBytes a (roundEvents turns)"
      using observed_events [OF Cons.prems(1) fits] step by simp
    have out: "s' = s2" "reports = (sent \<noteq> None \<and> arrives, report) # reports2" using Cons.prems(4) by (auto simp: ReportIn round rest)
    note IH = Cons.IH [of s1 reports2] 
    show ?thesis using IH rest step tot conn Cons.prems(2) roundsOk_next [OF Cons.prems(3) conn] out
      by (simp add: ReportIn trafficIn_Cons add.assoc)
  qed
qed

lemma runActivity_append:
  "runActivity gin (xs @ ys) s =
   (case runActivity gin xs s of (s1, r1) \<Rightarrow> case runActivity gin ys s1 of (s2, r2) \<Rightarrow> (s2, r1 @ r2))"
proof (induction xs arbitrary: s)
  case (Cons act xs)
  then show ?case by (cases act) (simp_all add: Let_def case_prod_beta)
qed simp

text \<open>A user on a port that was not reported on before is observed from zero.\<close>

lemma observed_fresh:
  assumes "connections s uuid = Some port" "\<forall>u. connections s u = Some port \<longrightarrow> u = uuid"
    and "statsStore (nStats s) port = Some a" "a < length (statsHeap (nStats s))"
    and "statsCache s port = None" "statsHeap (nStats s) ! a = zeroStats"
  shows "observed uuid port a s"
proof -
  have zero: "cachedStats s port = zeroStats" "statsOk zeroStats"
    using assms(5) by (simp_all add: cachedStats_def statsOk_def zeroStats_def rawTotal_def maxInt64_def)
  have "live port a (nStats s)" using assms(3,4,6) zero(2) by (simp add: live_def)
  then show ?thesis unfolding observed_def assms(6) zero(1) using assms(1,2) zero(2) order_refl [of "Uploaded zeroStats"]
      order_refl [of "Downloaded zeroStats"] by blast
qed

text \<open>All reports up to a last one, during which nothing is counted.\<close>

lemma reports_total:
  assumes "observed uuid port a s" "rawTotal (statsHeap (nStats s) ! a) + bytesOf a acts \<le> maxInt64"
    and "roundsOk s (acts @ [ReportIn provs arrives turns])" "roundEvents turns = []"
    and "runActivity gin (acts @ [ReportIn provs arrives turns]) s = (s', reports)"
  shows "trafficIn True uuid reports + trafficIn False uuid reports + missedBytes uuid a acts =
      rawTotal (statsHeap (nStats s) ! a) + bytesOf a acts - rawTotal (cachedStats s port)"
    "0 \<le> trafficIn True uuid reports" "0 \<le> trafficIn False uuid reports"
proof -
  obtain s1 r1 where run: "runActivity gin acts s = (s1, r1)" by fastforce
  have rounds: "roundsOk s acts" "distinct (map rtUser turns)" "uuid \<in> rtUser ` set turns"
    using assms(1,3) by (auto simp: roundsOk_def observed_def)
  note acc = runActivity_accounts [OF assms(1,2) rounds(1) run]
  have fits: "rawTotal (statsHeap (nStats s1) ! a) + eventBytes a (roundEvents turns) \<le> maxInt64"
    using acc assms(2) by (simp add: assms(4) eventBytes_def)
  obtain s2 r2 sent where round: "trafficRound provs gin turns s1 = (s2, r2, sent)" by (metis prod.collapse)
  note rep = observed_report [OF acc [THEN conjunct1] rounds(2,3) fits round]
  have "missedIn a t = 0" if "t \<in> set turns" for t
    using assms(4) that by (auto simp: missedIn_def roundEvents_def turnEvents_def)
  then have "map (missedIn a) (filter (\<lambda>t. rtUser t = uuid) turns) = map (\<lambda>_. 0) (filter (\<lambda>t. rtUser t = uuid) turns)" by simp
  then have none: "missedRound uuid a turns = 0" unfolding missedRound_def by (simp only: sum_list_0)
  have got: "reports = r1 @ [(sent \<noteq> None \<and> arrives, r2)]" using assms(5) by (simp add: runActivity_append run round)
  have r2: "0 \<le> reportedFor uuid r2" using rep by blast
  have sum: "trafficIn True uuid reports + trafficIn False uuid reports =
      trafficIn True uuid r1 + trafficIn False uuid r1 + reportedFor uuid r2" "trafficIn b uuid r1 \<le> trafficIn b uuid reports" for b
    using r2 unfolding got trafficIn_snoc by auto
  show "trafficIn True uuid reports + trafficIn False uuid reports + missedBytes uuid a acts =
      rawTotal (statsHeap (nStats s) ! a) + bytesOf a acts - rawTotal (cachedStats s port)"
    "0 \<le> trafficIn True uuid reports" "0 \<le> trafficIn False uuid reports"
    using acc rep none assms(4) sum(1) sum(2) [of True] sum(2) [of False] by auto
qed

section \<open>Properties\<close>

text \<open>
  C13: every byte is accounted for. For a user connected on a port that was not reported on before, the
  bytes its proxy counted, up to a last report during which none are counted, are the traffic in the
  reports that the web server received, plus that in the reports it did not receive (none was sent, or
  it was lost), plus the bytes that were counted between the two times a report reads a counter; no
  byte is reported twice and no report takes any back. This holds whatever is counted before, during and after each report and in
  whatever order the reports range over the connections.
\<close>

theorem traffic_accounted:
  assumes "connections s uuid = Some port" "\<forall>u. connections s u = Some port \<longrightarrow> u = uuid"
    and "statsStore (nStats s) port = Some a" "a < length (statsHeap (nStats s))"
    and "statsCache s port = None" "statsHeap (nStats s) ! a = zeroStats"
    and "roundsOk s (acts @ [ReportIn provs arrives turns])" "roundEvents turns = []"
    and "bytesOf a acts \<le> maxInt64"
    and "runActivity ginPort (acts @ [ReportIn provs arrives turns]) s = (s', reports)"
  shows "bytesOf a acts = trafficIn True uuid reports + trafficIn False uuid reports + missedBytes uuid a acts \<and>
    0 \<le> trafficIn True uuid reports \<and> 0 \<le> trafficIn False uuid reports"
proof -
  have obs: "observed uuid port a s" by (rule observed_fresh [OF assms(1-6)])
  have zero: "rawTotal (statsHeap (nStats s) ! a) = 0" "rawTotal (cachedStats s port) = 0"
    using assms(5,6) by (simp_all add: cachedStats_def rawTotal_def zeroStats_def)
  then show ?thesis using reports_total [OF obs _ assms(7,8,10)] assms(9) by simp
qed

text \<open>
  A disconnect drops the counters of the user's port, and later reports do not name the user: what was
  counted since the last report is never reported.
\<close>

lemma reportLoop_users: "fst ` set (fst (reportLoop snap ts w cache)) \<subseteq> dom snap"
proof (induction ts arbitrary: w cache)
  case (Cons t ts)
  then show ?case by (auto simp: Let_def case_prod_beta split: option.splits)
qed simp

lemma trafficRound_report:
  "trafficRound provs gin turns s = (s', report, sent) \<Longrightarrow> report = fst (reportLoop (connections s) turns (nStats s) (statsCache s))"
  by (auto simp: trafficRound_def case_prod_beta)

lemma disconnectLoop_store_None:
  "statsStore (nStats s) port = None \<Longrightarrow> statsStore (nStats (disconnectLoop us s)) port = None"
proof (induction us arbitrary: s)
  case (Cons u us)
  show ?case using Cons.prems by (auto simp: Let_def intro!: Cons.IH split: option.split)
qed simp

lemma disconnectLoop_store:
  "u \<in> set us \<Longrightarrow> connections s u = Some port \<Longrightarrow> statsStore (nStats (disconnectLoop us s)) port = None"
proof (induction us arbitrary: s)
  case (Cons v us)
  define t where "t = disconnectLoop [v] s"
  have rest: "disconnectLoop (v # us) s = disconnectLoop us t" by (simp add: t_def Let_def)
  show ?case
  proof (cases "v = u")
    case True
    then have "statsStore (nStats t) port = None" using Cons.prems(2) by (simp add: t_def Let_def split: option.split)
    then show ?thesis unfolding rest by (rule disconnectLoop_store_None)
  next
    case False
    then have "connections t u = Some port" using disconnectLoop_maps [of "[v]" s u] Cons.prems(2) by (simp add: t_def)
    with False Cons show ?thesis unfolding rest by auto
  qed
qed simp

theorem disconnect_drops_unreported:
  assumes "u \<in> set us" "connections s u = Some port"
    and "trafficRound providers ginPort turns (disconnectLoop us s) = (s', report, sent)"
  shows "statsStore (nStats (disconnectLoop us s)) port = None \<and> u \<notin> fst ` set report"
proof -
  have "u \<notin> dom (connections (disconnectLoop us s))" using disconnectLoop_maps [of us s u] assms(1) by auto
  then show ?thesis
    using reportLoop_users trafficRound_report [OF assms(3)] disconnectLoop_store [OF assms(1,2)] by blast
qed

section \<open>Concrete runs\<close>

definition quietTurn :: "string \<Rightarrow> report_turn" where
  "quietTurn u = \<lparr>rtUser = u, rtBefore = [], rtSum = [], rtGap = [], rtCopy = []\<rparr>"

text \<open>A client connects through proxy \<open>i\<close>, and bytes are uploaded on the counters of its port.\<close>

definition useProxy :: "nat \<Rightarrow> nat \<Rightarrow> unit node_state \<Rightarrow> unit node_state" where
  "useProxy i n s =
     (case NewProxy True (pxSourceIP (proxies s ! i)) [Accepted ''5.5.5.5:6000'' (''1.1.1.1:'' @ itoa (pxPort (proxies s ! i))) True] (nStats s) of
        (w, links, phase) \<Rightarrow> s\<lparr>nStats := countBytes (links ! 0) True n w\<rparr>)"

lemma useProxy_oneUser:
  "useProxy 0 n oneUser = oneUser\<lparr>nStats := \<lparr>statsHeap = [\<lparr>Uploaded = wrap64 (int n), Downloaded = 0\<rparr>], statsStore = [10000 \<mapsto> 0]\<rparr>\<rparr>"
  by (simp add: useProxy_def oneUser_eq NewProxy_def handleConnection_def splitHostPort_def loadOrStore_def countBytes_def
      zeroStats_def parse_eval itoa_10000 Let_def)

text \<open>100 bytes and a report that is received; during the next one 20 bytes come down after the
  difference was taken; it is lost on the way.\<close>

definition twoReports :: "activity list" where
  "twoReports = [Traffic [Counted 0 True 100], ReportIn (Some [emptyRegistration]) True [quietTurn ''u1''],
     Traffic [Counted 0 False 50],
     ReportIn (Some [emptyRegistration]) False [(quietTurn ''u1'')\<lparr>rtGap := [Counted 0 False 20]\<rparr>]]"

theorem traffic_accounted_witness:
  "\<exists>s' reports. runActivity ''80'' (twoReports @ [ReportIn None True [quietTurn ''u1'']]) (useProxy 0 0 oneUser) = (s', reports) \<and>
     trafficIn True ''u1'' reports + trafficIn False ''u1'' reports = 150"
proof -
  let ?s = "useProxy 0 0 oneUser"
  obtain s' reports where run: "runActivity ''80'' (twoReports @ [ReportIn None True [quietTurn ''u1'']]) ?s = (s', reports)" by fastforce
  have s: "connections ?s ''u1'' = Some 10000" "statsStore (nStats ?s) 10000 = Some 0" "0 < length (statsHeap (nStats ?s))"
      "statsCache ?s 10000 = None" "statsHeap (nStats ?s) ! 0 = zeroStats"
    unfolding useProxy_oneUser by (simp_all add: oneUser_eq zeroStats_def wrap64_def)
  have own: "\<forall>u. connections ?s u = Some 10000 \<longrightarrow> u = ''u1''" unfolding useProxy_oneUser by (auto simp: oneUser_eq split: if_splits)
  have rounds: "roundsOk ?s (twoReports @ [ReportIn None True [quietTurn ''u1'']])"
    unfolding useProxy_oneUser by (auto simp: roundsOk_def twoReports_def quietTurn_def oneUser_eq)
  have bytes: "bytesOf 0 twoReports = 170" "missedBytes ''u1'' 0 twoReports = 20"
    by (simp_all add: twoReports_def quietTurn_def eventBytes_def roundEvents_def turnEvents_def missedRound_def missedIn_def)
  have "bytesOf 0 twoReports \<le> maxInt64" "roundEvents [quietTurn ''u1''] = []"
    by (simp_all add: bytes maxInt64_def roundEvents_def turnEvents_def quietTurn_def)
  from traffic_accounted [OF s(1) own s(2-5) rounds this(2,1) run] bytes run show ?thesis by auto
qed

text \<open>
  Bytes counted between the two reads of a report are never reported: 100 bytes before a report, 20
  during it after the difference was taken; the report says 100, and the next one, with nothing
  counted in between, 0.
\<close>

theorem bytes_between_reads_lost:
  "let s1 = useProxy 0 100 oneUser;
       (s2, report1, _) = trafficRound None [] [(quietTurn ''u1'')\<lparr>rtGap := [Counted 0 False 20]\<rparr>] s1;
       (s3, report2, _) = trafficRound None [] [quietTurn ''u1''] s2
   in totalBytes (statsHeap (nStats s3) ! 0) = 120 \<and> report1 = [(''u1'', 100)] \<and> report2 = [(''u1'', 0)]"
  unfolding useProxy_oneUser by (simp add: oneUser_eq trafficRound_def Let_def quietTurn_def totalBytes_def zeroStats_def wrap64_def countBytes_def)

text \<open>
  A report that cannot be sent is not made up for: with no web server known, the round advances the
  cache all the same, and the next report, which could be sent, has nothing left.
\<close>

theorem unsent_report_lost:
  "let s1 = useProxy 0 100 oneUser;
       (s2, report1, sent1) = trafficRound (Some []) ''80'' [quietTurn ''u1''] s1;
       (s3, report2, sent2) = trafficRound (Some [emptyRegistration]) ''80'' [quietTurn ''u1''] s2
   in report1 = [(''u1'', 100)] \<and> sent1 = None \<and> report2 = [(''u1'', 0)] \<and> sent2 \<noteq> None"
  unfolding useProxy_oneUser by (simp add: oneUser_eq trafficRound_def Let_def quietTurn_def totalBytes_def zeroStats_def wrap64_def)

text \<open>
  The report's cache outlives a disconnect. The first user moves 100 bytes on port 10000, is
  reported and disconnected; a second user gets the same port and moves 30 bytes: its first report
  is -70.
\<close>

theorem port_reuse_negative_traffic:
  "let s1 = useProxy 0 100 oneUser;
       (s2, report1, _) = trafficRound None [] [quietTurn ''u1''] s1;
       s3 = serve [0] (connectRequest ''u2'') (serve [] (disconnectRequest [''u1'']) s2);
       s4 = useProxy 1 30 s3;
       (s5, report2, _) = trafficRound None [] [quietTurn ''u2''] s4
   in report1 = [(''u1'', 100)] \<and> report2 = [(''u2'', -70)]"
  unfolding useProxy_oneUser by (simp add: oneUser_eq trafficRound_def Let_def quietTurn_def totalBytes_def zeroStats_def wrap64_def node_eval
      useProxy_def NewProxy_def handleConnection_def loadOrStore_def countBytes_def parse_eval itoa_10000)

end
