(* ===== verification/Billing.thy ===== *)
theory Billing
  imports Traffic_Reports Web_Server Cache_Coherence
begin

text \<open>
  From bytes to bills: the traffic reports of a node (src/node/server.go, \<open>StartTrafficReport\<close>) as the
  web server receives them (\<open>/traffic\<close> in src/cmd/webservice/main.go, \<open>AddTraffic\<close> in
  src/web/controllers/controllers.go), over any stretch of counted bytes and reports, and what
  \<open>Connect\<close> then answers to a user who has used up the limit.
\<close>

section \<open>Model\<close>

text \<open>The request a node makes with a report, as the web server sees it.\<close>

definition trafficRequestTo :: "string \<Rightarrow> json \<Rightarrow> string \<Rightarrow> request" where
  "trafficRequestTo url j remote = \<lparr>rMethod = POST, rPath = fst (urlTarget url), rQuery = queryGet (snd (urlTarget url)),
     rHeader = (\<lambda>k. if k = ''Content-Type'' then ''application/json'' else []), rRemoteAddr = remote,
     rBody = Some [], rJson = Some j\<rparr>"

text \<open>A node that counts and reports, and the web server that serves each report it receives.\<close>

fun billingRun ::
  "'d web_env \<Rightarrow> (request \<Rightarrow> json writer) \<Rightarrow> string \<Rightarrow> string \<Rightarrow> activity list \<Rightarrow>
   'x node_state \<Rightarrow> 'd web_server \<Rightarrow> 'x node_state \<times> 'd web_server" where
  "billingRun e noRoute ginPort remote [] s ws = (s, ws)"
| "billingRun e noRoute ginPort remote (Traffic evs # acts) s ws =
     billingRun e noRoute ginPort remote acts (s\<lparr>nStats := runEvents evs (nStats s)\<rparr>) ws"
| "billingRun e noRoute ginPort remote (ReportIn providers arrives turns # acts) s ws =
     (let (s1, report, sent) = trafficRound providers ginPort turns s;
          ws1 = (case sent of
                   None \<Rightarrow> ws
                 | Some (url, j) \<Rightarrow>
                     if arrives then fst (ginServe e noRoute (trafficRequestTo url j remote) ws) else ws)
      in billingRun e noRoute ginPort remote acts s1 ws1)"

text \<open>The entries of the reports that were received.\<close>

definition receivedEntries :: "(bool \<times> (string \<times> int) list) list \<Rightarrow> (string \<times> int) list" where
  "receivedEntries reports = concat (map snd (filter fst reports))"

text \<open>The entries of reports that the database attributes to a row.\<close>

definition chargedFor :: "(string \<Rightarrow> string \<Rightarrow> bool) \<Rightarrow> (string \<times> int) list \<Rightarrow> User \<Rightarrow> int" where
  "chargedFor coll report u = sum_list (map snd (filter (\<lambda>entry. coll (UUID u) (fst entry)) report))"

definition charge :: "(string \<Rightarrow> string \<Rightarrow> bool) \<Rightarrow> (string \<times> int) list \<Rightarrow> User \<Rightarrow> User" where
  "charge coll report u = u\<lparr>TrafficUsed := wrap64 (TrafficUsed u + chargedFor coll report u)\<rparr>"

section \<open>Lemmas\<close>

text \<open>Every entry of a report is a 64-bit integer, so the web server can decode it.\<close>

lemma reportLoop_range: "(u, n) \<in> set (fst (reportLoop snap ts w cache)) \<Longrightarrow> inInt64 n"
proof (induction ts arbitrary: w cache)
  case (Cons t ts)
  then show ?case by (auto simp: Let_def case_prod_beta split: option.splits)
qed simp

lemma decode_encodeReport:
  assumes "\<forall>(u, n) \<in> set report. inInt64 n"
  shows "decodeReports (encodeReport report) = Some (map (\<lambda>(u, n). \<lparr>trUUID = u, trTraffic = n\<rparr>) report)"
  using assms
proof (induction report)
  case (Cons e report)
  then show ?case
    by (cases e) (simp add: decodeReports_def encodeReport_def trafficFields_def onField_def keyMatches_def foldChar_def)
qed (simp add: decodeReports_def encodeReport_def)

lemma decoded_charge:
  "reportedTraffic coll (map (\<lambda>(u, n). \<lparr>trUUID = u, trTraffic = n\<rparr>) report) v = chargedFor coll report v"
  by (induction report) (auto simp: reportedTraffic_def chargedFor_def)

lemma trafficRound_sent:
  assumes "trafficRound providers ginPort turns s = (s', report, Some (url, j))"
  shows "j = encodeReport report" "decodeReports j = Some (map (\<lambda>(u, n). \<lparr>trUUID = u, trTraffic = n\<rparr>) report)"
    "\<exists>provider rest. providers = Some (provider # rest) \<and> url = ''http://'' @ PublicIP provider @ '':'' @ ginPort @ ''/traffic''"
proof -
  have rep: "report = fst (reportLoop (connections s) turns (nStats s) (statsCache s))"
    and j: "j = encodeReport report"
    and url: "\<exists>provider rest. providers = Some (provider # rest) \<and> url = ''http://'' @ PublicIP provider @ '':'' @ ginPort @ ''/traffic''"
    using assms by (auto simp: trafficRound_def Let_def case_prod_beta split: if_splits option.splits list.splits)
  then have "\<forall>(u, n) \<in> set report. inInt64 n" using reportLoop_range by blast
  with j url show "j = encodeReport report" "decodeReports j = Some (map (\<lambda>(u, n). \<lparr>trUUID = u, trTraffic = n\<rparr>) report)"
    "\<exists>provider rest. providers = Some (provider # rest) \<and> url = ''http://'' @ PublicIP provider @ '':'' @ ginPort @ ''/traffic''"
    by (simp_all add: decode_encodeReport)
qed

lemma traffic_target:
  assumes "plainHost ip" "plainHost port"
  shows "urlTarget (''http://'' @ ip @ '':'' @ port @ ''/traffic'') = (''/traffic'', [])"
proof -
  have "urlTarget (''http://'' @ (ip @ '':'' @ port) @ CHR ''/'' # ''traffic'') = (CHR ''/'' # ''traffic'', [])"
    by (rule urlTarget_simple(2) [where query = "[]"]) (use assms in \<open>auto dest: plainHost_chars\<close>)
  then show ?thesis by simp
qed

text \<open>One report through the route of the web server.\<close>

lemma report_served:
  assumes "trafficRound providers ginPort turns s = (s', report, Some (url, j))"
    and "db_laws coll (weOps e) rows" "keyed coll (rows (wsDB ws))" "\<forall>u \<in> set (rows (wsDB ws)). inInt64 (TrafficUsed u)"
    and "\<forall>p \<in> set (the providers). plainHost (PublicIP p)" "plainHost ginPort"
  shows "\<exists>d. ginServe e noRoute (trafficRequestTo url j remote) ws =
      (ws\<lparr>wsDB := d\<rparr>, ginJSON StatusOK (JObj [(''status'', JStr ''success'')]) newWriter) \<and>
    rows d = map (charge coll report) (rows (wsDB ws))"
proof -
  let ?r = "trafficRequestTo url j remote"
  obtain provider rest where "providers = Some (provider # rest)" "url = ''http://'' @ PublicIP provider @ '':'' @ ginPort @ ''/traffic''"
    using trafficRound_sent(3) [OF assms(1)] by blast
  then have path: "rPath ?r = ''/traffic''" "rMethod ?r = POST" "rJson ?r = Some j"
    using traffic_target assms(5,6) by (simp_all add: trafficRequestTo_def)
  then have "ginServe e noRoute ?r ws = (ws\<lparr>wsDB := addTrafficLoop (weOps e) (map (\<lambda>(u, n). \<lparr>trUUID = u, trTraffic = n\<rparr>) report) (wsDB ws)\<rparr>,
      ginJSON StatusOK (JObj [(''status'', JStr ''success'')]) newWriter)"
    using trafficRound_sent(2) [OF assms(1)]
    by (simp add: ginServe_def webRoutes_def dispatch_def runHandler_def recovered_def AddTraffic_def)
  moreover note addTrafficLoop_rows [OF assms(2-4), of "map (\<lambda>(u, n). \<lparr>trUUID = u, trTraffic = n\<rparr>) report"]
  ultimately show ?thesis by (auto simp: decoded_charge charge_def)
qed

lemma charge_append: "charge coll r2 (charge coll r1 u) = charge coll (r1 @ r2) u"
  by (simp add: charge_def chargedFor_def wrap64_add_assoc)

lemma charge_nil: "inInt64 (TrafficUsed u) \<Longrightarrow> charge coll [] u = u"
  by (simp add: charge_def chargedFor_def wrap_simps)

lemma charge_keeps:
  "keyed coll us \<Longrightarrow> keyed coll (map (charge coll report) us)" "inInt64 (TrafficUsed (charge coll report u))"
  by (auto simp: charge_def intro: keyed_map)

text \<open>The web server charges exactly the reports it receives.\<close>

definition plainProviders :: "activity list \<Rightarrow> bool" where
  "plainProviders acts \<longleftrightarrow> (\<forall>ps arrives turns. ReportIn (Some ps) arrives turns \<in> set acts \<longrightarrow> (\<forall>p \<in> set ps. plainHost (PublicIP p)))"

lemma received_Cons:
  "receivedEntries ((got, report) # reports) = (if got then report else []) @ receivedEntries reports"
  by (simp add: receivedEntries_def)

lemma billingRun_rows:
  assumes "db_laws coll (weOps e) rows" "plainHost ginPort"
    and "plainProviders acts" "keyed coll (rows (wsDB ws))" "\<forall>u \<in> set (rows (wsDB ws)). inInt64 (TrafficUsed u)"
  shows "\<exists>ws'. billingRun e noRoute ginPort remote acts s ws = (fst (runActivity ginPort acts s), ws') \<and>
    rows (wsDB ws') = map (charge coll (receivedEntries (snd (runActivity ginPort acts s)))) (rows (wsDB ws)) \<and>
    wsConns ws' = wsConns ws \<and> wsTokens ws' = wsTokens ws"
  using assms(3-5)
proof (induction acts arbitrary: s ws)
  case Nil
  then show ?case by (auto simp: charge_nil receivedEntries_def intro!: map_idI [symmetric])
next
  case (Cons act acts)
  have plain: "plainProviders acts" using Cons.prems(1) by (auto simp: plainProviders_def)
  show ?case
  proof (cases act)
    case (Traffic evs)
    with Cons plain show ?thesis by simp
  next
    case (ReportIn provs arrives turns)
    obtain s1 report sent where round: "trafficRound provs ginPort turns s = (s1, report, sent)" by (metis prod.collapse)
    define ws1 where "ws1 = (case sent of None \<Rightarrow> ws
      | Some (url, j) \<Rightarrow> if arrives then fst (ginServe e noRoute (trafficRequestTo url j remote) ws) else ws)"
    let ?got = "if sent \<noteq> None \<and> arrives then report else []"
    have ws1: "rows (wsDB ws1) = map (charge coll ?got) (rows (wsDB ws)) \<and> wsConns ws1 = wsConns ws \<and> wsTokens ws1 = wsTokens ws"
    proof (cases "sent \<noteq> None \<and> arrives")
      case False
      with Cons.prems(3) show ?thesis by (auto simp: ws1_def charge_nil intro!: map_idI [symmetric] split: option.split)
    next
      case True
      then obtain url j where x: "sent = Some (url, j)" by auto
      have hosts: "\<forall>p \<in> set (the provs). plainHost (PublicIP p)"
        using trafficRound_sent(3) [OF round [unfolded x]] Cons.prems(1) by (auto simp: plainProviders_def ReportIn)
      from report_served [OF round [unfolded x] assms(1) Cons.prems(2,3) hosts assms(2), of noRoute remote] True
      show ?thesis by (auto simp: ws1_def x)
    qed
    then have "keyed coll (rows (wsDB ws1))" "\<forall>u \<in> set (rows (wsDB ws1)). inInt64 (TrafficUsed u)"
      using charge_keeps Cons.prems(2) by auto
    from Cons.IH [OF plain this, of s1] ws1 show ?thesis
      by (auto simp: ReportIn round ws1_def [symmetric] case_prod_beta charge_append received_Cons)
  qed
qed

text \<open>A row whose UUID means one connected user only is charged that user's entries.\<close>

lemma received_users: "fst ` set (receivedEntries (snd (runActivity gin acts s))) \<subseteq> dom (connections s)"
proof (induction acts arbitrary: s)
  case (Cons act acts)
  show ?case
  proof (cases act)
    case (Traffic evs)
    with Cons [of "s\<lparr>nStats := runEvents evs (nStats s)\<rparr>"] show ?thesis by simp
  next
    case (ReportIn provs arrives turns)
    obtain s1 report sent where round: "trafficRound provs gin turns s = (s1, report, sent)" by (metis prod.collapse)
    have "connections s1 = connections s" using trafficRound_frame(1) [of provs gin turns s] by (simp add: round)
    moreover have "fst ` set report \<subseteq> dom (connections s)" unfolding trafficRound_report [OF round] by (rule reportLoop_users)
    ultimately show ?thesis using Cons [of s1] by (auto simp: ReportIn round case_prod_beta received_Cons image_Un split: if_splits)
  qed
qed (simp add: receivedEntries_def)

lemma reported_received: "reportedFor uuid (receivedEntries reports) = trafficIn True uuid reports"
proof (induction reports)
  case (Cons r reports)
  then show ?case by (cases r) (auto simp: received_Cons reported_append trafficIn_Cons, simp add: reportedFor_def)
qed (simp add: receivedEntries_def reportedFor_def trafficIn_def)

lemma chargedFor_own:
  assumes "fst ` set report \<subseteq> us" "\<forall>v \<in> us. coll (UUID u) v \<longleftrightarrow> v = uuid"
  shows "chargedFor coll report u = reportedFor uuid report"
proof -
  have "filter (\<lambda>entry. coll (UUID u) (fst entry)) report = filter (\<lambda>entry. fst entry = uuid) report"
    using assms by (intro filter_cong) auto
  then show ?thesis by (simp add: chargedFor_def reportedFor_def)
qed

section \<open>Properties\<close>

text \<open>
  A traffic report a node sends is charged in full: the web server decodes it, answers 200 and
  adds to every user's used traffic exactly the entries of the report with that user's UUID.
\<close>

theorem traffic_report_charged:
  assumes "trafficRound providers ginPort turns s = (s', report, Some (url, j))"
    and "db_laws coll ops rows" "keyed coll (rows d)" "\<forall>u \<in> set (rows d). inInt64 (TrafficUsed u)"
    and "rJson r = Some j"
  shows "\<exists>d' w'. AddTraffic ops r d newWriter = (d', w') \<and> finalStatus w' = StatusOK \<and>
    rows d' = map (\<lambda>u. u\<lparr>TrafficUsed := wrap64 (TrafficUsed u +
      sum_list (map snd (filter (\<lambda>entry. coll (UUID u) (fst entry)) report)))\<rparr>) (rows d)"
proof -
  note dec = trafficRound_sent(2) [OF assms(1)]
  show ?thesis
    using addTrafficLoop_rows [OF assms(2-4), of "map (\<lambda>(u, n). \<lparr>trUUID = u, trTraffic = n\<rparr>) report"] dec assms(5)
    by (simp add: AddTraffic_def http_simps decoded_charge chargedFor_def)
qed

text \<open>
  C14: bytes are billed at most once, and to the right user. Take a user on a fresh port of a node whose
  UUID is the only connected one that the database finds the user's row by. However bytes and reports
  follow each other, and whichever reports can be sent and arrive: when a last report has been made,
  the row's used traffic has grown by the bytes that the user's proxy counted, less those in reports
  that did not arrive and those counted between the two reads of a report; nothing else of the row has
  changed, and the other state of the web server is untouched. So the bytes are billed exactly when all
  reports arrive and no byte falls between the reads.
\<close>

theorem bytes_billed:
  assumes "connections s uuid = Some port" "\<forall>u. connections s u = Some port \<longrightarrow> u = uuid"
    and "statsStore (nStats s) port = Some a" "a < length (statsHeap (nStats s))"
    and "statsCache s port = None" "statsHeap (nStats s) ! a = zeroStats"
    and "all = acts @ [ReportIn provs arrives turns]" "roundsOk s all" "roundEvents turns = []"
    and "db_laws coll (weOps e) rows" "keyed coll (rows (wsDB ws))" "\<forall>u \<in> set (rows (wsDB ws)). inInt64 (TrafficUsed u)"
    and "plainProviders all" "plainHost ginPort"
    and "k < length (rows (wsDB ws))" "\<forall>v \<in> dom (connections s). coll (UUID (rows (wsDB ws) ! k)) v \<longleftrightarrow> v = uuid"
    and "0 \<le> TrafficUsed (rows (wsDB ws) ! k)" "TrafficUsed (rows (wsDB ws) ! k) + bytesOf a acts \<le> maxInt64"
  shows "\<exists>s' ws' billed. billingRun e noRoute ginPort remote all s ws = (s', ws') \<and>
    length (rows (wsDB ws')) = length (rows (wsDB ws)) \<and>
    rows (wsDB ws') ! k = (rows (wsDB ws) ! k)\<lparr>TrafficUsed := TrafficUsed (rows (wsDB ws) ! k) + billed\<rparr> \<and>
    0 \<le> billed \<and> billed = bytesOf a acts - missedBytes uuid a acts - trafficIn False uuid (snd (runActivity ginPort all s)) \<and>
    wsConns ws' = wsConns ws \<and> wsTokens ws' = wsTokens ws"
proof -
  let ?u = "rows (wsDB ws) ! k"
  obtain s' reports where act: "runActivity ginPort all s = (s', reports)" by fastforce
  obtain ws' where run: "billingRun e noRoute ginPort remote all s ws = (s', ws')"
      "rows (wsDB ws') = map (charge coll (receivedEntries reports)) (rows (wsDB ws))" "wsConns ws' = wsConns ws" "wsTokens ws' = wsTokens ws"
    using billingRun_rows [OF assms(10,14,13,11,12), of noRoute remote s] act by auto
  have zero: "rawTotal (statsHeap (nStats s) ! a) = 0" "rawTotal (cachedStats s port) = 0"
    using assms(5,6) by (simp_all add: cachedStats_def rawTotal_def zeroStats_def)
  then have "rawTotal (statsHeap (nStats s) ! a) + bytesOf a acts \<le> maxInt64" using assms(17,18) by simp
  note total = reports_total [OF observed_fresh [OF assms(1-6)] this assms(8) [unfolded assms(7)] assms(9) act [unfolded assms(7)]]
  let ?billed = "trafficIn True uuid reports"
  have billed: "?billed = bytesOf a acts - missedBytes uuid a acts - trafficIn False uuid reports" "0 \<le> ?billed"
    using total zero by simp_all
  have le: "?billed \<le> bytesOf a acts"
    using billed(1) total(3) missedBytes_nonneg [of uuid a acts] by simp
  have "chargedFor coll (receivedEntries reports) ?u = ?billed"
    using chargedFor_own [OF received_users [of ginPort all s], of coll ?u uuid] assms(16) act by (simp add: reported_received)
  moreover have "wrap64 (TrafficUsed ?u + ?billed) = TrafficUsed ?u + ?billed"
    using assms(17,18) billed(2) le by (intro wrap64_nonneg_id) simp_all
  ultimately have "rows (wsDB ws') ! k = ?u\<lparr>TrafficUsed := TrafficUsed ?u + ?billed\<rparr>"
    using run(2) assms(15) by (simp add: charge_def)
  moreover have "length (rows (wsDB ws')) = length (rows (wsDB ws))" by (simp add: run(2))
  ultimately show ?thesis using run(1,3,4) billed act by (intro exI [of _ s'] exI [of _ ws'] exI [of _ ?billed]) simp
qed

text \<open>
  C24: the limit is enforced. A user whose row shows at least the limit (unless the limit is -1,
  which stands for none) and who asks for a connection, with a valid token and for whatever node, is
  answered with 403; nothing changes and no node is asked.
\<close>

theorem over_limit_refused:
  assumes "weParse e (rHeader r ''Authorization'') = Token True claims" "claimExp claims = Some x" "unixTime (weNow e) \<le> x"
    and "rHeader r ''Authorization'' \<noteq> []" "dbFirstID (weOps e) (claimSub claims) (wsDB ws) = Some u" "userID u \<noteq> 0"
    and "TrafficLimit u \<le> TrafficUsed u" "TrafficLimit u \<noteq> -1"
    and "rMethod r = POST" "rPath r = ''/connect''" "ginServe e noRoute r ws = (ws', w)"
  shows "finalStatus w = StatusForbidden \<and> ws' = ws \<and>
    (\<forall>m. snd (snd (Connect (connectCtx e r (Some u)) m newWriter)) = None)"
proof -
  have auth: "RequireAuth (weOps e) (weParse e) (weNow e) (rHeader r ''Authorization'') (wsDB ws) newWriter = Ret newWriter (Some u)"
    unfolding RequireAuth_iff using assms(1-6) by blast
  have refuse: "fst (Connect (connectCtx e r (Some u)) m newWriter) = m"
      "finalStatus (fst (snd (Connect (connectCtx e r (Some u)) m newWriter))) = StatusForbidden"
      "snd (snd (Connect (connectCtx e r (Some u)) m newWriter)) = None" for m
    using assms(7,8) by (auto simp: Connect_def connectCtx_def http_simps)
  have "dispatch e True HConnect r ws = (ws', w)"
    using assms(9-11) by (simp add: ginServe_def webRoutes_def)
  then have "ws' = ws\<lparr>wsConns := fst (Connect (connectCtx e r (Some u)) (wsConns ws) newWriter)\<rparr>"
      "w = fst (snd (Connect (connectCtx e r (Some u)) (wsConns ws) newWriter))"
    by (auto simp: dispatch_def auth runHandler_def recovered_def split: prod.splits)
  then show ?thesis by (simp add: refuse)
qed

section \<open>Concrete runs\<close>

theorem traffic_report_charged_witness:
  "\<exists>s' report url j d'. trafficRound (Some [webReg]) ''8080'' [quietTurn ''u-2''] (oneUser\<lparr>connections := [''u-2'' \<mapsto> 10000],
       nStats := \<lparr>statsHeap = [\<lparr>Uploaded = 30, Downloaded = 12\<rparr>], statsStore = [10000 \<mapsto> 0]\<rparr>\<rparr>) = (s', report, Some (url, j)) \<and>
     fst (AddTraffic listDB (reportRequest j) [bob] newWriter) = [bob\<lparr>TrafficUsed := 49\<rparr>]"
proof -
  let ?s = "oneUser\<lparr>connections := [''u-2'' \<mapsto> 10000], nStats := \<lparr>statsHeap = [\<lparr>Uploaded = 30, Downloaded = 12\<rparr>], statsStore = [10000 \<mapsto> 0]\<rparr>\<rparr>"
  obtain s' url j where run: "trafficRound (Some [webReg]) ''8080'' [quietTurn ''u-2''] ?s = (s', [(''u-2'', 42)], Some (url, j))"
    by (simp add: trafficRound_def oneUser_eq quietTurn_def totalBytes_def zeroStats_def wrap64_def Let_def)
  have "keyed (=) [bob]" "\<forall>u \<in> set [bob]. inInt64 (TrafficUsed u)" "rJson (reportRequest j) = Some j"
    by (simp_all add: keyed_def bob_def inInt64_def minInt64_def maxInt64_def reportRequest_def)
  from traffic_report_charged [OF run listDB_laws this]
  have "fst (AddTraffic listDB (reportRequest j) [bob] newWriter) = [bob\<lparr>TrafficUsed := 49\<rparr>]"
    by (auto simp: bob_def wrap64_def)
  with run show ?thesis by blast
qed

definition webProvider :: Registration where
  "webProvider = emptyRegistration\<lparr>PublicIP := ''9.9.9.9''\<rparr>"

definition billingEnv :: "User list web_env" where
  "billingEnv = \<lparr>weOps = listDB, weNow = 7, weLater = 7, weVars = (\<lambda>_. []), weProviders = None, weHash = (\<lambda>_. None),
     weCompare = (\<lambda>_ _. False), weSign = (\<lambda>_. None),
     weParse = (\<lambda>t. if t = ''tok2'' then Token True \<lparr>claimSub = 2, claimExp = Some 9\<rparr> else NilToken),
     weUUID = [], weClientIP = [], weRequestOk = True, weDecodeError = [], weNode = NodeError [], weRfc3339 = (\<lambda>_. []),
     weDuration = (\<lambda>_. []), weEncodeUser = (\<lambda>_. JNull)\<rparr>"

text \<open>A node with one user on a fresh port, and the server with the accounts of alice and bob.\<close>

definition billedNode :: "unit node_state" where
  "billedNode = oneUser\<lparr>connections := [''u-2'' \<mapsto> 10000],
     nStats := \<lparr>statsHeap = [zeroStats], statsStore = [10000 \<mapsto> 0]\<rparr>\<rparr>"

definition billedWeb :: "User list web_server" where
  "billedWeb = \<lparr>wsDB = [alice, bob], wsConns = Map.empty, wsTokens = Map.empty\<rparr>"

text \<open>100 bytes and a report; 50 bytes and a report that is lost, during which 20 bytes are missed; 5 bytes
  and a last report.\<close>

definition billedStretch :: "activity list" where
  "billedStretch = [Traffic [Counted 0 True 100], ReportIn (Some [webProvider]) True [quietTurn ''u-2''], Traffic [Counted 0 False 50],
     ReportIn (Some [webProvider]) False [(quietTurn ''u-2'')\<lparr>rtGap := [Counted 0 False 20]\<rparr>], Traffic [Counted 0 True 5]]"

theorem bytes_billed_witness:
  "\<exists>s' ws'. billingRun billingEnv (\<lambda>_. newWriter) ''80'' ''1.1.1.1:5''
      (billedStretch @ [ReportIn (Some [webProvider]) True [quietTurn ''u-2'']]) billedNode billedWeb = (s', ws') \<and>
    length (wsDB ws') = 2 \<and> wsDB ws' ! 1 = bob\<lparr>TrafficUsed := 112\<rparr>"
proof -
  let ?all = "billedStretch @ [ReportIn (Some [webProvider]) True [quietTurn ''u-2'']]"
  have conn: "connections billedNode ''u-2'' = Some 10000" "dom (connections billedNode) = {''u-2''}"
      "\<forall>u. connections billedNode u = Some 10000 \<longrightarrow> u = ''u-2''"
    by (auto simp: billedNode_def split: if_splits)
  have stats: "statsStore (nStats billedNode) 10000 = Some 0" "0 < length (statsHeap (nStats billedNode))"
      "statsCache billedNode 10000 = None" "statsHeap (nStats billedNode) ! 0 = zeroStats"
    by (simp_all add: billedNode_def oneUser_eq)
  have rounds: "roundsOk billedNode ?all" "roundEvents [quietTurn ''u-2''] = []" "plainProviders ?all"
    by (auto simp: roundsOk_def conn(2) billedStretch_def quietTurn_def roundEvents_def turnEvents_def plainProviders_def
        webProvider_def plainHost_def isDigit_def)
  have db: "db_laws (=) (weOps billingEnv) (\<lambda>d. d)" "keyed (=) (wsDB billedWeb)" "\<forall>u \<in> set (wsDB billedWeb). inInt64 (TrafficUsed u)"
    using listDB_laws
    by (simp_all add: billingEnv_def billedWeb_def keyed_def alice_def newUser_def bob_def inInt64_def minInt64_def maxInt64_def)
  have port: "plainHost ''80''" by (simp add: plainHost_def isDigit_def)
  have bytes: "bytesOf 0 billedStretch = 175" "missedBytes ''u-2'' 0 billedStretch = 20"
    by (simp_all add: billedStretch_def quietTurn_def eventBytes_def roundEvents_def turnEvents_def missedRound_def missedIn_def)
  have row: "1 < length (wsDB billedWeb)" "\<forall>v \<in> dom (connections billedNode). UUID (wsDB billedWeb ! 1) = v \<longleftrightarrow> v = ''u-2''"
      "0 \<le> TrafficUsed (wsDB billedWeb ! 1)" "TrafficUsed (wsDB billedWeb ! 1) + bytesOf 0 billedStretch \<le> maxInt64"
    by (simp_all add: conn(2) bytes billedWeb_def bob_def maxInt64_def)
  have lost: "trafficIn False ''u-2'' (snd (runActivity ''80'' ?all billedNode)) = 50"
    by (simp add: billedStretch_def billedNode_def oneUser_eq quietTurn_def trafficRound_def trafficIn_def reportedFor_def webProvider_def
        totalBytes_def zeroStats_def wrap64_def countBytes_def Let_def)
  from bytes_billed [OF conn(1,3) stats refl rounds(1,2) db rounds(3) port row, of "\<lambda>_. newWriter" "''1.1.1.1:5''"] lost bytes show ?thesis
    by (auto simp: billedWeb_def bob_def)
qed

definition overLimit :: "User list web_server" where
  "overLimit = billedWeb\<lparr>wsDB := [alice\<lparr>userID := 2, TrafficUsed := 50 * 1000 * 1000 * 1000\<rparr>]\<rparr>"

theorem over_limit_refused_witness:
  "\<exists>w. ginServe billingEnv (\<lambda>_. newWriter) ((credentialsRequest [] [])\<lparr>rPath := ''/connect'', rHeader := (\<lambda>_. ''tok2'')\<rparr>) overLimit =
      (overLimit, w) \<and> finalStatus w = StatusForbidden"
proof -
  let ?r = "(credentialsRequest [] [])\<lparr>rPath := ''/connect'', rHeader := (\<lambda>_. ''tok2'')\<rparr>"
  obtain ws' w where run: "ginServe billingEnv (\<lambda>_. newWriter) ?r overLimit = (ws', w)" by fastforce
  have "finalStatus w = StatusForbidden \<and> ws' = overLimit \<and>
      (\<forall>m. snd (snd (Connect (connectCtx billingEnv ?r (Some (alice\<lparr>userID := 2, TrafficUsed := 50 * 1000 * 1000 * 1000\<rparr>))) m newWriter)) = None)"
    by (rule over_limit_refused [where claims = "\<lparr>claimSub = 2, claimExp = Some 9\<rparr>" and x = 9, OF _ _ _ _ _ _ _ _ _ _ run])
      (simp_all add: billingEnv_def overLimit_def credentialsRequest_def unixTime_def second_def listDB_def alice_def newUser_def)
  with run show ?thesis by blast
qed

end
