(* ===== verification/Races.thy ===== *)
theory Races
  imports Payment_Recognition Billing
begin

text \<open>
  Handlers that read, compute and write without a lock, and what happens when two of them overlap.
  Each is split here at the point where the other can come between; run without interruption the
  parts are the handlers of the other theories. The amount of an order (src/payment/order/mapper.go),
  the used traffic of a user (\<open>AddTraffic\<close> in src/web/controllers/controllers.go) and the rows the plan
  monitor saves (src/web/controllers/PlanMonitor.go) are concerned.
\<close>

section \<open>Two orders created at once\<close>

text \<open>The two halves of \<open>CreateOrder\<close>: choosing the amount, and filing the order under it.\<close>

definition chooseAmount :: "int \<Rightarrow> pay_state \<Rightarrow> int" where
  "chooseAmount amount s = NextMissing (intervalSet s) amount"

definition fileOrder :: "time \<Rightarrow> string \<Rightarrow> int \<Rightarrow> string \<Rightarrow> int \<Rightarrow> pay_state \<Rightarrow> pay_state" where
  "fileOrder now oid amount callback actualAmount s =
     s\<lparr>intervalSet := Add (intervalSet s) actualAmount,
       orderMap := (orderMap s)(oid \<mapsto> \<lparr>oID = oid, oTrxAddress = defaultWalletAddress, oAmount = amount,
         oActualAmount = actualAmount, oPaymentLink = [], oStatus = ''pending'', oCreatedAt = now, oCallback = callback\<rparr>),
       ActualAmountToID := (ActualAmountToID s)(actualAmount \<mapsto> oid)\<rparr>"

theorem CreateOrder_halves:
  "fst (CreateOrder now oid amount callback s) = fileOrder now oid amount callback (chooseAmount amount s) s"
  by (simp add: CreateOrder_eq fileOrder_def chooseAmount_def Let_def)

text \<open>
  C40: when two orders are created at once, each chooses its amount before the other has filed its
  own. Two requests for the same amount then ask for the same amount, only the second is in the
  index, and a transfer of that amount pays the second and leaves the first pending, whoever made it.
\<close>

theorem concurrent_creates_share_amount:
  assumes "pay_reach True env s" "orderMap s i = None" "orderMap s j = None" "i \<noteq> j"
    and "a = chooseAmount amount s" "b = chooseAmount amount s"
    and "s' = fileOrder t' j amount cb' b (fileOrder t i amount cb a s)"
    and "transfers tx (fst (timeNow env w)) a"
  shows "\<exists>oi oj. orderMap s' i = Some oi \<and> orderMap s' j = Some oj \<and> oActualAmount oi = oActualAmount oj \<and>
    orderMap (fst (runState (processTx env tx s' w))) i = Some oi \<and> oStatus oi = ''pending'' \<and>
    orderMap (fst (runState (processTx env tx s' w))) j = Some (oj\<lparr>oStatus := ''paid''\<rparr>)"
proof -
  let ?order = "\<lambda>oid t cb. \<lparr>oID = oid, oTrxAddress = defaultWalletAddress, oAmount = amount, oActualAmount = a,
    oPaymentLink = [], oStatus = ''pending'', oCreatedAt = t, oCallback = cb\<rparr>"
  have ab: "b = a" using assms(5,6) by simp
  have orders: "orderMap s' i = Some (?order i t cb)" "orderMap s' j = Some (?order j t' cb')" "ActualAmountToID s' a = Some j"
    using assms(4) by (simp_all add: assms(7) fileOrder_def ab)
  have "awaiting s' a j (?order j t' cb')" using orders by (simp add: awaiting_def)
  from processTx_settles(1) [OF this assms(8)]
  have paid: "orderMap (fst (runState (processTx env tx s' w))) j = Some ((?order j t' cb')\<lparr>oStatus := ''paid''\<rparr>)"
    by (simp add: settled_def)
  have "orderMap (fst (runState (processTx env tx s' w))) i = orderMap s' i"
    using refl [of "processTx env tx s' w"]
  proof (cases rule: processTx_cases)
    case (pay c cs amount' k ok w1 w2)
    have "amount' = a" using assms(8) pay(1,3) by (simp add: transfers_def)
    with pay(4) orders(3) have "k = j" by simp
    from pay(7) show ?thesis
      by (cases rule: payOrder_cases) (use \<open>k = j\<close> assms(4) in simp_all)
  qed simp
  with orders paid show ?thesis by simp
qed

section \<open>Two traffic reports at once\<close>

text \<open>The two halves of the loop body of \<open>AddTraffic\<close>: reading the row, and writing the sum.\<close>

definition readUsage :: "'d db_ops \<Rightarrow> traffic_entry \<Rightarrow> 'd \<Rightarrow> (nat \<times> int) option" where
  "readUsage ops report d =
     map_option (\<lambda>user. (userID user, wrap64 (TrafficUsed user + trTraffic report))) (dbFirstUUID ops (trUUID report) d)"

definition writeUsage :: "'d db_ops \<Rightarrow> (nat \<times> int) option \<Rightarrow> 'd \<Rightarrow> 'd" where
  "writeUsage ops new d = (case new of None \<Rightarrow> d | Some (i, n) \<Rightarrow> dbUpdateTraffic ops i n d)"

theorem addTrafficLoop_halves: "addTrafficLoop ops [report] d = writeUsage ops (readUsage ops report d) d"
  by (simp add: readUsage_def writeUsage_def split: option.split)

text \<open>
  Two reports for the same user, from two nodes, that are handled at once: both read the row
  before either writes. The table is then as if the first report had not been sent.
\<close>

theorem concurrent_reports_lose_traffic:
  assumes "db_laws coll ops rows" "dbFirstUUID ops (trUUID r1) d = dbFirstUUID ops (trUUID r2) d"
    and "new1 = readUsage ops r1 d" "new2 = readUsage ops r2 d"
  shows "rows (writeUsage ops new2 (writeUsage ops new1 d)) = rows (addTrafficLoop ops [r2] d)"
  using assms(2)
  by (auto simp: assms(3,4) readUsage_def writeUsage_def db_lawsD(5) [OF assms(1)] split: option.split)

section \<open>The plan monitor and another handler\<close>

text \<open>
  The plan monitor saves whole rows it has read before. A row that was changed in between, say by a
  change of the plan, is overwritten with the old values, renewed.
\<close>

theorem plan_monitor_overwrites:
  assumes "db_laws coll ops rows" "dbDue ops now d = Some due" "u \<in> set due" "userID u \<noteq> 0"
    and "userID changed = userID u" "dbSave ops changed d = (d1, True)" "dbSave ops (renewUser u) d1 = (d2, True)"
  shows "rows d2 = map (\<lambda>v. if userID v = userID u then renewUser u else v) (rows d)"
proof -
  have "due = filter (\<lambda>u. NextRenew u < now \<and> now \<le> PlanEnd u) (rows d)"
    using assms(1,2) by (simp add: db_laws_def db_query_law_def)
  then have u: "u \<in> set (rows d)" using assms(3) by simp
  have rows1: "rows d1 = map (\<lambda>v. if userID v = userID u then changed else v) (rows d)"
    using db_save_lawD(2) [OF assms(1,6)] u assms(4,5) by simp
  have "changed \<in> set (rows d1)" unfolding rows1 using u by auto
  with assms(5) have "userID u \<in> userID ` set (rows d1)" by (metis image_eqI)
  then have "rows d2 = map (\<lambda>v. if userID v = userID u then renewUser u else v) (rows d1)"
    using db_save_lawD(2) [OF assms(1,7)] assms(4) by (simp add: renewUser_def)
  then show ?thesis using assms(5) by (simp add: rows1 comp_def if_distrib cong: if_cong)
qed

section \<open>Concrete runs\<close>

theorem concurrent_creates_share_amount_witness:
  "\<exists>s' oj. s' = fileOrder 0 ''d'' 500 [] (chooseAmount 500 twoOrders) (fileOrder 0 ''c'' 500 [] (chooseAmount 500 twoOrders) twoOrders) \<and>
     orderMap (fst (runState (processTx (scriptEnv 0 None) (transferTx 0 500) s' []))) ''d'' = Some (oj\<lparr>oStatus := ''paid''\<rparr>) \<and>
     oStatus (the (orderMap (fst (runState (processTx (scriptEnv 0 None) (transferTx 0 500) s' []))) ''c'')) = ''pending''"
proof -
  let ?s' = "fileOrder 0 ''d'' 500 [] (chooseAmount 500 twoOrders) (fileOrder 0 ''c'' 500 [] (chooseAmount 500 twoOrders) twoOrders)"
  have amount: "chooseAmount 500 twoOrders = 500"
  proof -
    have "intervalSet twoOrders = Add (Add NewIntervalSet 100) 101" by (simp add: twoOrders_def run_simps)
    moreover have "NextMissing (Add (Add NewIntervalSet 100) 101) 500 = 500" by code_simp
    ultimately show ?thesis by (simp add: chooseAmount_def)
  qed
  have fresh: "orderMap twoOrders ''c'' = None" "orderMap twoOrders ''d'' = None"
    by (simp_all add: twoOrders_def run_simps)
  have tx: "transfers (transferTx 0 500) (fst (timeNow (scriptEnv 0 None) [])) (chooseAmount 500 twoOrders)"
    by (simp add: transfers_def run_simps amount)
  have "\<exists>oi oj. orderMap ?s' ''c'' = Some oi \<and> orderMap ?s' ''d'' = Some oj \<and> oActualAmount oi = oActualAmount oj \<and>
    orderMap (fst (runState (processTx (scriptEnv 0 None) (transferTx 0 500) ?s' []))) ''c'' = Some oi \<and> oStatus oi = ''pending'' \<and>
    orderMap (fst (runState (processTx (scriptEnv 0 None) (transferTx 0 500) ?s' []))) ''d'' = Some (oj\<lparr>oStatus := ''paid''\<rparr>)"
    by (rule concurrent_creates_share_amount [OF twoOrders_reach fresh _ refl refl refl tx]) simp
  then show ?thesis by fastforce
qed

theorem concurrent_reports_lose_traffic_witness:
  "writeUsage listDB (readUsage listDB \<lparr>trUUID = ''u-2'', trTraffic = 5\<rparr> [bob])
     (writeUsage listDB (readUsage listDB \<lparr>trUUID = ''u-2'', trTraffic = 1000\<rparr> [bob]) [bob]) = [bob\<lparr>TrafficUsed := 12\<rparr>]"
proof -
  have "writeUsage listDB (readUsage listDB \<lparr>trUUID = ''u-2'', trTraffic = 5\<rparr> [bob])
     (writeUsage listDB (readUsage listDB \<lparr>trUUID = ''u-2'', trTraffic = 1000\<rparr> [bob]) [bob]) =
     addTrafficLoop listDB [\<lparr>trUUID = ''u-2'', trTraffic = 5\<rparr>] [bob]"
    using concurrent_reports_lose_traffic [OF listDB_laws, of "\<lparr>trUUID = ''u-2'', trTraffic = 1000\<rparr>" "[bob]" "\<lparr>trUUID = ''u-2'', trTraffic = 5\<rparr>"]
    by simp
  also have "\<dots> = [bob\<lparr>TrafficUsed := 12\<rparr>]" by (simp add: listDB_def bob_def zeroUser_def wrap64_def)
  finally show ?thesis .
qed

end
