(* ===== verification/Log_Service.thy ===== *)
theory Log_Service
  imports Registration Url
begin

text \<open>
  Model of src/log: the log service, which appends the messages posted to it to a file (server.go),
  and the client by which the standard logger of another service posts its lines (client.go).

  The package variable \<open>log\<close> is \<open>lgLogger\<close>: \<open>None\<close> while it is nil, otherwise the destination given to
  \<open>Run\<close>. Files are a map from names to contents. How the write to the file goes and the date and
  time in the header of a line are arguments.
\<close>

section \<open>The standard logger\<close>

definition newline :: char where
  "newline = CHR 0x0A"

text \<open>What \<open>Logger.Printf\<close> and \<open>Logger.Println\<close> hand to the logger's writer: prefix, header, message,
  and a newline unless the line ends with one.\<close>

definition loggerOutput :: "string \<Rightarrow> string \<Rightarrow> string \<Rightarrow> string" where
  "loggerOutput prefix header msg =
     (let buf = prefix @ header @ msg in if buf = [] \<or> last buf \<noteq> newline then buf @ [newline] else buf)"

section \<open>The log service\<close>

record log_state =
  lgLogger :: "string option"
  lgFiles :: "string \<rightharpoonup> string"

definition fileContents :: "(string \<rightharpoonup> string) \<Rightarrow> string \<Rightarrow> string" where
  "fileContents files name = (case files name of None \<Rightarrow> [] | Some c \<Rightarrow> c)"

text \<open>A write to a file: it cannot be opened, the system takes only some of the bytes and then fails, or
  it takes all.\<close>

datatype file_write = OpenError | ShortWrite nat | Written

text \<open>The result is the new files, the number of bytes written and whether the error is nil.\<close>

definition fileLogWrite ::
  "file_write \<Rightarrow> string \<Rightarrow> string \<Rightarrow> (string \<rightharpoonup> string) \<Rightarrow> (string \<rightharpoonup> string) \<times> nat \<times> bool" where
  "fileLogWrite fw fl data files =
     (case fw of
        OpenError \<Rightarrow> (files, 0, False)
      | ShortWrite n \<Rightarrow> (files(fl \<mapsto> fileContents files fl @ take n data), min n (length data), False)
      | Written \<Rightarrow> (files(fl \<mapsto> fileContents files fl @ data), length data, True))"

definition Run :: "string \<Rightarrow> log_state \<Rightarrow> log_state" where
  "Run destination s = s\<lparr>lgLogger := Some destination\<rparr>"

text \<open>\<open>log.Printf\<close> panics on a nil logger; it drops the writer's error.\<close>

definition writeLog :: "file_write \<Rightarrow> string \<Rightarrow> string \<Rightarrow> log_state \<Rightarrow> (log_state, unit) run" where
  "writeLog fw stamp message s =
     (case lgLogger s of
        None \<Rightarrow> Panic s
      | Some destination \<Rightarrow>
          Ret (s\<lparr>lgFiles := fst (fileLogWrite fw destination
                 (loggerOutput ''[distributed-xray] - '' stamp (message @ [newline])) (lgFiles s))\<rparr>) ())"

definition logServeHTTP ::
  "file_write \<Rightarrow> string \<Rightarrow> request \<Rightarrow> log_state \<Rightarrow> string writer \<Rightarrow> (log_state, string writer) run" where
  "logServeHTTP fw stamp r s w =
     (case rMethod r of
        POST \<Rightarrow>
          (case rBody r of
             None \<Rightarrow> Ret s (writeHeader StatusBadRequest w)
           | Some msg \<Rightarrow>
               if length msg = 0 then Ret s (writeHeader StatusBadRequest w)
               else (case writeLog fw stamp msg s of
                       Panic s1 \<Rightarrow> Panic s1
                     | Ret s1 _ \<Rightarrow> Ret s1 w))
      | _ \<Rightarrow> Ret s (writeHeader StatusMethodNotAllowed w))"

definition logRoutes :: "string list" where
  "logRoutes = [''/log'']"

definition logMux ::
  "file_write \<Rightarrow> string \<Rightarrow> request \<Rightarrow> log_state \<Rightarrow> string writer \<Rightarrow> (log_state, string writer) run" where
  "logMux fw stamp r s w =
     (if rPath r \<in> set logRoutes then logServeHTTP fw stamp r s w
      else Ret s (writeHeader StatusNotFound w))"

section \<open>The client\<close>

record clientLogger =
  cgURL :: string

record std_logger =
  slPrefix :: string
  slFlags :: int
  slOutput :: clientLogger

definition SetClientLogger :: "string \<Rightarrow> string \<Rightarrow> std_logger" where
  "SetClientLogger serviceURL clientService =
     \<lparr>slPrefix = ''['' @ clientService @ ''] - '', slFlags = 0, slOutput = \<lparr>cgURL = serviceURL\<rparr>\<rparr>"

text \<open>The request \<open>clientLogger.Write\<close> makes, and its result for the status of the answer (\<open>None\<close>: no
  answer): the number of bytes and whether the error is nil.\<close>

definition logRequest :: "clientLogger \<Rightarrow> string \<Rightarrow> request" where
  "logRequest cl data = \<lparr>rMethod = POST, rPath = fst (urlTarget (cgURL cl @ ''/log'')),
     rQuery = queryGet (snd (urlTarget (cgURL cl @ ''/log''))),
     rHeader = (\<lambda>k. if k = ''Content-Type'' then ''text/plain'' else []), rRemoteAddr = [],
     rBody = Some data, rJson = None\<rparr>"

definition clientLoggerWrite :: "status option \<Rightarrow> string \<Rightarrow> nat \<times> bool" where
  "clientLoggerWrite response data =
     (case response of
        None \<Rightarrow> (0, False)
      | Some code \<Rightarrow> if code \<noteq> StatusOK then (0, False) else (length data, True))"

text \<open>The line the standard logger hands to its writer for \<open>Println(msg)\<close>; without flags its header is
  empty.\<close>

definition clientLine :: "std_logger \<Rightarrow> string \<Rightarrow> string" where
  "clientLine lg msg = loggerOutput (slPrefix lg) [] (msg @ [newline])"

section \<open>Lemmas\<close>

lemma loggerOutput_line [simp]: "loggerOutput prefix header (msg @ [newline]) = prefix @ header @ msg @ [newline]"
  by (simp add: loggerOutput_def Let_def)

lemma fileContents_upd [simp]: "fileContents (files(fl \<mapsto> c)) x = (if x = fl then c else fileContents files x)"
  by (simp add: fileContents_def)

text \<open>The requests to the log service in turn, each with how the write to the file goes and the time stamp. A
  panic of a handler is caught by the HTTP server.\<close>

fun logRuns :: "(file_write \<times> string \<times> request) list \<Rightarrow> log_state \<Rightarrow> log_state" where
  "logRuns [] s = s"
| "logRuns ((fw, stamp, r) # rest) s = logRuns rest (runState (logMux fw stamp r s newWriter))"

text \<open>What a request adds to the file.\<close>

definition logEntry :: "file_write \<times> string \<times> request \<Rightarrow> string" where
  "logEntry q = (case q of (fw, stamp, r) \<Rightarrow>
     (case rBody r of
        Some (c # cs) \<Rightarrow>
          if rMethod r = POST \<and> rPath r = ''/log''
          then (let line = ''[distributed-xray] - '' @ stamp @ (c # cs) @ [newline]
                in case fw of OpenError \<Rightarrow> [] | ShortWrite n \<Rightarrow> take n line | Written \<Rightarrow> line)
          else []
      | _ \<Rightarrow> []))"

lemma logMux_effect:
  assumes "lgLogger s = Some dest"
  shows "lgLogger (runState (logMux fw stamp r s w)) = Some dest"
    and "fileContents (lgFiles (runState (logMux fw stamp r s w))) f =
      fileContents (lgFiles s) f @ (if f = dest then logEntry (fw, stamp, r) else [])"
  using assms
  by (auto simp: logMux_def logRoutes_def logServeHTTP_def writeLog_def fileLogWrite_def logEntry_def
      Let_def
      split: http_method.split option.split list.split file_write.split)

section \<open>Properties\<close>

text \<open>
  C39: the log file is append-only and complete. After any sequence of requests it holds what it held
  before followed by one line for each message posted to \<open>/log\<close> while the file could be opened, in
  order, each as far as the system takes it, which is in full unless the write fails; no other file
  is touched.
\<close>

theorem log_append_only:
  assumes "lgLogger s = Some dest"
  shows "fileContents (lgFiles (logRuns qs s)) f =
    fileContents (lgFiles s) f @ (if f = dest then concat (map logEntry qs) else [])"
  using assms
proof (induction qs arbitrary: s)
  case (Cons q qs)
  obtain fw stamp r where q: "q = (fw, stamp, r)" by (cases q) auto
  show ?case
    using Cons.IH [OF logMux_effect(1) [OF Cons.prems, of fw stamp r newWriter]]
      logMux_effect(2) [OF Cons.prems, of fw stamp r newWriter f] by (simp add: q)
qed simp

text \<open>
  A line a service logs after \<open>SetClientLogger\<close> reaches the log service's file with the service's
  name, and the client's writer reports all its bytes as written. The message is printed with a
  newline that the client's line has already, so an empty line follows each.
\<close>

theorem log_line_delivered:
  assumes "plainHost host" "plainHost port" "lgLogger s = Some dest"
    and "lg = SetClientLogger (''http://'' @ host @ '':'' @ port) svc" "line = clientLine lg msg"
  shows "\<exists>s' w'. logMux Written stamp (logRequest (slOutput lg) line) s newWriter = Ret s' w' \<and>
    clientLoggerWrite (Some (finalStatus w')) line = (length line, True) \<and>
    fileContents (lgFiles s') dest = fileContents (lgFiles s) dest @
      ''[distributed-xray] - '' @ stamp @ ''['' @ svc @ ''] - '' @ msg @ [newline, newline]"
proof -
  have "urlTarget (''http://'' @ (host @ '':'' @ port) @ CHR ''/'' # ''log'') = (CHR ''/'' # ''log'', [])"
    by (rule urlTarget_simple(2) [where query = "[]"]) (use assms(1,2) in \<open>auto dest: plainHost_chars\<close>)
  then have path: "rPath (logRequest (slOutput lg) line) = ''/log''"
    by (simp add: logRequest_def assms(4) SetClientLogger_def)
  have body: "rBody (logRequest (slOutput lg) line) = Some line" "rMethod (logRequest (slOutput lg) line) = POST"
    by (simp_all add: logRequest_def)
  have line: "line = ''['' @ svc @ ''] - '' @ msg @ [newline]"
    by (simp add: assms(4,5) clientLine_def SetClientLogger_def)
  then have "length line \<noteq> 0" by simp
  then have "logMux Written stamp (logRequest (slOutput lg) line) s newWriter =
      Ret (s\<lparr>lgFiles := (lgFiles s)(dest \<mapsto> fileContents (lgFiles s) dest @ ''[distributed-xray] - '' @ stamp @ line @ [newline])\<rparr>) newWriter"
    using path body assms(3) by (simp add: logMux_def logRoutes_def logServeHTTP_def writeLog_def fileLogWrite_def)
  moreover have "clientLoggerWrite (Some (finalStatus (newWriter :: string writer))) line = (length line, True)"
    by (simp add: clientLoggerWrite_def finalStatus_def newWriter_def)
  ultimately show ?thesis by (simp add: line)
qed

text \<open>
  Before \<open>Run\<close> the handler panics on every message: so it does in the web service, whose main
  registers the log handler and never calls \<open>Run\<close>.
\<close>

theorem log_without_run_panics:
  assumes "lgLogger s = None" "rMethod r = POST" "rPath r = ''/log''" "rBody r = Some msg" "msg \<noteq> []"
  shows "logMux fw stamp r s w = Panic s"
  using assms by (simp add: logMux_def logRoutes_def logServeHTTP_def writeLog_def)

section \<open>Concrete runs\<close>

definition emptyLog :: log_state where
  "emptyLog = \<lparr>lgLogger = None, lgFiles = Map.empty\<rparr>"

definition textRequest :: "http_method \<Rightarrow> string \<Rightarrow> string \<Rightarrow> request" where
  "textRequest meth path body = \<lparr>rMethod = meth, rPath = path, rQuery = (\<lambda>_. []), rHeader = (\<lambda>_. []),
     rRemoteAddr = [], rBody = Some body, rJson = None\<rparr>"

theorem log_append_only_witness:
  "fileContents (lgFiles (logRuns [(Written, ''t1 '', textRequest POST ''/log'' ''a''), (OpenError, ''t2 '', textRequest POST ''/log'' ''b''),
       (ShortWrite 3, ''t2 '', textRequest POST ''/log'' ''b''),
       (Written, ''t3 '', textRequest GET ''/log'' ''c''), (Written, ''t4 '', textRequest POST ''/log'' ''d'')] (Run ''f'' emptyLog))) ''f'' =
   ''[distributed-xray] - t1 a'' @ [newline] @ ''[di'' @ ''[distributed-xray] - t4 d'' @ [newline]"
proof -
  have run: "lgLogger (Run ''f'' emptyLog) = Some ''f''" by (simp add: Run_def)
  show ?thesis unfolding log_append_only [OF run]
    by (simp add: logEntry_def textRequest_def Run_def emptyLog_def fileContents_def)
qed

theorem log_line_delivered_witness:
  "\<exists>s' w'. logMux Written ''t '' (logRequest (slOutput (SetClientLogger ''http://1.1.1.1:80'' ''WebService''))
      (clientLine (SetClientLogger ''http://1.1.1.1:80'' ''WebService'') ''hi'')) (Run ''f'' emptyLog) newWriter = Ret s' w' \<and>
    fileContents (lgFiles s') ''f'' = ''[distributed-xray] - t [WebService] - hi'' @ [newline, newline]"
proof -
  have "plainHost ''1.1.1.1''" "plainHost ''80''" "lgLogger (Run ''f'' emptyLog) = Some ''f''"
    by (simp_all add: plainHost_def isDigit_def Run_def)
  from log_line_delivered [OF this refl refl, of "''t ''" "''WebService''" "''hi''"] show ?thesis
    by (auto simp: Run_def emptyLog_def fileContents_def)
qed

theorem log_without_run_panics_witness:
  "logMux Written [] (textRequest POST ''/log'' ''hi'') emptyLog newWriter = Panic emptyLog"
  by (rule log_without_run_panics [where msg = "''hi''"]) (simp_all add: emptyLog_def textRequest_def)

end
