(* ===== verification/Services.thy ===== *)
theory Services
  imports Registry_Client Log_Service Payment_Orders Node_Service Traffic_Check
begin

text \<open>
  How the processes are put together: \<open>RegisterService\<close> of src/registry/client.go, \<open>Start\<close> of
  src/service/service.go, the main functions under src/cmd, the routes of the registry process, the
  shell service (src/shell/server.go) and the helpers of src/utils.

  The default multiplexer of a process is the list of its patterns. The environment variables, the
  public addresses found by \<open>utils.GetPublicIP\<close> and \<open>GetPublicIPv6\<close> and the attempts to register
  are arguments.
\<close>

section \<open>URLs of services\<close>

text \<open>The path \<open>url.Parse\<close> finds in an http URL with a host and an optional port; \<open>None\<close> is its error.\<close>

fun pathUnescape :: "string \<Rightarrow> string option" where
  "pathUnescape [] = Some []"
| "pathUnescape (c # cs) =
     (if c = CHR ''%'' then
        (case cs of
           a # b # rest \<Rightarrow>
             (case (hexVal a, hexVal b) of
                (Some x, Some y) \<Rightarrow> map_option (\<lambda>t. char_of (16 * x + y) # t) (pathUnescape rest)
              | _ \<Rightarrow> None)
         | _ \<Rightarrow> None)
      else map_option (\<lambda>t. c # t) (pathUnescape cs))"

definition hostChar :: "char \<Rightarrow> bool" where
  "hostChar c \<longleftrightarrow> isDigit c \<or> 97 \<le> (of_char c :: nat) \<and> (of_char c :: nat) \<le> 122 \<or> 65 \<le> (of_char c :: nat) \<and> (of_char c :: nat) \<le> 90 \<or>
     128 \<le> (of_char c :: nat) \<or> c \<in> set ''-_.~!$&()*+,;=:[]<>'' \<or> c = CHR 0x27 \<or> c = CHR 0x22"

definition validHost :: "string \<Rightarrow> bool" where
  "validHost host \<longleftrightarrow> (\<forall>c \<in> set host. hostChar c) \<and>
     (case lastIndexByte CHR '':'' host of None \<Rightarrow> True | Some i \<Rightarrow> \<forall>c \<in> set (drop (i + 1) host). isDigit c)"

definition parseURLPath :: "string \<Rightarrow> string option" where
  "parseURLPath url =
     (let hostPath = fst (cut CHR ''?'' (fst (cut CHR ''#'' (drop (length ''http://'') url))))
      in if (\<exists>c \<in> set url. (of_char c :: nat) < 32 \<or> (of_char c :: nat) = 127) then None
         else if \<not> validHost (takeWhile (\<lambda>c. c \<noteq> CHR ''/'') hostPath) then None
         else pathUnescape (dropWhile (\<lambda>c. c \<noteq> CHR ''/'') hostPath))"

section \<open>Starting a service\<close>

text \<open>\<open>http.Handle\<close> panics (\<open>None\<close>) on an empty pattern and on one that is registered already.\<close>

definition Handle :: "string \<Rightarrow> string list \<Rightarrow> string list option" where
  "Handle pattern mux = (if pattern = [] \<or> pattern \<in> set mux then None else Some (mux @ [pattern]))"

fun HandleAll :: "string list \<Rightarrow> string list \<Rightarrow> string list option" where
  "HandleAll [] mux = Some mux"
| "HandleAll (pattern # patterns) mux =
     (case Handle pattern mux of None \<Rightarrow> None | Some mux1 \<Rightarrow> HandleAll patterns mux1)"

definition heartbeatURL :: "(string \<Rightarrow> string) \<Rightarrow> string" where
  "heartbeatURL env = ''http://'' @ env ''Registry_IP'' @ '':'' @ registryPort env @ ''/heartbeat/''"

text \<open>\<open>RegisterService\<close> up to the start of the heartbeat loop. The value is \<open>None\<close> while it still tries
  to register, a returned \<open>None\<close> the error of \<open>url.Parse\<close>. An error of \<open>RegisterRequest\<close> is only
  logged.\<close>

definition RegisterService ::
  "(string \<Rightarrow> string) \<Rightarrow> attempt list \<Rightarrow> Registration \<Rightarrow> providers \<Rightarrow> string list \<Rightarrow>
   (string list, client_state option) run option" where
  "RegisterService env attempts r p mux =
     (case parseURLPath (ServiceUpdateURL r) of
        None \<Rightarrow> Some (Ret mux None)
      | Some path \<Rightarrow>
          (case Handle path mux of
             None \<Rightarrow> Some (Panic mux)
           | Some mux1 \<Rightarrow>
               (case RegisterRequest attempts r of
                  None \<Rightarrow> None
                | Some (r1, ok) \<Rightarrow>
                    Some (Ret mux1 (Some \<lparr>clReg = r1,
                      clHeartbeat = \<lparr>hbServiceID = ServiceID r1, hbURL = heartbeatURL env\<rparr>, clProv = p\<rparr>)))))"

record started =
  stAddr :: string
  stMux :: "string list"
  stClient :: client_state

text \<open>What a main function passes to \<open>Start\<close>.\<close>

record service_main =
  smReg :: Registration
  smHost :: string
  smPort :: string
  smHandlers :: "string list"

definition Start ::
  "(string \<Rightarrow> string) \<Rightarrow> attempt list \<Rightarrow> service_main \<Rightarrow> providers \<Rightarrow> (string list, started option) run option" where
  "Start env attempts c p =
     (case HandleAll (smHandlers c) [] of
        None \<Rightarrow> Some (Panic [])
      | Some mux \<Rightarrow>
          (case RegisterService env attempts (smReg c) p mux of
             None \<Rightarrow> None
           | Some (Panic m) \<Rightarrow> Some (Panic m)
           | Some (Ret m None) \<Rightarrow> Some (Ret m None)
           | Some (Ret m (Some cl)) \<Rightarrow> Some (Ret m (Some \<lparr>stAddr = '':'' @ smPort c, stMux = m, stClient = cl\<rparr>))))"

text \<open>The request \<open>startService\<close> makes when its server has stopped.\<close>

definition stopRequest :: "service_main \<Rightarrow> request" where
  "stopRequest c = shutdownRequest (''http://'' @ smHost c @ '':'' @ smPort c)"

section \<open>The main functions\<close>

definition envOr :: "(string \<Rightarrow> string) \<Rightarrow> string \<Rightarrow> string \<Rightarrow> string" where
  "envOr env key fallback = (if env key = [] then fallback else env key)"

definition serviceAddress :: "string \<Rightarrow> string \<Rightarrow> string" where
  "serviceAddress host port = ''http://'' @ host @ '':'' @ port"

text \<open>Each takes the result of \<open>GetPublicIP\<close>; \<open>None\<close> is the fatal exit when it fails.\<close>

definition logMain :: "(string \<Rightarrow> string) \<Rightarrow> string option \<Rightarrow> service_main option" where
  "logMain env ip =
     (case ip of
        None \<Rightarrow> None
      | Some host \<Rightarrow>
          (let port = envOr env ''Log_Port'' ''80''; address = serviceAddress host port
           in Some \<lparr>smReg = emptyRegistration\<lparr>ServiceName := LogService, ServiceURL := address,
                      RequiredServices := [], ServiceUpdateURL := address @ ''/service''\<rparr>,
                    smHost = host, smPort = port, smHandlers = logRoutes\<rparr>))"

text \<open>The node asks for its address twice and, before the second time, opens the firewall. Without an
  IPv6 address the field is empty.\<close>

definition nodeMain ::
  "(string \<Rightarrow> string) \<Rightarrow> string option \<Rightarrow> string option \<Rightarrow> string option \<Rightarrow> traffic_host \<Rightarrow> traffic_host \<times> service_main option" where
  "nodeMain env ip publicIP ipv6 h =
     (case ip of
        None \<Rightarrow> (h, None)
      | Some host \<Rightarrow>
          (let port = envOr env ''Node_Port'' ''80''; h1 = RestoreFirewall h; address = serviceAddress host port
           in case publicIP of
                None \<Rightarrow> (h1, None)
              | Some pub \<Rightarrow>
                  (h1, Some \<lparr>smReg = emptyRegistration\<lparr>ServiceName := NodeService, ServiceURL := address,
                         PublicIP := pub, PublicIPv6 := (case ipv6 of None \<Rightarrow> [] | Some v6 \<Rightarrow> v6),
                         Description := env ''Node_Description'', RequiredServices := [LogService, WebService],
                         ServiceUpdateURL := address @ ''/services''\<rparr>,
                       smHost = host, smPort = port, smHandlers = nodeRoutes\<rparr>)))"

definition paymentMain :: "(string \<Rightarrow> string) \<Rightarrow> string option \<Rightarrow> service_main option" where
  "paymentMain env ip =
     (case ip of
        None \<Rightarrow> None
      | Some host \<Rightarrow>
          (let port = envOr env ''Payment_Port'' ''80''; address = serviceAddress host port
           in Some \<lparr>smReg = emptyRegistration\<lparr>ServiceName := PaymentService, ServiceURL := address,
                      RequiredServices := [], ServiceUpdateURL := address @ ''/services''\<rparr>,
                    smHost = host, smPort = port, smHandlers = payRoutes\<rparr>))"

definition shellRoutes :: "string list" where
  "shellRoutes = [''/shell'']"

definition shellMain :: "(string \<Rightarrow> string) \<Rightarrow> string option \<Rightarrow> service_main option" where
  "shellMain env ip =
     (case ip of
        None \<Rightarrow> None
      | Some host \<Rightarrow>
          (let port = envOr env ''Shell_Port'' ''80''; address = serviceAddress host port
           in Some \<lparr>smReg = emptyRegistration\<lparr>ServiceName := ShellService, ServiceURL := address,
                      RequiredServices := [LogService], ServiceUpdateURL := address @ ''/services''\<rparr>,
                    smHost = host, smPort = port, smHandlers = shellRoutes\<rparr>))"

text \<open>The web service serves its users on the port of gin; the port it starts here takes the patches,
  and the log handler.\<close>

definition webMain :: "(string \<Rightarrow> string) \<Rightarrow> string option \<Rightarrow> string option \<Rightarrow> service_main option" where
  "webMain env ip publicIP =
     (case ip of
        None \<Rightarrow> None
      | Some host \<Rightarrow>
          (let port = envOr env ''Web_Port'' ''80''; ginPort = envOr env ''GIN_Port'' ''8080'';
               address = serviceAddress host port
           in case publicIP of
                None \<Rightarrow> None
              | Some pub \<Rightarrow>
                  Some \<lparr>smReg = emptyRegistration\<lparr>ServiceName := WebService,
                          ServiceURL := serviceAddress host ginPort, PublicIP := pub,
                          RequiredServices := [NodeService, LogService], ServiceUpdateURL := address @ ''/service''\<rparr>,
                        smHost = host, smPort = port, smHandlers = logRoutes\<rparr>))"

section \<open>Finding the log service\<close>

text \<open>The loop that looks for providers every 3 seconds, over the caches it sees; \<open>None\<close> while it has
  found none.\<close>

fun waitProviders :: "string \<Rightarrow> providers list \<Rightarrow> Registration list option" where
  "waitProviders name [] = None"
| "waitProviders name (p # ps) =
     (case GetProviders p name of None \<Rightarrow> waitProviders name ps | Some regs \<Rightarrow> Some regs)"

text \<open>\<open>rand.Intn(n)\<close> is \<open>rand n\<close>; it panics on 0.\<close>

definition connectLogger ::
  "(nat \<Rightarrow> nat) \<Rightarrow> string \<Rightarrow> providers list \<Rightarrow> (unit, std_logger) run option" where
  "connectLogger rand serviceName looks =
     (case waitProviders LogService looks of
        None \<Rightarrow> None
      | Some logProviders \<Rightarrow>
          Some (if length logProviders = 0 then Panic ()
                else Ret () (SetClientLogger (ServiceURL (logProviders ! rand (length logProviders))) serviceName)))"

text \<open>The shell service looks only once; here \<open>None\<close> is its fatal exit.\<close>

definition shellLogger :: "(nat \<Rightarrow> nat) \<Rightarrow> providers \<Rightarrow> (unit, std_logger) run option" where
  "shellLogger rand p = connectLogger rand ShellService [p]"

text \<open>A node waits for the log service and then for the web service before it goes on.\<close>

definition nodeReady ::
  "(nat \<Rightarrow> nat) \<Rightarrow> providers list \<Rightarrow> providers list \<Rightarrow> (unit, std_logger) run option" where
  "nodeReady rand looks webLooks =
     (case connectLogger rand NodeService looks of
        None \<Rightarrow> None
      | Some (Panic u) \<Rightarrow> Some (Panic u)
      | Some (Ret u lg) \<Rightarrow> (case waitProviders WebService webLooks of None \<Rightarrow> None | Some _ \<Rightarrow> Some (Ret u lg)))"

section \<open>Helpers\<close>

text \<open>\<open>get\<close> is \<open>http.Get\<close>: no answer, or a status with a body (\<open>None\<close> when reading it fails). The status
  is not looked at.\<close>

definition GetPublicIP :: "(string \<Rightarrow> (status \<times> string option) option) \<Rightarrow> string option" where
  "GetPublicIP get = (case get ''https://api.ipify.org?format=text'' of None \<Rightarrow> None | Some (code, body) \<Rightarrow> body)"

definition GetPublicIPv6 :: "(string \<Rightarrow> (status \<times> string option) option) \<Rightarrow> string option" where
  "GetPublicIPv6 get = (case get ''https://api64.ipify.org?format=text'' of None \<Rightarrow> None | Some (code, body) \<Rightarrow> body)"

text \<open>\<open>start\<close> starts a program on the host; \<open>False\<close> is an error.\<close>

definition LaunchXray :: "(string \<Rightarrow> 'o \<Rightarrow> 'o \<times> bool) \<Rightarrow> (string \<Rightarrow> string) \<Rightarrow> string \<Rightarrow> 'o \<Rightarrow> 'o \<times> bool" where
  "LaunchXray start env goarch s =
     (let path = env ''XRAY_PATH'' @ (if goarch = ''arm64'' then ''_arm'' else []) in start path s)"

definition Regkey :: "(string \<Rightarrow> string) \<Rightarrow> string" where
  "Regkey env = env ''regkey''"

text \<open>\<open>dial\<close> gives the text of the local address of a connection; \<open>strings.Split(addr, ":")[0]\<close> is what stands
  before the first colon.\<close>

definition GetHostIP :: "(string \<Rightarrow> string \<Rightarrow> string option) \<Rightarrow> string option" where
  "GetHostIP dial = map_option (takeWhile (\<lambda>c. c \<noteq> CHR '':'')) (dial ''udp'' ''8.8.8.8:53'')"

text \<open>The rest of the main function of a node, after the two waits: the tickers are started, which
  have their own models, and xray is launched. The result is \<open>False\<close> on the fatal exit when that
  fails.\<close>

definition nodeLaunch ::
  "(string \<Rightarrow> 'o \<Rightarrow> 'o \<times> bool) \<Rightarrow> (string \<Rightarrow> string) \<Rightarrow> string \<Rightarrow> (nat \<Rightarrow> nat) \<Rightarrow> providers list \<Rightarrow> providers list \<Rightarrow> 'o \<Rightarrow>
   ('o, bool) run option" where
  "nodeLaunch start env goarch rand looks webLooks s =
     (case nodeReady rand looks webLooks of
        None \<Rightarrow> None
      | Some (Panic u) \<Rightarrow> Some (Panic s)
      | Some (Ret u lg) \<Rightarrow> (case LaunchXray start env goarch s of (s1, ok) \<Rightarrow> Some (Ret s1 ok)))"

text \<open>The connection to the database: \<open>openDB\<close> is \<open>gorm.Open\<close> for a data source, \<open>exec\<close> runs a statement.
  Every failure panics; the value is the data source of the connection that is kept.\<close>

definition dbConnect ::
  "(string \<Rightarrow> bool) \<Rightarrow> (string \<Rightarrow> string \<Rightarrow> bool) \<Rightarrow> (string \<Rightarrow> string) \<Rightarrow> (unit, string) run" where
  "dbConnect openDB exec env =
     (let baseDSN = env ''DB'' @ ''/'';
          dsnWithDB = baseDSN @ ''vpn?charset=utf8mb4&parseTime=True&loc=Local''
      in if \<not> openDB baseDSN then Panic ()
         else if \<not> exec baseDSN ''CREATE DATABASE IF NOT EXISTS vpn CHARACTER SET utf8mb4 COLLATE utf8mb4_general_ci;'' then Panic ()
         else if \<not> openDB dsnWithDB then Panic ()
         else Ret () dsnWithDB)"

text \<open>The table: \<open>autoMigrate\<close> is gorm's on a data source, with whether it succeeds, which \<open>Sync\<close> does not
  look at. \<open>webInit\<close> is the initialisation of the web process.\<close>

definition Sync :: "(string \<Rightarrow> 'd \<Rightarrow> 'd \<times> bool) \<Rightarrow> string \<Rightarrow> 'd \<Rightarrow> 'd" where
  "Sync autoMigrate dsn d = fst (autoMigrate dsn d)"

definition webInit ::
  "(string \<Rightarrow> bool) \<Rightarrow> (string \<Rightarrow> string \<Rightarrow> bool) \<Rightarrow> (string \<Rightarrow> 'd \<Rightarrow> 'd \<times> bool) \<Rightarrow> (string \<Rightarrow> string) \<Rightarrow> 'd \<Rightarrow> ('d, string) run" where
  "webInit openDB exec autoMigrate env d =
     (case dbConnect openDB exec env of
        Panic _ \<Rightarrow> Panic d
      | Ret _ dsn \<Rightarrow> Ret (Sync autoMigrate dsn d) dsn)"

section \<open>The registry process\<close>

definition registerRequest :: "(string \<Rightarrow> string) \<Rightarrow> string \<Rightarrow> Registration \<Rightarrow> request" where
  "registerRequest env regkey r = \<lparr>rMethod = POST, rPath = fst (urlTarget (registryServerURL env)),
     rQuery = queryGet (snd (urlTarget (registryServerURL env))),
     rHeader = (\<lambda>k. if k = ''regkey'' then regkey else if k = ''Content-Type'' then ''application/json'' else []),
     rRemoteAddr = [], rBody = None, rJson = Some (encodeRegistration r)\<rparr>"

definition textWriter :: "string writer \<Rightarrow> reg_body writer" where
  "textWriter w = \<lparr>wStatus = wStatus w, wBody = map RText (wBody w)\<rparr>"

text \<open>The multiplexer of the registry, for a clean path: \<open>/services\<close>, and everything below
  \<open>/heartbeat/\<close>.\<close>

definition registryMux ::
  "(nat \<Rightarrow> bool) \<Rightarrow> string \<Rightarrow> string \<Rightarrow> time \<Rightarrow> request \<Rightarrow> registry \<Rightarrow> (registry, reg_body writer) run" where
  "registryMux delivered regkey uuid now r s =
     (if rPath r = ''/services'' then registryServeHTTP delivered regkey uuid now r s newWriter
      else if take 11 (rPath r) = ''/heartbeat/'' then
        (case heartbeatServeHTTP (Some (IsServiceRegistered s)) now r (heartbeatServer s) newWriter of
           (h, w) \<Rightarrow> Ret (s\<lparr>heartbeatServer := h\<rparr>) (textWriter w))
      else if rPath r = ''/heartbeat'' then Ret s (writeHeader 301 newWriter)
      else Ret s (writeHeader StatusNotFound newWriter))"

section \<open>The shell service\<close>

text \<open>\<open>run\<close> executes a program on the host; \<open>None\<close> is an error.\<close>

definition shellServeHTTP ::
  "(string \<Rightarrow> 'o \<Rightarrow> 'o \<times> string option) \<Rightarrow> request \<Rightarrow> 'o \<Rightarrow> string writer \<Rightarrow> 'o \<times> string writer" where
  "shellServeHTTP run r s w =
     (case rMethod r of
        POST \<Rightarrow>
          (case rBody r of
             None \<Rightarrow> (s, writeHeader StatusBadRequest w)
           | Some msg \<Rightarrow>
               if length msg = 0 then (s, writeHeader StatusBadRequest w)
               else
                 (case run msg s of
                    (s1, None) \<Rightarrow> (s1, writeHeader StatusInternalServerError w)
                  | (s1, Some output) \<Rightarrow> (s1, writeBody output (writeBody (''Command executed: '' @ msg @ '' '') w))))
      | _ \<Rightarrow> (s, writeHeader StatusMethodNotAllowed w))"

section \<open>Lemmas: URLs\<close>

definition plainPort :: "string \<Rightarrow> bool" where
  "plainPort p \<longleftrightarrow> (\<forall>c \<in> set p. isDigit c)"

text \<open>A path whose characters stand for themselves.\<close>

definition plainPath :: "string \<Rightarrow> bool" where
  "plainPath p \<longleftrightarrow> (\<forall>c \<in> set p. c = CHR ''/'' \<or> 97 \<le> (of_char c :: nat) \<and> (of_char c :: nat) \<le> 122)"

lemma plainPort_host: "plainPort p \<Longrightarrow> plainHost p"
  by (simp add: plainPort_def plainHost_def)

lemma lastIndexByte_absent: "c \<notin> set s \<Longrightarrow> lastIndexByte c s = None"
  by (induction s) auto

lemma lastIndexByte_at: "c \<notin> set b \<Longrightarrow> lastIndexByte c (a @ c # b) = Some (length a)"
  by (induction a) (simp_all add: lastIndexByte_absent)

lemma pathUnescape_plain: "CHR ''%'' \<notin> set p \<Longrightarrow> pathUnescape p = Some p"
  by (induction p) auto

definition urlChar :: "char \<Rightarrow> bool" where
  "urlChar c \<longleftrightarrow> isDigit c \<or> c \<in> {CHR ''.'', CHR ''-'', CHR '':'', CHR ''/''} \<or>
     97 \<le> (of_char c :: nat) \<and> (of_char c :: nat) \<le> 122 \<or> 65 \<le> (of_char c :: nat) \<and> (of_char c :: nat) \<le> 90"

lemma urlChar_safe: "urlChar c \<Longrightarrow> c \<noteq> CHR ''#'' \<and> c \<noteq> CHR ''?'' \<and> c \<noteq> CHR ''%'' \<and> \<not> ((of_char c :: nat) < 32 \<or> (of_char c :: nat) = 127)"
  by (auto simp: urlChar_def isDigit_def)

lemma urlChars_safe:
  assumes "\<forall>c \<in> set s. urlChar c"
  shows "CHR ''#'' \<notin> set s" "CHR ''?'' \<notin> set s" "CHR ''%'' \<notin> set s"
    "c \<in> set s \<Longrightarrow> \<not> ((of_char c :: nat) < 32 \<or> (of_char c :: nat) = 127)"
  using assms urlChar_safe by blast+

lemma take_drop_slash:
  "CHR ''/'' \<notin> set a \<Longrightarrow> takeWhile (\<lambda>c. c \<noteq> CHR ''/'') (a @ CHR ''/'' # p) = a"
  "CHR ''/'' \<notin> set a \<Longrightarrow> dropWhile (\<lambda>c. c \<noteq> CHR ''/'') (a @ CHR ''/'' # p) = CHR ''/'' # p"
  by (induction a) auto

lemma parseURLPath_plain:
  assumes "plainHost host" "plainPort port" "plainPath path" "path = CHR ''/'' # p"
  shows "parseURLPath (''http://'' @ host @ '':'' @ port @ path) = Some path"
proof -
  let ?hp = "host @ CHR '':'' # port"
  let ?url = "''http://'' @ ?hp @ path"
  have chars: "\<forall>c \<in> set (?hp @ path). urlChar c"
    using assms(1-3) by (auto simp: plainHost_def plainPort_def plainPath_def urlChar_def)
  note safe = urlChars_safe [OF this]
  have none: "CHR ''#'' \<notin> set (?hp @ path)" "CHR ''?'' \<notin> set (?hp @ path)" by (rule safe)+
  have escape: "CHR ''%'' \<notin> set path" using safe(3) by simp
  have ctl: "\<not> (\<exists>c \<in> set ?url. (of_char c :: nat) < 32 \<or> (of_char c :: nat) = 127)"
    using safe(4) by auto
  have slash: "CHR ''/'' \<notin> set ?hp" using plainHost_chars [OF assms(1)] plainHost_chars [OF plainPort_host [OF assms(2)]] by simp
  note slash_split = take_drop_slash [OF this, of p, folded assms(4)]
  have "CHR '':'' \<notin> set port" using assms(2) by (auto simp: plainPort_def isDigit_def)
  then have host: "validHost ?hp"
    using assms(1,2) by (auto simp: validHost_def lastIndexByte_at hostChar_def plainHost_def plainPort_def)
  have "drop (length ''http://'') ?url = ?hp @ path" by simp
  then have "fst (cut CHR ''?'' (fst (cut CHR ''#'' (drop (length ''http://'') ?url)))) = ?hp @ path"
    by (simp only: cut_none [OF none(1)] cut_none [OF none(2)] fst_conv)
  note hostPath = this
  have "parseURLPath ?url = pathUnescape path"
    unfolding parseURLPath_def Let_def hostPath slash_split if_not_P [OF ctl] using host by (simp only: not_True_eq_False if_False)
  with pathUnescape_plain [OF escape] show ?thesis by simp
qed

lemma urlTarget_plain:
  assumes "plainHost host" "plainPort port" "plainPath path" "path = CHR ''/'' # p"
  shows "urlTarget (''http://'' @ host @ '':'' @ port @ path) = (path, [])"
proof -
  have "\<forall>c \<in> set p. urlChar c" using assms(3,4) by (auto simp: plainPath_def urlChar_def)
  note path = urlChars_safe(1,2) [OF this]
  have "urlTarget (''http://'' @ (host @ '':'' @ port) @ CHR ''/'' # p) = (CHR ''/'' # p, [])"
    by (rule urlTarget_simple(2) [where query = "[]"])
      (use path assms(1) plainPort_host [OF assms(2)] in \<open>auto dest: plainHost_chars\<close>)
  then show ?thesis using assms(4) by simp
qed

section \<open>Lemmas: the main functions\<close>

text \<open>The five services that register, on a host with the address \<open>ip\<close>.\<close>

definition isMain :: "(string \<Rightarrow> string) \<Rightarrow> string \<Rightarrow> string option \<Rightarrow> service_main \<Rightarrow> bool" where
  "isMain env ip ipv6 c \<longleftrightarrow> Some c \<in> {logMain env (Some ip), paymentMain env (Some ip), shellMain env (Some ip),
     webMain env (Some ip) (Some ip)} \<union> range (\<lambda>h. snd (nodeMain env (Some ip) (Some ip) ipv6 h))"

lemma HandleAll_distinct: "distinct (mux @ hs) \<Longrightarrow> [] \<notin> set hs \<Longrightarrow> HandleAll hs mux = Some (mux @ hs)"
  by (induction hs arbitrary: mux) (auto simp: Handle_def)

lemma isMain_shape:
  assumes "isMain env ip ipv6 c"
  obtains path p where "path = CHR ''/'' # p" "plainPath path"
    "ServiceUpdateURL (smReg c) = ''http://'' @ ip @ '':'' @ smPort c @ path"
    "HandleAll (smHandlers c) [] = Some (smHandlers c)" "path \<notin> set (smHandlers c)"
    "ServiceName (smReg c) \<noteq> []" "ServiceURL (smReg c) \<noteq> []"
proof -
  note mains = logMain_def paymentMain_def shellMain_def webMain_def nodeMain_def Let_def serviceAddress_def
    LogService_def PaymentService_def ShellService_def WebService_def NodeService_def
  have shape: "(ServiceUpdateURL (smReg c) = ''http://'' @ ip @ '':'' @ smPort c @ ''/service'' \<or>
      ServiceUpdateURL (smReg c) = ''http://'' @ ip @ '':'' @ smPort c @ ''/services'') \<and>
      ServiceName (smReg c) \<noteq> [] \<and> ServiceURL (smReg c) \<noteq> []"
    and handlers: "smHandlers c \<in> {logRoutes, payRoutes, shellRoutes, nodeRoutes}"
    using assms by (auto simp: isMain_def mains)
  have "HandleAll (smHandlers c) [] = Some (smHandlers c)" "''/service'' \<notin> set (smHandlers c)" "''/services'' \<notin> set (smHandlers c)"
    using handlers by (auto simp: logRoutes_def payRoutes_def shellRoutes_def nodeRoutes_def Handle_def)
  with shape that [of "''/service''"] that [of "''/services''"] show thesis by (auto simp: plainPath_def)
qed

lemma registry_urls:
  assumes "plainHost (env ''Registry_IP'')" "plainPort (env ''Registry_Port'')"
  shows "urlTarget (registryServerURL env) = (''/services'', [])"
    and "urlTarget (heartbeatURL env @ ''basic'') = (''/heartbeat/basic'', [])"
proof -
  have port: "plainPort (registryPort env)" using assms(2) by (simp add: registryPort_def plainPort_def isDigit_def)
  have "plainPath ''/services''" "plainPath ''/heartbeat/basic''" by (simp_all add: plainPath_def)
  note urlTarget_plain [OF assms(1) port this(1) refl] urlTarget_plain [OF assms(1) port this(2) refl]
  then show "urlTarget (registryServerURL env) = (''/services'', [])"
    "urlTarget (heartbeatURL env @ ''basic'') = (''/heartbeat/basic'', [])"
    by (simp_all add: registryServerURL_def heartbeatURL_def)
qed

lemma Start_registered:
  assumes "isMain env ip ipv6 c" "plainHost ip" "plainPort (smPort c)" "RegisterRequest attempts (smReg c) = Some (r1, ok)"
  shows "Start env attempts c p = Some (Ret (smHandlers c @ [fst (urlTarget (ServiceUpdateURL (smReg c)))])
    (Some \<lparr>stAddr = '':'' @ smPort c, stMux = smHandlers c @ [fst (urlTarget (ServiceUpdateURL (smReg c)))],
      stClient = \<lparr>clReg = r1, clHeartbeat = \<lparr>hbServiceID = ServiceID r1, hbURL = heartbeatURL env\<rparr>, clProv = p\<rparr>\<rparr>))"
proof -
  obtain path q where c: "path = CHR ''/'' # q" "plainPath path"
    "ServiceUpdateURL (smReg c) = ''http://'' @ ip @ '':'' @ smPort c @ path"
    "HandleAll (smHandlers c) [] = Some (smHandlers c)" "path \<notin> set (smHandlers c)"
    using isMain_shape [OF assms(1)] by metis
  note url = parseURLPath_plain [OF assms(2,3) c(2,1), folded c(3)] urlTarget_plain [OF assms(2,3) c(2,1), folded c(3)]
  show ?thesis using c(1,4,5) assms(4) by (simp add: Start_def RegisterService_def Handle_def url)
qed

section \<open>Properties\<close>

text \<open>
  C25: each of the five services comes up. Its registration, as its main function builds it, is routed
  by the registry process to the registry, which answers with the new id; the service then serves its
  own routes and the path of the update URL it registered, is listed with the id it took, and its
  first heartbeat is routed to the heartbeat server and accepted. The registry may be unreachable any
  number of times before.
\<close>

theorem service_start_registers:
  assumes "isMain env ip ipv6 c" "plainHost ip" "plainPort (smPort c)"
    and "plainHost (env ''Registry_IP'')" "plainPort (env ''Registry_Port'')"
    and "reg_reach regkey s" "freshID s uuid" "uuid \<noteq> []" "\<forall>k. d k"
    and "ServiceURL (smReg c) \<notin> ServiceURL ` set (regsOf s (ServiceName (smReg c)))"
  shows "\<exists>s' w st h w2. registryMux d regkey uuid now (registerRequest env regkey (smReg c)) s = Ret s' w \<and>
    wBody w = [RText uuid] \<and>
    Start env (replicate k Unreachable @ [Answer (finalStatus w) (Some uuid)]) c p = Some (Ret (stMux st) (Some st)) \<and>
    stMux st = smHandlers c @ [fst (urlTarget (ServiceUpdateURL (smReg c)))] \<and>
    clReg (stClient st) \<in> set (regsOf s' (ServiceName (smReg c))) \<and>
    registryMux d regkey uuid' now' (heartbeatRequest (clHeartbeat (stClient st))) s' = Ret (s'\<lparr>heartbeatServer := h\<rparr>) w2 \<and>
    finalStatus w2 = StatusOK \<and> LastHeartBeat h uuid = Some now'"
proof -
  let ?r = "registerRequest env regkey (smReg c)"
  note urls = registry_urls [OF assms(4,5)]
  have name: "ServiceName (smReg c) \<noteq> []" "ServiceURL (smReg c) \<noteq> []" using isMain_shape [OF assms(1)] by metis+
  have req: "rMethod ?r = POST" "rHeader ?r ''regkey'' = regkey" "rJson ?r = Some (encodeRegistration (smReg c))" "rPath ?r = ''/services''"
    by (simp_all add: registerRequest_def urls)
  obtain s' w where post: "registryServeHTTP d regkey uuid now ?r s newWriter = Ret s' w" "finalStatus w = StatusOK" "wBody w = [RText uuid]"
      "(smReg c)\<lparr>ServiceID := uuid\<rparr> \<in> set (regsOf s' (ServiceName (smReg c)))" "IsServiceRegistered s' uuid"
    using registryPost_new [OF assms(6-9) req(1-3) name assms(10), of now] by fastforce
  have "reg_reach regkey s'"
    using reg_reach.step [OF assms(6) reg_step.http [OF assms(7,8), where delivered = d and now = now and r = ?r and w = newWriter]] post(1) by simp
  then have types: "HeartBeatTypeMap (heartbeatServer s') ''/heartbeat/basic'' = Some BasicHeartbeatHandler"
    by (simp add: reg_reach_types NewHeartBeatServer_def)
  have attempts: "RegisterRequest (replicate k Unreachable @ [Answer (finalStatus w) (Some uuid)]) (smReg c) = Some ((smReg c)\<lparr>ServiceID := uuid\<rparr>, True)"
    using post(2) by simp
  let ?mux = "smHandlers c @ [fst (urlTarget (ServiceUpdateURL (smReg c)))]"
  let ?cl = "\<lparr>clReg = (smReg c)\<lparr>ServiceID := uuid\<rparr>, clHeartbeat = \<lparr>hbServiceID = uuid, hbURL = heartbeatURL env\<rparr>, clProv = p\<rparr>"
  let ?st = "\<lparr>stAddr = '':'' @ smPort c, stMux = ?mux, stClient = ?cl\<rparr>"
  let ?h = "(heartbeatServer s')\<lparr>LastHeartBeat := (LastHeartBeat (heartbeatServer s'))(uuid \<mapsto> now')\<rparr>"
  have "registryMux d regkey uuid' now' (heartbeatRequest (clHeartbeat (stClient ?st))) s' =
      Ret (s'\<lparr>heartbeatServer := ?h\<rparr>) (textWriter (writeHeader StatusOK newWriter))"
    using post(5) assms(8) types urls(2) by (simp add: registryMux_def heartbeatRequest_def heartbeatServeHTTP_def HandleCommonLogic_def)
  moreover have "registryMux d regkey uuid now ?r s = Ret s' w" using post(1) req(4) by (simp add: registryMux_def)
  moreover have "Start env (replicate k Unreachable @ [Answer (finalStatus w) (Some uuid)]) c p = Some (Ret (stMux ?st) (Some ?st))"
    using Start_registered [OF assms(1-3) attempts] by simp
  moreover have "finalStatus (textWriter (writeHeader StatusOK newWriter)) = StatusOK" "LastHeartBeat ?h uuid = Some now'"
    "stMux ?st = ?mux" "clReg (stClient ?st) \<in> set (regsOf s' (ServiceName (smReg c)))"
    using post(4) by (simp_all add: textWriter_def http_simps)
  ultimately show ?thesis using post(3) by blast
qed

text \<open>
  A service that looks for the log service finds one of the providers in the first cache that has
  an entry for it, and logs to its URL. When that entry has been emptied by a removal, \<open>GetProviders\<close>
  returns an empty list without an error and the choice panics: so it ends when the log service is
  removed before the first look.
\<close>

theorem log_provider_choice:
  assumes "\<forall>n > 0. rand n < n" "connectLogger rand svc looks = Some r"
  shows "\<exists>regs. waitProviders LogService looks = Some regs \<and>
    (if regs = [] then r = Panic ()
     else \<exists>a \<in> set regs. r = Ret () (SetClientLogger (ServiceURL a) svc)) \<and>
    (\<forall>a. ServiceName a = LogService \<longrightarrow> looks = [Update \<lparr>Added = [], Removed = [a]\<rparr> (Update \<lparr>Added = [a], Removed = []\<rparr> noProviders)]
       \<longrightarrow> r = Panic ())"
proof -
  obtain regs where regs: "waitProviders LogService looks = Some regs"
    using assms(2) by (auto simp: connectLogger_def split: option.splits)
  have chosen: "if regs = [] then r = Panic () else \<exists>a \<in> set regs. r = Ret () (SetClientLogger (ServiceURL a) svc)"
    using assms regs by (auto simp: connectLogger_def)
  have "r = Panic ()" if "ServiceName a = LogService"
    "looks = [Update \<lparr>Added = [], Removed = [a]\<rparr> (Update \<lparr>Added = [a], Removed = []\<rparr> noProviders)]" for a
    using that regs chosen by (auto simp: Update_def noProviders_def GetProviders_def)
  with regs chosen show ?thesis by blast
qed

text \<open>
  The shell service runs any program a caller names: whatever headers and address a request has,
  a POST with a body executes exactly that body and answers with its output, and nothing else is
  executed.
\<close>

theorem shell_runs_any_command:
  assumes "rMethod r = POST" "rBody r = Some msg" "msg \<noteq> []" "run msg s = (s1, Some out)"
  shows "shellServeHTTP run r s newWriter = (s1, \<lparr>wStatus = Some StatusOK, wBody = [''Command executed: '' @ msg @ '' '', out]\<rparr>) \<and>
    (rMethod q \<noteq> POST \<or> rBody q = None \<or> rBody q = Some [] \<longrightarrow> fst (shellServeHTTP run q s newWriter) = s)"
  using assms by (auto simp: shellServeHTTP_def http_simps split: http_method.split option.split)

text \<open>
  The web service registers the URL of gin's port and, when its other server stops, asks to remove
  the URL of that server's port: with different ports the two are different URLs.
\<close>

theorem web_stop_names_other_url:
  assumes "webMain env (Some ip) (Some ip) = Some c" "envOr env ''Web_Port'' ''80'' \<noteq> envOr env ''GIN_Port'' ''8080''"
  shows "rBody (stopRequest c) \<noteq> Some (ServiceURL (smReg c))"
  using assms by (auto simp: webMain_def stopRequest_def shutdownRequest_def serviceAddress_def Let_def)

text \<open>
  A node launches xray only when the registry has told it a log service and the web service, and
  then exactly once, at the path for its architecture; until then nothing is started.
\<close>

theorem node_launches_when_ready:
  "nodeLaunch start env goarch rand looks webLooks s =
    (case (waitProviders LogService looks, waitProviders WebService webLooks) of
       (None, _) \<Rightarrow> None
     | (Some [], _) \<Rightarrow> Some (Panic s)
     | (Some _, None) \<Rightarrow> None
     | (Some _, Some _) \<Rightarrow>
         (case start (env ''XRAY_PATH'' @ (if goarch = ''arm64'' then ''_arm'' else [])) s of (s1, ok) \<Rightarrow> Some (Ret s1 ok)))"
  by (simp add: nodeLaunch_def nodeReady_def connectLogger_def LaunchXray_def split: option.split list.split)

text \<open>
  When the database server can be reached and the database can be created and opened, the web process
  starts; that the migration fails goes unnoticed, and the process serves on without its table. With a
  data source that already names the database, as in the readme, the name and the parameters are
  appended again.
\<close>

theorem web_init_outcome:
  assumes "\<And>dsn. openDB dsn" "\<And>dsn q. exec dsn q" "autoMigrate (base @ ''/vpn?charset=utf8mb4&parseTime=True&loc=Local'') d = (d, False)"
    and "env ''DB'' = base"
  shows "webInit openDB exec autoMigrate env d = Ret d (base @ ''/vpn?charset=utf8mb4&parseTime=True&loc=Local'') \<and>
    (base = server @ ''/vpn?parseTime=true'' \<longrightarrow>
       webInit openDB exec autoMigrate env d = Ret d (server @ ''/vpn?parseTime=true/vpn?charset=utf8mb4&parseTime=True&loc=Local''))"
  using assms by (auto simp: webInit_def dbConnect_def Sync_def Let_def)

text \<open>The local address is found for an IPv4 address; of an IPv6 address, which is written in brackets,
  only the bracket and the first group remain.\<close>

theorem host_ip_of_address:
  assumes "CHR '':'' \<notin> set ip" "CHR '':'' \<notin> set g" "dial ''udp'' ''8.8.8.8:53'' = Some addr"
  shows "(addr = ip @ '':'' @ port \<longrightarrow> GetHostIP dial = Some ip) \<and>
    (addr = ''['' @ g @ '':'' @ rest @ '']:'' @ port \<longrightarrow> GetHostIP dial = Some (''['' @ g))"
proof -
  have "takeWhile (\<lambda>c. c \<noteq> CHR '':'') (xs @ CHR '':'' # ys) = xs" if "CHR '':'' \<notin> set xs" for xs ys
    using that by (subst takeWhile_append2) auto
  from this [of ip port] this [of g "rest @ '']:'' @ port"] assms show ?thesis by (auto simp: GetHostIP_def)
qed

text \<open>
  The address of a host is whatever text the address service sends, also with an error status; a node
  then registers under it.
\<close>

theorem public_ip_unchecked:
  assumes "get ''https://api.ipify.org?format=text'' = Some (code, Some page)"
  shows "GetPublicIP get = Some page \<and>
    (\<exists>c. snd (nodeMain env (GetPublicIP get) (GetPublicIP get) ipv6 h) = Some c \<and> PublicIP (smReg c) = page)"
  using assms by (simp add: GetPublicIP_def nodeMain_def Let_def)

section \<open>Concrete runs\<close>

definition demoVars :: "string \<Rightarrow> string" where
  "demoVars k = (if k = ''Registry_IP'' then ''9.9.9.9'' else if k = ''Web_Port'' then ''81'' else [])"

theorem service_start_registers_witness:
  "\<exists>c s' w st. webMain demoVars (Some ''8.8.8.8'') (Some ''8.8.8.8'') = Some c \<and>
     registryMux (\<lambda>_. True) ''k'' ''id3'' 9 (registerRequest demoVars ''k'' (smReg c)) twoNodes = Ret s' w \<and>
     Start demoVars [Unreachable, Answer (finalStatus w) (Some ''id3'')] c noProviders = Some (Ret (stMux st) (Some st)) \<and>
     clReg (stClient st) \<in> set (regsOf s' ''WebService'')"
proof -
  obtain c where c: "webMain demoVars (Some ''8.8.8.8'') (Some ''8.8.8.8'') = Some c" by (simp add: webMain_def Let_def)
  have main: "isMain demoVars ''8.8.8.8'' None c" using c [symmetric] by (simp add: isMain_def)
  have name: "ServiceName (smReg c) = ''WebService''" "smPort c = ''81''"
    using c by (auto simp: webMain_def Let_def WebService_def envOr_def demoVars_def)
  have "plainHost ''8.8.8.8''" "plainPort (smPort c)" "plainHost (demoVars ''Registry_IP'')" "plainPort (demoVars ''Registry_Port'')"
    by (simp_all add: name plainHost_def plainPort_def isDigit_def demoVars_def)
  note plain = this
  have "freshID twoNodes ''id3''" by (auto simp: freshID_def allRegs_def twoNodes_eq nodeReg_def)
  moreover have "ServiceURL (smReg c) \<notin> ServiceURL ` set (regsOf twoNodes (ServiceName (smReg c)))"
    by (simp add: name regsOf_def twoNodes_eq)
  ultimately obtain s' w st where "registryMux (\<lambda>_. True) ''k'' ''id3'' 9 (registerRequest demoVars ''k'' (smReg c)) twoNodes = Ret s' w"
      "Start demoVars (replicate 1 Unreachable @ [Answer (finalStatus w) (Some ''id3'')]) c noProviders = Some (Ret (stMux st) (Some st))"
      "clReg (stClient st) \<in> set (regsOf s' (ServiceName (smReg c)))"
    using service_start_registers [OF main plain twoNodes_reach, where uuid = "''id3''" and d = "\<lambda>_. True" and k = 1 and now = 9 and p = noProviders]
    by auto blast
  with c name(1) show ?thesis by auto
qed

theorem log_provider_choice_witness:
  "connectLogger (\<lambda>n. n - 1) ''WebService'' [noProviders, Update \<lparr>Added = [(nodeReg ''u'' ''i'')\<lparr>ServiceName := ''LogService''\<rparr>], Removed = []\<rparr> noProviders] =
     Some (Ret () (SetClientLogger ''u'' ''WebService''))"
proof -
  let ?looks = "[noProviders, Update \<lparr>Added = [(nodeReg ''u'' ''i'')\<lparr>ServiceName := ''LogService''\<rparr>], Removed = []\<rparr> noProviders]"
  have wait: "waitProviders LogService ?looks = Some [(nodeReg ''u'' ''i'')\<lparr>ServiceName := ''LogService''\<rparr>]"
    by (simp add: GetProviders_def noProviders_def Update_def LogService_def)
  then obtain r where r: "connectLogger (\<lambda>n. n - 1) ''WebService'' ?looks = Some r" by (simp add: connectLogger_def)
  have "\<forall>n > 0. n - 1 < (n :: nat)" by simp
  from log_provider_choice [OF this r] r wait show ?thesis by (simp add: nodeReg_def)
qed

theorem shell_runs_any_command_witness:
  "shellServeHTTP (\<lambda>c s. (c # s, Some ''done'')) (textRequest POST ''/shell'' ''reboot'') [] newWriter =
   ([''reboot''], \<lparr>wStatus = Some StatusOK, wBody = [''Command executed: reboot '', ''done'']\<rparr>)"
  using shell_runs_any_command [where r = "textRequest POST ''/shell'' ''reboot''" and msg = "''reboot''" and
      run = "\<lambda>c s. (c # s, Some ''done'')" and s = "[]" and ?s1.0 = "[''reboot'']" and out = "''done''" and q = "textRequest GET [] []"]
  by (simp add: textRequest_def)

theorem web_stop_names_other_url_witness:
  "\<exists>c. webMain demoVars (Some ''8.8.8.8'') (Some ''8.8.8.8'') = Some c \<and> rBody (stopRequest c) \<noteq> Some (ServiceURL (smReg c))"
proof -
  obtain c where c: "webMain demoVars (Some ''8.8.8.8'') (Some ''8.8.8.8'') = Some c" by (simp add: webMain_def Let_def)
  have "envOr demoVars ''Web_Port'' ''80'' \<noteq> envOr demoVars ''GIN_Port'' ''8080''" by (simp add: envOr_def demoVars_def)
  from web_stop_names_other_url [OF c this] c show ?thesis by blast
qed

theorem public_ip_unchecked_witness:
  "GetPublicIP (\<lambda>_. Some (503, Some ''Service Unavailable'')) = Some ''Service Unavailable''"
  by (rule public_ip_unchecked [where code = 503, THEN conjunct1]) simp

end
