(* ===== verification/Registry_Process.thy ===== *)
theory Registry_Process
  imports Services
begin

text \<open>
  The registry as a running process: the main function of src/cmd/regservice/main.go, and the ticker
  that \<open>NewRegistryService\<close> of src/registry/server.go starts beside the HTTP server. Between changes of
  the table by other requests, heartbeats and sweeps follow each other in any order and at any
  times; a service stays registered exactly as long as no sweep finds its last heartbeat more than
  20 seconds old.
\<close>

section \<open>Model\<close>

text \<open>The address the process listens on and its multiplexer.\<close>

definition regMain :: "(string \<Rightarrow> string) \<Rightarrow> string \<times> string list option" where
  "regMain env = ('':'' @ registryPort env, HandleAll [''/heartbeat/'', ''/services''] [])"

text \<open>A heartbeat of a service at a time, and a tick of the 20 second ticker: with the delivery of
  patches, the order of the range over the snapshot and the time at which each service is checked.\<close>

datatype process_event =
    Beat time string
  | Tick "nat \<Rightarrow> bool" "(string \<times> Registration list) list \<Rightarrow> (string \<times> Registration list) list" "Registration \<Rightarrow> time"

fun registryRun :: "(string \<Rightarrow> string) \<Rightarrow> process_event list \<Rightarrow> registry \<Rightarrow> registry" where
  "registryRun env [] s = s"
| "registryRun env (Beat t i # evs) s =
     registryRun env evs (runState (registryMux (\<lambda>_. True) (Regkey env) [] t
       (heartbeatRequest \<lparr>hbServiceID = i, hbURL = heartbeatURL env\<rparr>) s))"
| "registryRun env (Tick delivered order clock # evs) s =
     registryRun env evs (removeInactiveServices delivered order clock s)"

section \<open>Specification\<close>

text \<open>The last heartbeat of the service is \<open>l\<close>; no tick comes more than 20 seconds after the last one
  before it.\<close>

fun heardInTime :: "Registration \<Rightarrow> time \<Rightarrow> process_event list \<Rightarrow> bool" where
  "heardInTime r l [] = True"
| "heardInTime r l (Beat t i # evs) = heardInTime r (if i = ServiceID r then t else l) evs"
| "heardInTime r l (Tick delivered order clock # evs) = (clock r - l \<le> 20 * second \<and> heardInTime r l evs)"

text \<open>A range over a map visits every entry once.\<close>

definition rangesOk :: "process_event list \<Rightarrow> bool" where
  "rangesOk evs \<longleftrightarrow> (\<forall>d order clock. Tick d order clock \<in> set evs \<longrightarrow>
     (\<forall>m. set (order m) = set m \<and> (distinct (map fst m) \<longrightarrow> distinct (map fst (order m)))))"

section \<open>Lemmas\<close>

lemma beat_effect:
  assumes "plainHost (env ''Registry_IP'')" "plainPort (env ''Registry_Port'')"
    and "HeartBeatTypeMap (heartbeatServer s) = HeartBeatTypeMap NewHeartBeatServer"
  shows "runState (registryMux d regkey uuid t (heartbeatRequest \<lparr>hbServiceID = i, hbURL = heartbeatURL env\<rparr>) s) =
    (if i \<noteq> [] \<and> IsServiceRegistered s i
     then s\<lparr>heartbeatServer := (heartbeatServer s)\<lparr>LastHeartBeat := (LastHeartBeat (heartbeatServer s))(i \<mapsto> t)\<rparr>\<rparr>
     else s)"
  using registry_urls(2) [OF assms(1,2)] assms(3)
  by (simp add: registryMux_def heartbeatRequest_def heartbeatServeHTTP_def HandleCommonLogic_def NewHeartBeatServer_def)

definition process_ok :: "registry \<Rightarrow> bool" where
  "process_ok s \<longleftrightarrow> reg_inv s \<and> HeartBeatTypeMap (heartbeatServer s) = HeartBeatTypeMap NewHeartBeatServer"

lemma tick_ok: "process_ok s \<Longrightarrow> process_ok (removeInactiveServices d order clock s)"
  by (simp add: process_ok_def removeInactiveServices_def removeInactiveFrom_inv)

lemma beat_ok:
  "process_ok s \<Longrightarrow> process_ok (s\<lparr>heartbeatServer := (heartbeatServer s)\<lparr>LastHeartBeat :=
     (LastHeartBeat (heartbeatServer s))(i \<mapsto> t)\<rparr>\<rparr>)"
  by (simp add: process_ok_def reg_inv_heartbeat)

lemma tick_regsOf:
  assumes "process_ok s" "rangesOk (Tick d order clock # evs)"
  shows "regsOf (removeInactiveServices d order clock s) n =
    filter (\<lambda>r. clock r - the (LastHeartBeat (heartbeatServer s) (ServiceID r)) \<le> 20 * second) (regsOf s n)"
proof -
  have inv: "reg_inv s" using assms(1) by (simp add: process_ok_def)
  have range: "set (order m) = set m \<and> (distinct (map fst m) \<longrightarrow> distinct (map fst (order m)))" for m
    using assms(2) unfolding rangesOk_def by simp
  show ?thesis
    by (rule sweep_regsOf [where order = order, OF inv]) (use range reg_invD(1) [OF inv] in blast)+
qed

text \<open>A service that was removed stays out.\<close>

lemma run_stays_out:
  assumes "plainHost (env ''Registry_IP'')" "plainPort (env ''Registry_Port'')"
  shows "process_ok s \<Longrightarrow> rangesOk evs \<Longrightarrow> r \<notin> set (regsOf s n) \<Longrightarrow> r \<notin> set (regsOf (registryRun env evs s) n)"
proof (induction evs arbitrary: s)
  case (Cons ev evs)
  have ranges: "rangesOk evs" using Cons.prems(2) by (simp add: rangesOk_def)
  show ?case
  proof (cases ev)
    case (Beat t i)
    have types: "HeartBeatTypeMap (heartbeatServer s) = HeartBeatTypeMap NewHeartBeatServer"
      using Cons.prems(1) by (simp add: process_ok_def)
    have "regsOf (s\<lparr>heartbeatServer := h\<rparr>) n = regsOf s n" for h by (simp add: regsOf_def)
    with Cons.IH [OF beat_ok [OF Cons.prems(1), of i t] ranges] Cons.IH [OF Cons.prems(1) ranges] Cons.prems(3)
    show ?thesis by (simp add: Beat beat_effect [OF assms types])
  next
    case (Tick d order clock)
    with Cons.IH [OF tick_ok [OF Cons.prems(1)] ranges] tick_regsOf [OF Cons.prems(1,2) [unfolded Tick]] Cons.prems(3)
    show ?thesis by simp
  qed
qed simp

lemma run_registered:
  assumes "plainHost (env ''Registry_IP'')" "plainPort (env ''Registry_Port'')" "ServiceID r \<noteq> []"
  shows "process_ok s \<Longrightarrow> rangesOk evs \<Longrightarrow> r \<in> set (regsOf s n) \<Longrightarrow>
    LastHeartBeat (heartbeatServer s) (ServiceID r) = Some l \<Longrightarrow>
    r \<in> set (regsOf (registryRun env evs s) n) \<longleftrightarrow> heardInTime r l evs"
proof (induction evs arbitrary: s l)
  case (Cons ev evs)
  have ranges: "rangesOk evs" using Cons.prems(2) by (simp add: rangesOk_def)
  have inv: "reg_inv s" and types: "HeartBeatTypeMap (heartbeatServer s) = HeartBeatTypeMap NewHeartBeatServer"
    using Cons.prems(1) by (simp_all add: process_ok_def)
  show ?case
  proof (cases ev)
    case (Beat t i)
    let ?s1 = "s\<lparr>heartbeatServer := (heartbeatServer s)\<lparr>LastHeartBeat := (LastHeartBeat (heartbeatServer s))(i \<mapsto> t)\<rparr>\<rparr>"
    have reg: "IsServiceRegistered s (ServiceID r)"
      unfolding registered.isRegistered_iff using set_allRegs [OF reg_invD(1) [OF inv]] Cons.prems(3) by blast
    have "regsOf ?s1 n = regsOf s n" by (simp add: regsOf_def)
    with Cons.IH [OF beat_ok [OF Cons.prems(1), of i t] ranges, of "if i = ServiceID r then t else l"]
      Cons.IH [OF Cons.prems(1) ranges Cons.prems(3,4)] Cons.prems(3,4) reg assms(3)
    show ?thesis by (auto simp: Beat beat_effect [OF assms(1,2) types])
  next
    case (Tick d order clock)
    let ?s1 = "removeInactiveServices d order clock s"
    have same: "heartbeatServer ?s1 = heartbeatServer s" by (simp add: removeInactiveServices_def)
    have keep: "r \<in> set (regsOf ?s1 n) \<longleftrightarrow> clock r - l \<le> 20 * second"
      using tick_regsOf [OF Cons.prems(1,2) [unfolded Tick], of n] Cons.prems(3,4) by simp
    show ?thesis
    proof (cases "clock r - l \<le> 20 * second")
      case True
      with Cons.IH [OF tick_ok [OF Cons.prems(1)] ranges] keep same Cons.prems(4) show ?thesis by (simp add: Tick)
    next
      case False
      with run_stays_out [OF assms(1,2) tick_ok [OF Cons.prems(1)] ranges] keep show ?thesis by (simp add: Tick)
    qed
  qed
qed simp

section \<open>Property\<close>

text \<open>
  C8: a registered service is still registered after any sequence of heartbeats, its own and others',
  and sweeps if and only if every sweep found its last heartbeat at most 20 seconds old. So a service
  that reports in time is never dropped, and a silent one is dropped by the first sweep that is more
  than 20 seconds late for it and does not come back by itself.
\<close>

theorem registered_iff_heard:
  assumes "reg_reach (Regkey env) s" "r \<in> set (regsOf s n)" "ServiceID r \<noteq> []"
    and "LastHeartBeat (heartbeatServer s) (ServiceID r) = Some l"
    and "plainHost (env ''Registry_IP'')" "plainPort (env ''Registry_Port'')"
    and "\<forall>d order clock. Tick d order clock \<in> set evs \<longrightarrow>
      (\<forall>m. set (order m) = set m \<and> (distinct (map fst m) \<longrightarrow> distinct (map fst (order m))))"
  shows "r \<in> set (regsOf (registryRun env evs s) n) \<longleftrightarrow> heardInTime r l evs"
proof -
  have "process_ok s" using reg_reach_inv [OF assms(1)] reg_reach_types [OF assms(1)] by (simp add: process_ok_def)
  moreover have "rangesOk evs" using assms(7) unfolding rangesOk_def .
  ultimately show ?thesis using run_registered [OF assms(5,6,3)] assms(2,4) by blast
qed

section \<open>Concrete run\<close>

text \<open>Two nodes, last heard of at 0 and 5. The first reports at 15 seconds; both are checked at 21 and
  at 30 seconds: the first stays, the second is gone.\<close>

definition demoRun :: "process_event list" where
  "demoRun = [Beat (15 * second) ''id1'', Tick (\<lambda>_. True) (\<lambda>m. m) (\<lambda>_. 21 * second), Tick (\<lambda>_. False) rev (\<lambda>_. 30 * second)]"

definition procVars :: "string \<Rightarrow> string" where
  "procVars k = (if k = ''regkey'' then ''k'' else demoVars k)"

theorem registered_iff_heard_witness:
  "nodeReg ''u1'' ''id1'' \<in> set (regsOf (registryRun procVars demoRun twoNodes) ''NodeService'') \<and>
   nodeReg ''u2'' ''id2'' \<notin> set (regsOf (registryRun procVars demoRun twoNodes) ''NodeService'')"
proof -
  have net: "plainHost (procVars ''Registry_IP'')" "plainPort (procVars ''Registry_Port'')"
    by (simp_all add: procVars_def demoVars_def plainHost_def plainPort_def isDigit_def)
  have ranges: "\<forall>d order clock. Tick d order clock \<in> set demoRun \<longrightarrow>
      (\<forall>m. set (order m) = set m \<and> (distinct (map fst m) \<longrightarrow> distinct (map fst (order m))))"
    by (auto simp: demoRun_def rev_map [symmetric])
  have regs: "nodeReg ''u1'' ''id1'' \<in> set (regsOf twoNodes ''NodeService'')" "nodeReg ''u2'' ''id2'' \<in> set (regsOf twoNodes ''NodeService'')"
      "ServiceID (nodeReg ''u1'' ''id1'') \<noteq> []" "ServiceID (nodeReg ''u2'' ''id2'') \<noteq> []"
      "LastHeartBeat (heartbeatServer twoNodes) (ServiceID (nodeReg ''u1'' ''id1'')) = Some 0"
      "LastHeartBeat (heartbeatServer twoNodes) (ServiceID (nodeReg ''u2'' ''id2'')) = Some 5"
    by (simp_all add: twoNodes_eq regsOf_def nodeReg_def)
  have "heardInTime (nodeReg ''u1'' ''id1'') 0 demoRun" "\<not> heardInTime (nodeReg ''u2'' ''id2'') 5 demoRun"
    by (simp_all add: demoRun_def nodeReg_def second_def)
  moreover have reach: "reg_reach (Regkey procVars) twoNodes" using twoNodes_reach by (simp add: Regkey_def procVars_def)
  moreover note registered_iff_heard [OF reach regs(1,3,5) net ranges] registered_iff_heard [OF reach regs(2,4,6) net ranges]
  ultimately
  show ?thesis by blast
qed

end
