(* ===== verification/QR_Code.thy ===== *)
theory QR_Code
  imports Prelude Complex_Main
begin

text \<open>
  Model of src/payment/qrcode/generate.go: the payment link that is drawn as a QR code. A finite
  \<open>float64\<close> is a sign and the rational number it stands for; \<open>%.6f\<close> rounds that number correctly to six
  decimals, ties to even. The encoder of the QR code is a parameter. Since the amount of an order is
  what identifies it, the link has to show it exactly.
\<close>

section \<open>Model\<close>

datatype float64 = Finite bool rat | Infinite bool | NotANumber

definition roundHalfEven :: "rat \<Rightarrow> int" where
  "roundHalfEven x =
     (let f = floor x; d = x - of_int f
      in if d < 1 / 2 then f else if d > 1 / 2 then f + 1 else if even f then f else f + 1)"

definition padZeros :: "nat \<Rightarrow> string \<Rightarrow> string" where
  "padZeros n ds = replicate (n - length ds) (CHR ''0'') @ ds"

text \<open>\<open>%.6f\<close> of \<open>fmt.Sprintf\<close>.\<close>

definition fmtF6 :: "float64 \<Rightarrow> string" where
  "fmtF6 x =
     (case x of
        NotANumber \<Rightarrow> ''NaN''
      | Infinite neg \<Rightarrow> (if neg then ''-Inf'' else ''+Inf'')
      | Finite neg m \<Rightarrow>
          (let n = nat (roundHalfEven (m * 1000000))
           in (if neg then ''-'' else []) @ natDigits (n div 1000000) @ ''.'' @ padZeros 6 (natDigits (n mod 1000000))))"

datatype recovery_level = Low | Medium | High | Highest

definition qrURI :: "string \<Rightarrow> float64 \<Rightarrow> string" where
  "qrURI address amount = ''tron:'' @ address @ ''?amount='' @ fmtF6 amount"

definition GenerateTRXQRCode ::
  "(string \<Rightarrow> recovery_level \<Rightarrow> int \<Rightarrow> string \<Rightarrow> 'o \<Rightarrow> 'o \<times> bool) \<Rightarrow> string \<Rightarrow> float64 \<Rightarrow> string \<Rightarrow> 'o \<Rightarrow> 'o \<times> bool" where
  "GenerateTRXQRCode writeFile address amount oid s = writeFile (qrURI address amount) Medium 256 (oid @ ''.png'') s"

section \<open>Reading the link back\<close>

definition digitsValue :: "string \<Rightarrow> nat" where
  "digitsValue ds = foldl (\<lambda>v c. 10 * v + digitVal c) 0 ds"

text \<open>The number a decimal numeral stands for: digits and, after a point, more digits. \<open>None\<close> for any
  other text.\<close>

definition decimalValue :: "string \<Rightarrow> rat option" where
  "decimalValue t =
     (let whole = takeWhile (\<lambda>c. c \<noteq> CHR ''.'') t; rest = dropWhile (\<lambda>c. c \<noteq> CHR ''.'') t; decs = drop 1 rest
      in if whole = [] \<or> (rest \<noteq> [] \<and> decs = []) \<or> \<not> list_all isDigit (whole @ decs) then None
         else Some (of_nat (digitsValue whole) + of_nat (digitsValue decs) / 10 ^ length decs))"

text \<open>The amount a payment link asks for: the numeral after the last equals sign.\<close>

definition linkAmount :: "string \<Rightarrow> rat option" where
  "linkAmount uri = decimalValue (rev (takeWhile (\<lambda>c. c \<noteq> CHR ''='') (rev uri)))"

text \<open>\<open>m\<close> is \<open>k\<close> millionths up to the rounding error of a double, whose significand has 53 bits.\<close>

definition roundedMillionths :: "nat \<Rightarrow> rat \<Rightarrow> bool" where
  "roundedMillionths k m \<longleftrightarrow> \<bar>m - of_nat k / 1000000\<bar> \<le> of_nat k / 1000000 / 2 ^ 53"

section \<open>Lemmas\<close>

lemma digitsValue_foldl: "foldl (\<lambda>v c. 10 * v + digitVal c) a ds = a * 10 ^ length ds + digitsValue ds"
proof (induction ds rule: rev_induct)
  case (snoc d ds)
  then show ?case by (simp add: digitsValue_def)
qed (simp add: digitsValue_def)

lemma digitsValue_append: "digitsValue (xs @ ys) = digitsValue xs * 10 ^ length ys + digitsValue ys"
  using digitsValue_foldl [of "digitsValue xs" ys] by (simp add: digitsValue_def)

lemma digitsValue_natDigits: "digitsValue (natDigits n) = n"
proof (induction n rule: natDigits.induct)
  case (1 n)
  show ?case
  proof (cases "n < 10")
    case True
    then show ?thesis by (simp add: natDigits.simps [of n] digitsValue_def)
  next
    case False
    with 1 have "digitsValue (natDigits (n div 10)) = n div 10" by simp
    with False show ?thesis by (simp add: natDigits.simps [of n] digitsValue_append) (simp add: digitsValue_def)
  qed
qed

lemma digitsValue_zeros: "digitsValue (replicate k (CHR ''0'')) = 0"
  by (induction k) (simp_all add: digitsValue_def digitVal_def)

lemma length_natDigits: "0 < k \<Longrightarrow> n < 10 ^ k \<Longrightarrow> length (natDigits n) \<le> k"
proof (induction n arbitrary: k rule: natDigits.induct)
  case (1 n)
  show ?case
  proof (cases "n < 10")
    case True
    with "1.prems" show ?thesis by (simp add: natDigits.simps [of n])
  next
    case False
    then obtain j where j: "k = Suc j" "0 < j" using "1.prems" by (cases k; cases "k = 1") auto
    then have "n div 10 < 10 ^ j" using "1.prems" by (simp add: less_mult_imp_div_less mult.commute)
    with 1(1) [OF False j(2)] False j(1) show ?thesis by (simp add: natDigits.simps [of n])
  qed
qed

lemma padZeros_value: "digitsValue (padZeros k (natDigits n)) = n"
  by (simp add: padZeros_def digitsValue_append digitsValue_zeros digitsValue_natDigits)

lemma padZeros_length: "0 < k \<Longrightarrow> n < 10 ^ k \<Longrightarrow> length (padZeros k (natDigits n)) = k"
  using length_natDigits [of k n] by (simp add: padZeros_def)

lemma shown_digits:
  "c \<in> set (natDigits n) \<Longrightarrow> c \<noteq> CHR ''.'' \<and> c \<noteq> CHR ''=''" "c \<in> set (padZeros k (natDigits n)) \<Longrightarrow> c \<noteq> CHR ''.'' \<and> c \<noteq> CHR ''=''"
  using natDigits_digits [of n] by (auto simp: padZeros_def isDigit_def split: if_splits)

text \<open>Rounding goes to the nearest integer, and the number is at most one half away.\<close>

lemma roundHalfEven_near: "\<bar>x - of_int k\<bar> < 1 / 2 \<Longrightarrow> roundHalfEven x = k"
proof -
  assume near: "\<bar>x - of_int k\<bar> < 1 / 2"
  show ?thesis
  proof (cases "x < of_int k")
    case True
    with near have "floor x = k - 1" by (intro floor_unique) auto
    with near True show ?thesis by (simp add: roundHalfEven_def Let_def)
  next
    case False
    with near have "floor x = k" by (intro floor_unique) auto
    with near False show ?thesis by (simp add: roundHalfEven_def Let_def)
  qed
qed

lemma roundHalfEven_error: "\<bar>x - of_int (roundHalfEven x)\<bar> \<le> 1 / 2"
proof -
  have "0 \<le> x - of_int (floor x)" "x - of_int (floor x) < 1" by linarith+
  then show ?thesis by (auto simp: roundHalfEven_def Let_def)
qed

lemma roundHalfEven_nonneg: "0 \<le> x \<Longrightarrow> 0 \<le> roundHalfEven x"
  using zero_le_floor [of x] by (auto simp: roundHalfEven_def Let_def)

lemma takeWhile_upto: "x \<notin> set xs \<Longrightarrow> takeWhile (\<lambda>c. c \<noteq> x) (xs @ x # ys) = xs"
  "x \<notin> set xs \<Longrightarrow> dropWhile (\<lambda>c. c \<noteq> x) (xs @ x # ys) = x # ys"
  by (induction xs) auto

lemma decimalValue_point:
  assumes "whole \<noteq> []" "decs \<noteq> []" "list_all isDigit whole" "list_all isDigit decs"
  shows "decimalValue (whole @ CHR ''.'' # decs) = Some (of_nat (digitsValue whole) + of_nat (digitsValue decs) / 10 ^ length decs)"
proof -
  have "CHR ''.'' \<notin> set whole" using assms(3) by (auto simp: list_all_iff isDigit_def)
  with assms show ?thesis by (simp add: decimalValue_def takeWhile_upto)
qed

lemma padZeros_digits: "list_all isDigit (natDigits n)" "list_all isDigit (padZeros k (natDigits n))"
  using natDigits_digits [of n] by (auto simp: list_all_iff padZeros_def isDigit_def)

lemma linkAmount_finite:
  "linkAmount (qrURI address (Finite False m)) = Some (of_nat (nat (roundHalfEven (m * 1000000))) / 1000000)"
proof -
  define n where "n = nat (roundHalfEven (m * 1000000))"
  let ?w = "natDigits (n div 1000000)" and ?f = "padZeros 6 (natDigits (n mod 1000000))"
  have six: "length ?f = 6" by (rule padZeros_length) simp_all
  then have "?f \<noteq> []" by auto
  note val = decimalValue_point [OF natDigits_nonempty this padZeros_digits, of "n div 1000000"]
  have uri: "qrURI address (Finite False m) = (''tron:'' @ address @ ''?amount'') @ CHR ''='' # (?w @ CHR ''.'' # ?f)"
    by (simp add: qrURI_def fmtF6_def n_def Let_def)
  have "CHR ''='' \<notin> set (rev (?w @ CHR ''.'' # ?f))" by (auto dest: shown_digits)
  then have "takeWhile (\<lambda>c. c \<noteq> CHR ''='') (rev (?w @ CHR ''.'' # ?f) @ CHR ''='' # xs) = rev (?w @ CHR ''.'' # ?f)" for xs
    by (rule takeWhile_upto)
  then have "linkAmount (qrURI address (Finite False m)) = decimalValue (?w @ CHR ''.'' # ?f)"
    by (simp add: linkAmount_def uri)
  also have "\<dots> = Some (of_nat (n div 1000000) + of_nat (n mod 1000000) / 1000000)"
    by (simp add: val six digitsValue_natDigits padZeros_value)
  also have "of_nat (n div 1000000) + of_nat (n mod 1000000) / 1000000 = (of_nat n / 1000000 :: rat)"
  proof -
    have "of_nat n = (of_nat (n div 1000000 * 1000000 + n mod 1000000) :: rat)" by (simp only: div_mult_mod_eq)
    then show ?thesis by (simp only: of_nat_add of_nat_mult) (simp add: field_simps)
  qed
  finally show ?thesis by (simp add: n_def)
qed

lemma rounded_near:
  assumes "roundedMillionths k m" "k < 2 ^ 52"
  shows "\<bar>m * 1000000 - of_nat k\<bar> < 1 / 2"
proof -
  have k: "(of_nat k :: rat) < 2 ^ 52" using assms(2) by (metis of_nat_less_iff of_nat_numeral of_nat_power)
  have "\<bar>m - of_nat k / 1000000\<bar> * 1000000 \<le> of_nat k / 2 ^ 53"
    using assms(1) by (simp add: roundedMillionths_def field_simps)
  also have "of_nat k / 2 ^ 53 < (1 / 2 :: rat)" using k by simp
  finally have "\<bar>m - of_nat k / 1000000\<bar> * 1000000 < 1 / 2" .
  moreover have "\<bar>m * 1000000 - of_nat k\<bar> = \<bar>m - of_nat k / 1000000\<bar> * 1000000"
    by (simp add: abs_if field_simps)
  ultimately show ?thesis by simp
qed

section \<open>Property\<close>

text \<open>
  C36: the link shows the amount. For a nonnegative amount the link carries a decimal numeral that is at
  most half a millionth off; and when the amount is a whole number \<open>k\<close> of millionths, below 2^52 of
  them, up to the rounding error of a double, the numeral is exactly \<open>k\<close> millionths. So two such amounts
  get different links.
\<close>

theorem qr_amount_roundtrip:
  assumes "0 \<le> m"
  shows "\<exists>v. linkAmount (qrURI address (Finite False m)) = Some v \<and> \<bar>m - v\<bar> \<le> 1 / 2 / 1000000 \<and>
    (\<forall>k < 2 ^ 52. roundedMillionths k m \<longrightarrow> v = of_nat k / 1000000)"
proof -
  let ?n = "nat (roundHalfEven (m * 1000000))"
  have n: "of_nat ?n = (of_int (roundHalfEven (m * 1000000)) :: rat)"
    using assms roundHalfEven_nonneg [of "m * 1000000"] by simp
  have "\<bar>m * 1000000 - of_nat ?n\<bar> \<le> 1 / 2" unfolding n by (rule roundHalfEven_error)
  then have "\<bar>m - of_nat ?n / 1000000\<bar> \<le> 1 / 2 / 1000000" by (simp add: abs_le_iff field_simps)
  moreover have "?n = k" if "k < 2 ^ 52" "roundedMillionths k m" for k
    using roundHalfEven_near [of "m * 1000000" "int k"] rounded_near [OF that(2,1)] by simp
  ultimately show ?thesis unfolding linkAmount_finite by blast
qed

text \<open>A double that is not a multiple of a millionth: 1.1 is 2476979795053773 / 2 ^ 51.\<close>

theorem qr_amount_roundtrip_witness:
  "linkAmount (qrURI ''T1'' (Finite False (2476979795053773 / 2251799813685248))) = Some (11 / 10)"
proof -
  have "0 \<le> (2476979795053773 / 2251799813685248 :: rat)" by simp
  from qr_amount_roundtrip [OF this, of "''T1''"]
  obtain v where v: "linkAmount (qrURI ''T1'' (Finite False (2476979795053773 / 2251799813685248))) = Some v"
      "\<forall>k < 2 ^ 52. roundedMillionths k (2476979795053773 / 2251799813685248) \<longrightarrow> v = of_nat k / 1000000" by blast
  have "roundedMillionths 1100000 (2476979795053773 / 2251799813685248)" by (simp add: roundedMillionths_def)
  with v(2) [rule_format, of 1100000] v(1) show ?thesis by simp
qed

end
