(* ===== verification/Spec2Isabelle.thy ===== *)
theory Spec2Isabelle
  imports Web_Node Patch_Delivery Recovery Provider_Slices Node_Concurrency Registry_Concurrency Traffic_Check Races Registry_Process QR_Code
begin

text \<open>
  A model of the Go program under src/ (a distributed VPN manager) and what makes it correct.

  \<^bold>\<open>The program.\<close> Six processes (src/cmd). A \<^emph>\<open>registry\<close> keeps the list of running services, tells each
  the services it requires by patches, and drops those whose heartbeats stop. Every other process
  registers there at start and keeps a cache of providers. A \<^emph>\<open>node\<close> opens a rate-limited TCP proxy in
  front of the xray core for each connected user, counts its bytes, reports them to the web server and
  blocks the host when the monthly traffic is used up. The \<^emph>\<open>web server\<close> has the accounts, asks nodes
  to connect users, and runs two monitors: one disconnects users whose heartbeats stop, one renews
  plans and drops users without traffic left. The \<^emph>\<open>payment service\<close> gives every order an amount of its
  own and finds the payment among the wallet's transactions by that amount. The \<^emph>\<open>log service\<close> appends
  the lines the others post to a file; the \<^emph>\<open>shell service\<close> runs programs.

  \<^bold>\<open>Theories.\<close> A state is a record named after the Go variables it holds; a handler or goroutine step is
  a function from the state to the new state and the response; \<open>run\<close> adds the panic of a handler.
  \<^item> Prelude, Json, Url: 64-bit integers, time, slices, \<open>strconv\<close>, responses, \<open>encoding/json\<close> on values,
    requests, and how a URL becomes a path and a query.
  \<^item> Transitions: the locales \<open>step_system\<close> and \<open>invariant_system\<close>, interpreted by the six state
    machines below.
  \<^item> Interval_Set (payment/order/interval_set.go) and Payment_Orders (mapper.go, server.go, task.go,
    trongrid.go): \<open>Add\<close> refines insertion into a set and \<open>NextMissing\<close> finds its least gap; the locale
    \<open>amount_allocator\<close> is the contract the orders rely on. Over all interleavings of requests and the
    task, amounts are distinct, a payment matches its order and a callback is made once; the paging
    loop ends. Payment_Recognition: a transfer that a run of the task looks at is never overlooked.
    QR_Code (payment/qrcode): the payment link shows the amount to the millionth.
  \<^item> Registration, Heartbeat, Registry_Server, Registry_Client (registry/): the registry's invariant, what
    \<open>add\<close>, \<open>remove\<close>, a sweep and the HTTP methods do on every branch; the locale \<open>service_validator\<close> is
    the Go interface by which the heartbeat server asks the registry. A client's update handler,
    registration with retries, re-registration. Registry_Process (cmd/regservice/main.go): heartbeats
    and sweeps over time, a service stays exactly as long as it is heard of. Registry_Concurrency: the
    sweep in its parts, with requests and registrations in between.
  \<^item> Cache_Coherence: the cache a service builds from its patches equals the registry's list.
    Patch_Delivery: it still has the same providers when the patches of different providers overtake
    each other. Provider_Slices: the cache with Go's slices in a store of arrays refines the cache with
    lists, and a slice that was handed out keeps the providers that stay. Recovery: a service that was
    forgotten registers again and its cache is whole again.
  \<^item> Node_Proxy, Node_Service, Traffic_Check (node/proxy.go, server.go, xray_api.go, traffic_check.go):
    the limited reader, the goroutine of a proxy with its failures, the tables of users and their proxies,
    connect and disconnect on every branch, the block at the traffic limit. Node_Concurrency: connect
    requests that overlap, split where another one can come between. Traffic_Reports: the bytes of a user
    are those in reports received, those in reports lost and those counted between the reads of a report.
  \<^item> Web_Users (web/controllers/controllers.go, admin.go, web/middleware, web/db/models.go): signup,
    login, authentication, traffic, plans. Web_Connections (Connect, HeartbeatFromClient,
    clientHeartbeatMonitor.go, PlanMonitor.go): the connection table, both monitors and their
    interleavings with requests. Web_Server (cmd/webservice/main.go): the routes and the middlewares in
    front of these handlers, who may change what, a session from signup on.
  \<^item> Billing: the bytes a node counts, its reports and the web server's accounts together. Node_Failure:
    the registry's sweep, the provider cache and the heartbeat monitor together. Races: two orders, two
    traffic reports, or the plan monitor and another handler, at once.
  \<^item> Log_Service (log/) and Services (service/service.go, RegisterService, the main functions of cmd/,
    shell/server.go): how processes start, register, find the log service and log to it.
  \<^item> Web_Node and this theory: the web server and a node together, from the signup of a user to a running
    proxy, and the requests of the monitors.

  \<^bold>\<open>What is assumed.\<close> Code outside src/ is a parameter: the xray core (\<open>alterInbound\<close>), the rate
  limiter (\<open>wait\<close>), the MySQL table behind gorm (\<open>db_ops\<close> with \<open>db_laws\<close>), bcrypt and jwt (functions with
  the hypotheses that a hash verifies its password and an unexpired token verifies), TronGrid and the
  callback URLs (\<open>pay_env\<close>), gin's answer to an unknown route. The network, the clock, random numbers,
  environment variables, files and the order of a range over a map are arguments, so every theorem
  holds for all of them. Handlers are atomic except in Node_Concurrency, Registry_Concurrency and Races,
  where those that work without a lock are split into their reads and writes. The monitors are split where
  they release their lock, a traffic report at every read of a counter, and the proxies run
  on their own. That the Go runtime may stop a process when it notices two goroutines in one map is not
  modelled.

  \<^bold>\<open>Loops.\<close> Loops over slices and maps are structural recursion. Those that may go on forever take a list
  of what the world answers (\<open>registerLoop\<close>, \<open>pickPort\<close>, \<open>waitProviders\<close>, \<open>acceptLoop\<close>) and return \<open>None\<close>,
  or where they are, when it is used up; \<open>updateLoop\<close> takes fuel, one unit for each page, and
  \<open>UpdateOrderStatus_terminates\<close> shows that the number of pages is enough when the server links them in a
  row (\<open>linkedPages\<close>).

  \<^bold>\<open>Not modelled.\<close> The reading of the .env file and random UUIDs (src/utils), whose results are arguments;
  the key generation of payment/order/server.go, which only calls third-party code and prints the
  result; \<open>utils.DBHost\<close>, the types \<open>InfoHeartbeat\<close> and \<open>ServerInfo\<close>, and the empty package
  src/web/server.go, which nothing uses. Log output, response headers other than the status, and CORS
  headers.
\<close>

section \<open>Properties\<close>

text \<open>
  C18: a connect request of the web server, for a user whose UUID and email and a client whose address
  need no escaping, reaches the node's connect handler; when the node accepts a new user it opens one
  proxy for exactly that client address, limited to the rate of the user's plan with a burst of three
  seconds of it, and the web server decodes the port of that proxy from the answer.
\<close>

theorem web_connect_opens_plan_proxy:
  assumes "plainHost nodeIP" "plainHost nodePort" "plain uuid" "plain email" "plain clientIP"
    and "r = connectRequestTo (connectURL nodeIP nodePort uuid email clientIP (RateMap plan)) remote"
    and "nodeMux e h r s newWriter = Some (Ret s' w')" "finalStatus w' = StatusOK" "connections s uuid = None"
  shows "\<exists>p body. proxies s' = proxies s @ [p] \<and> pxSourceIP p = clientIP \<and> pxRate p = RateMap plan \<and>
    pxBurst p = 3 * RateMap plan \<and> connections s' uuid = Some (pxPort p) \<and>
    wBody w' = [body] \<and> decodePort body = Some (itoa (pxPort p))"
proof -
  note q = connectRequestTo_fields [OF assms(1-6)]
  have "handleConnect e r s newWriter = Some (Ret s' w')"
    using assms(7) by (simp add: q nodeMux_def nodeRoutes_def nodeServeHTTP_def)
  then have "openProxy e r s newWriter = Some (Ret s' w')"
    using assms(8,9) q(4) by (auto simp: handleConnect_def http_simps split: option.splits prod.splits if_splits)
  then show ?thesis
  proof (cases rule: openProxy_cases)
    case (failed x)
    with assms(8) show ?thesis by (simp add: http_simps)
  next
    case (opened x port p)
    have "pxRate p = RateMap plan" "pxBurst p = 3 * RateMap plan"
      using opened(6,7) by (simp_all add: q parseLimit_itoa RateMap_range)
    with opened q(4,6) show ?thesis
      by (auto simp: portResponse_def http_simps decodePort_def onField_def keyMatches_def)
  qed
qed

text \<open>
  C17: a new user gets service. After a signup and a login with the same credentials, a connect request
  with the token, for a registered node that is ready, is answered with 200 and the port; for that port
  the node has started one new proxy, which runs as soon as it has listened, for the client's address,
  at the rate of the premium plan that every new account has and with three seconds of it as burst,
  and the web server lists the connection. The account's UUID and email and the client's address must need no escaping in a URL.
\<close>

theorem new_user_gets_proxy:
  assumes "db_laws coll ops rows" "weOps e1 = ops" "weOps e2 = ops" "weOps e3 = ops"
    and "rMethod r1 = POST" "rPath r1 = ''/signup''" "bindCredentials r1 = Some body"
    and "rMethod r2 = POST" "rPath r2 = ''/login''" "bindCredentials r2 = Some body"
    and "weHash e1 (crPassword body) = Some hash" "weCompare e2 hash (crPassword body)"
    and "dbCreate ops (newUser (weNow e1) (crEmail body) hash (weUUID e1)) (wsDB s) = (d', None)"
    and "\<forall>claims. weSign e2 claims \<noteq> None"
    and "\<forall>claims t x. weSign e2 claims = Some t \<longrightarrow> claimExp claims = Some x \<longrightarrow> unixTime (weNow e3) < x \<longrightarrow>
      t \<noteq> [] \<and> weParse e3 t = Token True claims"
    and "unixTime (weNow e3) < unixTime (weNow e2 + hour * 24 * 30)" "weNow e3 \<le> weNow e1 + 100 * 12 * 31 * 24 * hour"
    and "weProviders e3 = Some regs" "find (\<lambda>reg. ServiceID reg = sid) regs = Some server" "weRequestOk e3"
    and "plainHost (PublicIP server)" "plainHost (weVars e3 ''Node_Port'')"
    and "plain (weUUID e1)" "plain (crEmail body)" "plain (weClientIP e3)"
    and "weUUID e1 \<noteq> []" "crEmail body \<noteq> []" "weClientIP e3 \<noteq> []"
    and "nodeAccepts ce remote port" "connections ns (weUUID e1) = None" "wsConns s (weUUID e1) = None"
  shows "\<exists>s1 s2 t. ginServe e1 noRoute r1 s = (s1, ginJSON StatusOK (JObj []) newWriter) \<and>
    ginServe e2 noRoute r2 s1 = (s2, ginJSON StatusOK (JObj [(''token'', JStr t)]) newWriter) \<and>
    (\<forall>r3. rMethod r3 = POST \<longrightarrow> rPath r3 = ''/connect'' \<longrightarrow> rHeader r3 ''Authorization'' = t \<longrightarrow> rQuery r3 ''serviceid'' = sid \<longrightarrow>
       (\<exists>ns' s3 p. connectVia e3 noRoute statusText ce h remote r3 ns s2 = Some (ns', s3, ginJSON StatusOK
           (JObj [(''port'', JStr (itoa port)), (''pubkey'', JStr (weVars e3 ''REALITY_PUBKEY'')), (''uuid'', JStr (weUUID e1))]) newWriter) \<and>
         proxies ns' = proxies ns @ [p] \<and> pxPort p = port \<and> \<not> pxCancelled p \<and>
         running (proxies (startProxy (length (proxies ns)) True ns') ! length (proxies ns)) \<and> pxSourceIP p = weClientIP e3 \<and>
         pxRate p = 200 * 1000 * 1000 div 8 \<and> pxBurst p = 3 * (200 * 1000 * 1000 div 8) \<and> connections ns' (weUUID e1) = Some port \<and>
         wsConns s3 (weUUID e1) = Some [\<lparr>ucNodeIP = PublicIP server, ucServiceID = sid, ucNodePort = itoa port,
           ucClientIP = weClientIP e3, ucLastHeartBeat = weLater e3\<rparr>]))"
proof -
  obtain tokens t i where start: "ginServe e1 noRoute r1 s = (s\<lparr>wsDB := d'\<rparr>, ginJSON StatusOK (JObj []) newWriter)"
      "ginServe e2 noRoute r2 (s\<lparr>wsDB := d'\<rparr>) = (s\<lparr>wsDB := d', wsTokens := tokens\<rparr>, ginJSON StatusOK (JObj [(''token'', JStr t)]) newWriter)"
      "RequireAuth ops (weParse e3) (weNow e3) t d' newWriter =
        Ret newWriter (Some ((newUser (weNow e1) (crEmail body) hash (weUUID e1))\<lparr>userID := i\<rparr>))"
    using session_started [OF assms(1-3,5-16)] by blast
  define u where "u = (newUser (weNow e1) (crEmail body) hash (weUUID e1))\<lparr>userID := i\<rparr>"
  have fields: "UUID u = weUUID e1" "Email u = crEmail body" "Plan u = ''Premium plan''" "RateMap (Plan u) = 200 * 1000 * 1000 div 8"
      "PlanEnd u = weNow e1 + 100 * 12 * 31 * 24 * hour" "TrafficUsed u < TrafficLimit u"
    by (simp_all add: u_def newUser_def RateMap_def)
  have "\<exists>ns' s3 p. connectVia e3 noRoute statusText ce h remote r3 ns (s\<lparr>wsDB := d', wsTokens := tokens\<rparr>) = Some (ns', s3, ginJSON StatusOK
           (JObj [(''port'', JStr (itoa port)), (''pubkey'', JStr (weVars e3 ''REALITY_PUBKEY'')), (''uuid'', JStr (UUID u))]) newWriter) \<and>
         proxies ns' = proxies ns @ [p] \<and> pxPort p = port \<and> \<not> pxCancelled p \<and>
         running (proxies (startProxy (length (proxies ns)) True ns') ! length (proxies ns)) \<and> pxSourceIP p = weClientIP e3 \<and>
         pxRate p = RateMap (Plan u) \<and> pxBurst p = 3 * RateMap (Plan u) \<and> connections ns' (UUID u) = Some port \<and>
         wsConns s3 (UUID u) = Some [\<lparr>ucNodeIP = PublicIP server, ucServiceID = sid, ucNodePort = itoa port,
           ucClientIP = weClientIP e3, ucLastHeartBeat = weLater e3\<rparr>]"
    if r3: "rMethod r3 = POST" "rPath r3 = ''/connect''" "rHeader r3 ''Authorization'' = t" "rQuery r3 ''serviceid'' = sid" for r3
  proof -
    have auth: "RequireAuth (weOps e3) (weParse e3) (weNow e3) (rHeader r3 ''Authorization'') (wsDB (s\<lparr>wsDB := d', wsTokens := tokens\<rparr>)) newWriter =
        Ret newWriter (Some u)" using start(3) r3(3) assms(4) by (simp add: u_def)
    have prem: "weNow e3 \<le> PlanEnd u" "find (\<lambda>reg. ServiceID reg = rQuery r3 ''serviceid'') regs = Some server" "Plan u \<noteq> []"
        "RateMap (Plan u) \<noteq> 0" "plain (UUID u)" "plain (Email u)" "UUID u \<noteq> []" "Email u \<noteq> []" "connections ns (UUID u) = None"
      using assms(17,19,23-31) r3(4) fields(4) unfolding fields(1-3,5) by simp_all
    have none: "wsConns (s\<lparr>wsDB := d', wsTokens := tokens\<rparr>) (UUID u) = None" using assms(31) fields by simp
    from connect_through_node [OF auth r3(1,2) prem(1) fields(6) assms(18) prem(2) assms(20) prem(3,4) assms(21,22) prem(5,6) assms(25)
        prem(7,8) assms(28,29) prem(9), of noRoute statusText h] none
    show ?thesis by (force simp: addConnection_def MAX_CONNECTIONS_PER_USER_def Let_def r3(4) running_def)
  qed
  with start(1,2) show ?thesis unfolding fields(1,4) by blast
qed

text \<open>
  C33: the batches of the heartbeat monitor take effect: sent to the URL the monitor builds, a
  non-empty list of users is accepted by the node, the monitor sees no error, and afterwards exactly
  those users are disconnected.
\<close>

theorem monitor_disconnect_effective:
  assumes "plainHost (ucNodeIP c)" "plainHost np" "uuids \<noteq> []"
  shows "\<exists>s' w. nodeMux e h (disconnectRequestTo (disconnectURL np c) uuids remote) s newWriter = Some (Ret s' w) \<and>
    sendDisconnectRequest (Some (finalStatus w)) = None \<and>
    connections s' = (connections s) |` (- set uuids) \<and> proxyServices s' = (proxyServices s) |` (- set uuids)"
proof -
  have "urlTarget (''http://'' @ (ucNodeIP c @ '':'' @ np) @ CHR ''/'' # ''disconnect'') = (CHR ''/'' # ''disconnect'', [])"
    by (rule urlTarget_simple(2) [where query = "[]"]) (use assms(1,2) in \<open>auto dest: plainHost_chars\<close>)
  then have path: "urlTarget (disconnectURL np c) = (''/disconnect'', [])" by (simp add: disconnectURL_def)
  have "nodeMux e h (disconnectRequestTo (disconnectURL np c) uuids remote) s newWriter =
      Some (Ret (disconnectLoop uuids s) (writeHeader StatusOK newWriter))"
    using assms(3) by (simp add: disconnectRequestTo_def path nodeMux_def nodeRoutes_def nodeServeHTTP_def handleDisconnect_def)
  moreover have "connections (disconnectLoop uuids s) = (connections s) |` (- set uuids)"
      "proxyServices (disconnectLoop uuids s) = (proxyServices s) |` (- set uuids)"
    using disconnectLoop_maps [of uuids s] by (auto simp: restrict_map_def)
  ultimately show ?thesis by (simp add: sendDisconnectRequest_def http_simps)
qed

text \<open>
  The batches of the plan monitor take none: its URL has no path, so the node answers 404, the
  monitor sees an error, and nobody is disconnected, though the web server has forgotten the
  connections.
\<close>

theorem plan_monitor_request_not_found:
  assumes "plainHost (ucNodeIP c)" "plainHost np"
  shows "\<exists>w. nodeMux e h (disconnectRequestTo (planURL np c) uuids remote) s newWriter = Some (Ret s w) \<and>
    sendDisconnectRequest (Some (finalStatus w)) = Some (DisconnectRefused StatusNotFound)"
proof -
  have "urlTarget (''http://'' @ (ucNodeIP c @ '':'' @ np)) = (''/'', [])"
    by (rule urlTarget_simple(3) [where query = "[]" and path = "[]"]) (use assms in \<open>auto dest: plainHost_chars\<close>)
  then have "urlTarget (planURL np c) = (''/'', [])" by (simp add: planURL_def)
  then show ?thesis
    by (simp add: disconnectRequestTo_def nodeMux_def nodeRoutes_def sendDisconnectRequest_def http_simps)
qed

text \<open>
  The email is put into the connect URL unescaped. An email that continues with \<open>&rate=\<close> and a
  number sets the rate the node reads, whatever the plan is.
\<close>

theorem email_injects_rate:
  assumes "plainHost nodeIP" "plainHost nodePort" "plain uuid" "plain x" "plain clientIP" "plain v"
  shows "rQuery (connectRequestTo (connectURL nodeIP nodePort uuid (x @ ''&rate='' @ v) clientIP (RateMap plan)) remote) ''rate'' = v"
proof -
  have email: "CHR ''#'' \<notin> set (x @ ''&rate='' @ v)" using assms(4,6) by (auto simp: plain_def)
  note target = connectURL_target [OF assms(1-3) email assms(5), of "RateMap plan"]
  let ?rest = "''clientip='' @ clientIP @ ''&rate='' @ itoa (RateMap plan) @ ''&burst='' @ itoa (wrap64 (RateMap plan * 3))"
  have keys: "plain ''uuid''" "plain ''email''" "plain ''rate''" by (simp_all add: plain_def)
  have "parseQuery (''uuid='' @ uuid @ ''&email='' @ x @ ''&rate='' @ v @ ''&'' @ ?rest) =
      (''uuid'', uuid) # (''email'', x) # (''rate'', v) # parseQuery ?rest"
    using parseQuery_pair(1) [of "''uuid''" uuid] parseQuery_pair(1) [of "''email''" x] parseQuery_pair(1) [of "''rate''" v]
      assms keys by simp
  then show ?thesis unfolding connectRequestTo_def target by (simp add: queryGet_def)
qed

section \<open>Concrete runs\<close>

definition planRequest :: request where
  "planRequest = connectRequestTo (connectURL ''1.1.1.1'' ''80'' ''u-2'' ''bob'' ''5.5.5.5'' (RateMap ''Premium plan'')) ''9.9.9.9:4000''"

lemma plain_examples:
  "plainHost ''1.1.1.1''" "plainHost ''80''" "plain ''u-2''" "plain ''bob''" "plain ''5.5.5.5''" "plain ''999999999''"
  by (simp_all add: plainHost_def plain_def isDigit_def)

lemma planRequest_query:
  "rPath planRequest = ''/connect''" "rMethod planRequest = GET" "rRemoteAddr planRequest = ''9.9.9.9:4000''"
  "rQuery planRequest ''uuid'' = ''u-2''" "rQuery planRequest ''email'' = ''bob''" "rQuery planRequest ''clientip'' = ''5.5.5.5''"
proof -
  note target = connectURL_target [OF plain_examples(1-3) plain_no_hash [OF plain_examples(4)] plain_examples(5), of "RateMap ''Premium plan''"]
  note query = connectURL_query [OF plain_examples(3-5), of "RateMap ''Premium plan''" "wrap64 (RateMap ''Premium plan'' * 3)"]
  show "rPath planRequest = ''/connect''" "rMethod planRequest = GET" "rRemoteAddr planRequest = ''9.9.9.9:4000''"
    by (simp_all add: planRequest_def connectRequestTo_def target)
  show "rQuery planRequest ''uuid'' = ''u-2''" "rQuery planRequest ''email'' = ''bob''" "rQuery planRequest ''clientip'' = ''5.5.5.5''"
    by (simp_all only: planRequest_def connectRequestTo_def request.simps target snd_conv queryGet_def query) simp_all
qed

theorem web_connect_opens_plan_proxy_witness:
  "\<exists>s' w' p. nodeMux (demoEnv [5] True) demoHost planRequest (initNode ()) newWriter = Some (Ret s' w') \<and>
     proxies s' = [p] \<and> pxSourceIP p = ''5.5.5.5'' \<and> pxRate p = 25000000 \<and> pxBurst p = 75000000"
proof -
  obtain s' w' where run: "nodeMux (demoEnv [5] True) demoHost planRequest (initNode ()) newWriter = Some (Ret s' w')"
      "finalStatus w' = StatusOK"
    by (simp add: nodeMux_def nodeRoutes_def nodeServeHTTP_def handleConnect_def openProxy_def planRequest_query
        demoEnv_def splitHostPort_def addVlessUser_def initNode_def portResponse_def http_simps Let_def)
  have "connections (initNode ()) ''u-2'' = None" by (simp add: initNode_def)
  from web_connect_opens_plan_proxy [OF plain_examples(1-5) planRequest_def run this] run
  show ?thesis by (auto simp: initNode_def RateMap_def)
qed

theorem new_user_gets_proxy_witness:
  "\<exists>s1 s2 t ns' s3 w p. ginServe (demoWeb 0) (\<lambda>_. newWriter) (webRequest POST ''/signup'' []) (bobServer\<lparr>wsDB := []\<rparr>) =
       (s1, ginJSON StatusOK (JObj []) newWriter) \<and>
     ginServe (demoWeb 5) (\<lambda>_. newWriter) (webRequest POST ''/login'' []) s1 = (s2, ginJSON StatusOK (JObj [(''token'', JStr t)]) newWriter) \<and>
     connectVia demoLater (\<lambda>_. newWriter) (\<lambda>_. []) (demoEnv [5] True) demoHost ''9.9.9.9:4000'' (webRequest POST ''/connect'' t) (initNode ()) s2 =
       Some (ns', s3, w) \<and> proxies ns' = [p] \<and> pxPort p = 10005 \<and> pxRate p = 25000000 \<and> connections ns' ''u-1'' = Some 10005"
proof -
  note D = demo_session
  let ?body = "\<lparr>crEmail = ''alice'', crPassword = ''pw''\<rparr>"
  have cred: "weHash (demoWeb 0) (crPassword ?body) = Some ''h:pw''" "weCompare (demoWeb 5) ''h:pw'' (crPassword ?body)"
      "dbCreate listDB (newUser (weNow (demoWeb 0)) (crEmail ?body) ''h:pw'' (weUUID (demoWeb 0))) (wsDB (bobServer\<lparr>wsDB := []\<rparr>)) = ([alice], None)"
    using D(7-9) by simp_all
  have env: "weProviders demoLater = Some [demoNode]" "find (\<lambda>reg. ServiceID reg = ''n1'') [demoNode] = Some demoNode" "weRequestOk demoLater"
      "plainHost (PublicIP demoNode)" "plainHost (weVars demoLater ''Node_Port'')" "plain (weUUID (demoWeb 0))" "plain (crEmail ?body)"
      "plain (weClientIP demoLater)" "weUUID (demoWeb 0) \<noteq> []" "crEmail ?body \<noteq> []" "weClientIP demoLater \<noteq> []"
      "weNow demoLater \<le> weNow (demoWeb 0) + 100 * 12 * 31 * 24 * hour"
    by (simp_all add: demoLater_def demoWeb_def demoNode_def plainHost_def plain_def isDigit_def hour_def minute_def second_def)
  have node: "nodeAccepts (demoEnv [5] True) ''9.9.9.9:4000'' 10005" "connections (initNode ()) (weUUID (demoWeb 0)) = None"
      "wsConns (bobServer\<lparr>wsDB := []\<rparr>) (weUUID (demoWeb 0)) = None"
    by (simp_all add: nodeAccepts_def demoEnv_def splitHostPort_def xrayInit_def initNode_def bobServer_def)
  have req: "rQuery (webRequest m p t) ''serviceid'' = ''n1''" for m p t by (simp add: webRequest_def)
  have uuid: "weUUID (demoWeb 0) = ''u-1''" "proxies (initNode ()) = []" by (simp_all add: demoWeb_def initNode_def)
  from new_user_gets_proxy [OF listDB_laws D(1,1,2,3,4,6) D(3,4,6) cred D(10-12) env(12,1-11) node,
      where noRoute = "\<lambda>_. newWriter" and statusText = "\<lambda>_. []" and h = demoHost]
  obtain s1 s2 t where run: "ginServe (demoWeb 0) (\<lambda>_. newWriter) (webRequest POST ''/signup'' []) (bobServer\<lparr>wsDB := []\<rparr>) =
       (s1, ginJSON StatusOK (JObj []) newWriter)"
     "ginServe (demoWeb 5) (\<lambda>_. newWriter) (webRequest POST ''/login'' []) s1 = (s2, ginJSON StatusOK (JObj [(''token'', JStr t)]) newWriter)"
     "\<exists>ns' s3 w p. connectVia demoLater (\<lambda>_. newWriter) (\<lambda>_. []) (demoEnv [5] True) demoHost ''9.9.9.9:4000'' (webRequest POST ''/connect'' t) (initNode ()) s2 =
       Some (ns', s3, w) \<and> proxies ns' = proxies (initNode ()) @ [p] \<and> pxPort p = 10005 \<and> pxRate p = 200 * 1000 * 1000 div 8 \<and>
       connections ns' (weUUID (demoWeb 0)) = Some 10005"
    by (metis D(3-5) req)
  from run(3) have "\<exists>ns' s3 w p. connectVia demoLater (\<lambda>_. newWriter) (\<lambda>_. []) (demoEnv [5] True) demoHost ''9.9.9.9:4000'' (webRequest POST ''/connect'' t) (initNode ()) s2 =
       Some (ns', s3, w) \<and> proxies ns' = [p] \<and> pxPort p = 10005 \<and> pxRate p = 25000000 \<and> connections ns' ''u-1'' = Some 10005"
    by (simp add: uuid)
  with run(1,2) show ?thesis by blast
qed

theorem monitor_disconnect_effective_witness:
  "\<exists>s' w. nodeMux (demoEnv [] True) demoHost (disconnectRequestTo (disconnectURL ''80'' (demoConn 0)) [''u1''] ''9.9.9.9:1'') oneUser newWriter =
       Some (Ret s' w) \<and> sendDisconnectRequest (Some (finalStatus w)) = None \<and> connections s' ''u1'' = None"
proof -
  have "plainHost (ucNodeIP (demoConn 0))" "plainHost ''80''" "[''u1''] \<noteq> []" by (simp_all add: plainHost_def isDigit_def demoConn_def)
  from monitor_disconnect_effective [OF this, of "demoEnv [] True" demoHost "''9.9.9.9:1''" oneUser] show ?thesis
    by (auto simp: restrict_map_def)
qed

theorem plan_monitor_request_not_found_witness:
  "\<exists>w. nodeMux (demoEnv [] True) demoHost (disconnectRequestTo (planURL ''80'' (demoConn 0)) [''u1''] ''9.9.9.9:1'') oneUser newWriter =
     Some (Ret oneUser w) \<and> sendDisconnectRequest (Some (finalStatus w)) = Some (DisconnectRefused StatusNotFound)"
  by (rule plan_monitor_request_not_found) (simp_all add: plainHost_def isDigit_def demoConn_def)

theorem email_injects_rate_witness:
  "rQuery (connectRequestTo (connectURL ''1.1.1.1'' ''80'' ''u-2'' (''bob'' @ ''&rate='' @ ''999999999'') ''5.5.5.5'' (RateMap ''Free plan''))
     ''9.9.9.9:4000'') ''rate'' = ''999999999''"
  by (rule email_injects_rate [OF plain_examples])

end
